(* ===== verification/Prelude.thy ===== *)
theory Prelude
  imports Main "HOL-Library.Word" "HOL-Library.Signed_Division" "HOL-Library.Sublist"
    "HOL-Library.Char_ord" "HOL-Library.List_Lexorder" "HOL-Library.Multiset"
begin

text \<open>
  The layer every component shares: the Go string, slice and map operations the source calls,
  fixed-width integers, the argmin loop that the source writes three times (drain order, blocking
  drain, packing), and the lemma collections that carry the component proofs.

  Go strings are byte strings, modelled as \<open>string\<close> (a list of \<open>char\<close>); \<open>strings.Compare\<close> is
  the bytewise lexicographic order, which is the order \<open>HOL-Library.List_Lexorder\<close> and
  \<open>HOL-Library.Char_ord\<close> give to \<open>string\<close>.
\<close>

named_theorems keeps_intro \<open>preservation rules for the API monad\<close>
named_theorems quiet_simps \<open>evaluation of API operations in an undisturbed world\<close>
named_theorems pure_ops \<open>operations that never write a cluster object\<close>

subsection \<open>Fixed-width integers\<close>

type_synonym int32 = "32 word"

lemma sint_int32_of_int:
  assumes "- (2 ^ 31) \<le> k" "k < 2 ^ 31"
  shows "sint (word_of_int k :: int32) = k"
proof -
  have "sint (word_of_int k :: int32) = signed_take_bit 31 k"
    by (simp add: signed_of_int)
  with assms show ?thesis by (simp add: signed_take_bit_int_eq_self)
qed

lemma sint_int32_add:
  assumes "- (2 ^ 31) \<le> sint a + sint b" "sint a + sint b < 2 ^ 31"
  shows "sint (a + b :: int32) = sint a + sint b"
  using sint_int32_of_int[OF assms] by simp

text \<open>Go's \<open>int64\<close> wraps around; a \<open>time.Duration\<close> is one.\<close>

definition wrap64 :: "int \<Rightarrow> int" where
  "wrap64 x = (x + 2 ^ 63) mod 2 ^ 64 - 2 ^ 63"

lemma wrap64_id: "- (2 ^ 63) \<le> x \<Longrightarrow> x < 2 ^ 63 \<Longrightarrow> wrap64 x = x"
  by (simp add: wrap64_def)

lemma wrap64_range: "- (2 ^ 63) \<le> wrap64 x \<and> wrap64 x < 2 ^ 63"
  by (simp add: wrap64_def)

text \<open>Go's integer division truncates towards zero.\<close>

definition go_quot :: "int \<Rightarrow> int \<Rightarrow> int" where
  "go_quot a b = sgn a * sgn b * (\<bar>a\<bar> div \<bar>b\<bar>)"

definition go_rem :: "int \<Rightarrow> int \<Rightarrow> int" where
  "go_rem a b = a - go_quot a b * b"

lemma go_quot_nonneg: "0 \<le> a \<Longrightarrow> 0 < b \<Longrightarrow> go_quot a b = a div b"
  by (cases "a = 0") (simp_all add: go_quot_def)

lemma go_rem_nonneg: "0 \<le> a \<Longrightarrow> 0 < b \<Longrightarrow> go_rem a b = a mod b"
  by (simp add: go_rem_def go_quot_nonneg minus_div_mult_eq_mod)

subsection \<open>Strings, slices and maps\<close>

text \<open>\<open>m[k]\<close> of a Go map of strings: the zero value when the key is missing.\<close>

definition mget :: "(string \<rightharpoonup> string) \<Rightarrow> string \<Rightarrow> string" where
  "mget m k = (case m k of None \<Rightarrow> [] | Some v \<Rightarrow> v)"

lemma mget_simps [simp]:
  "m k = None \<Longrightarrow> mget m k = []"
  "m k = Some v \<Longrightarrow> mget m k = v"
  by (simp_all add: mget_def)

lemma mget_upd: "mget (m(k := x)) k' = (if k' = k then (case x of None \<Rightarrow> [] | Some v \<Rightarrow> v) else mget m k')"
  by (simp add: mget_def)

definition strings_Contains :: "string \<Rightarrow> string \<Rightarrow> bool" where
  "strings_Contains s sub = sublist sub s"

text \<open>\<open>strings.Cut(s, sep)\<close> for a one-byte separator: the parts around its first occurrence.\<close>

fun strings_Cut :: "string \<Rightarrow> char \<Rightarrow> (string \<times> string) option" where
  "strings_Cut [] c = None"
| "strings_Cut (x # xs) c =
     (if x = c then Some ([], xs)
      else (case strings_Cut xs c of None \<Rightarrow> None | Some (a, b) \<Rightarrow> Some (x # a, b)))"

lemma strings_Cut_append: "c \<notin> set a \<Longrightarrow> strings_Cut (a @ c # b) c = Some (a, b)"
  by (induction a) auto

lemma strings_Cut_Some: "strings_Cut s c = Some (a, b) \<Longrightarrow> s = a @ c # b \<and> c \<notin> set a"
  by (induction s arbitrary: a) (auto split: if_splits option.splits)

text \<open>\<open>slices.Index\<close>: the first index, \<open>None\<close> for Go's \<open>-1\<close>.\<close>

fun slices_Index :: "'a list \<Rightarrow> 'a \<Rightarrow> nat option" where
  "slices_Index [] x = None"
| "slices_Index (y # ys) x = (if y = x then Some 0 else map_option Suc (slices_Index ys x))"

lemma slices_Index_None [simp]: "slices_Index xs x = None \<longleftrightarrow> x \<notin> set xs"
  by (induction xs) auto

lemma slices_Index_Some: "slices_Index xs x = Some i \<Longrightarrow> i < length xs \<and> xs ! i = x"
  by (induction xs arbitrary: i) (auto split: if_splits)

lemma slices_Index_first: "slices_Index xs x = Some i \<Longrightarrow> j < i \<Longrightarrow> xs ! j \<noteq> x"
proof (induction xs arbitrary: i j)
  case (Cons a xs)
  then show ?case by (cases j) (auto split: if_splits)
qed simp

lemma slices_Index_nth: "distinct xs \<Longrightarrow> i < length xs \<Longrightarrow> slices_Index xs (xs ! i) = Some i"
proof (induction xs arbitrary: i)
  case (Cons a xs)
  then show ?case by (cases i) auto
qed simp

text \<open>Go's \<open>for range n\<close> runs its body \<open>n\<close> times, never for a negative \<open>n\<close>.\<close>

definition go_range :: "int \<Rightarrow> nat" where
  "go_range n = nat n"

text \<open>Association lists for Go maps whose iteration order the code must not depend on.\<close>

definition assoc_update :: "'k \<Rightarrow> ('v \<Rightarrow> 'v) \<Rightarrow> 'v \<Rightarrow> ('k \<times> 'v) list \<Rightarrow> ('k \<times> 'v) list" where
  "assoc_update k f v0 m =
     (if k \<in> fst ` set m then map (\<lambda>(k', v). (k', if k' = k then f v else v)) m
      else m @ [(k, f v0)])"

lemma fst_assoc_update:
  "map fst (assoc_update k f v0 m) = (if k \<in> fst ` set m then map fst m else map fst m @ [k])"
  by (induction m) (auto simp: assoc_update_def)

lemma map_of_map_vals:
  "map_of (map (\<lambda>(k', v). (k', if k' = k then f v else v)) m) x
     = (if x = k then map_option f (map_of m x) else map_of m x)"
  by (induction m) auto

lemma map_of_assoc_update:
  "map_of (assoc_update k f v0 m) x =
     (if x = k then Some (f (case map_of m k of None \<Rightarrow> v0 | Some v \<Rightarrow> v)) else map_of m x)"
proof (cases "k \<in> fst ` set m")
  case True
  then obtain v where "map_of m k = Some v"
    by (metis domD dom_map_of_conv_image_fst)
  with True show ?thesis by (simp add: assoc_update_def map_of_map_vals)
next
  case False
  then have "map_of m k = None" by (simp add: map_of_eq_None_iff)
  with False show ?thesis by (auto simp: assoc_update_def map_add_def split: option.splits)
qed

lemma distinct_assoc_update:
  "distinct (map fst m) \<Longrightarrow> distinct (map fst (assoc_update k f v0 m))"
  by (auto simp: fst_assoc_update)

subsection \<open>The argmin loop\<close>

text \<open>
  \<^verbatim>\<open>for x in xs { if best == nil || better(x, best) { best = x } }\<close>, the loop of
  \<open>drain.NextHero\<close>, \<open>drain.BlockingDrain\<close> and \<open>selection.packWithinGroup\<close>.
\<close>

fun pick_loop :: "('a \<Rightarrow> 'a \<Rightarrow> bool) \<Rightarrow> 'a option \<Rightarrow> 'a list \<Rightarrow> 'a option" where
  "pick_loop better best [] = best"
| "pick_loop better best (x # xs) =
     pick_loop better
       (case best of None \<Rightarrow> Some x | Some b \<Rightarrow> if better x b then Some x else Some b) xs"

abbreviation pick :: "('a \<Rightarrow> 'a \<Rightarrow> bool) \<Rightarrow> 'a list \<Rightarrow> 'a option" where
  "pick better xs \<equiv> pick_loop better None xs"

lemma pick_loop_None [simp]: "pick_loop better best xs = None \<longleftrightarrow> best = None \<and> xs = []"
  by (induction xs arbitrary: best) (auto split: option.splits if_splits)

lemma pick_loop_mem:
  "pick_loop better best xs = Some b \<Longrightarrow> b \<in> set xs \<or> best = Some b"
  by (induction xs arbitrary: best) (fastforce split: option.splits if_splits)+

lemma pick_mem: "pick better xs = Some b \<Longrightarrow> b \<in> set xs"
  by (auto dest: pick_loop_mem)

lemma pick_loop_map:
  "pick_loop better (map_option f best) (map f xs)
     = map_option f (pick_loop (\<lambda>a b. better (f a) (f b)) best xs)"
proof (induction xs arbitrary: best)
  case (Cons x xs)
  show ?case
  proof (cases best)
    case None
    then show ?thesis using Cons[of "Some x"] by simp
  next
    case (Some b)
    then show ?thesis
      using Cons[of "Some x"] Cons[of "Some b"] by simp
  qed
qed simp

text \<open>
  What a comparison must promise for the loop to be a deterministic choice: it is a strict
  weak order, and it decides between any two elements with different keys.
\<close>

locale preference =
  fixes better :: "'a \<Rightarrow> 'a \<Rightarrow> bool" and pkey :: "'a \<Rightarrow> 'k"
  assumes better_asym: "better x y \<Longrightarrow> \<not> better y x"
    and better_cotrans: "better x z \<Longrightarrow> better x y \<or> better y z"
    and better_total: "pkey x \<noteq> pkey y \<Longrightarrow> better x y \<or> better y x"
begin

lemma better_trans: "better x y \<Longrightarrow> better y z \<Longrightarrow> better x z"
  using better_cotrans better_asym by blast

lemma pick_loop_best:
  "pick_loop better best xs = Some b \<Longrightarrow>
     (\<forall>x \<in> set xs. \<not> better x b) \<and> (\<forall>c. best = Some c \<longrightarrow> \<not> better c b)"
proof (induction xs arbitrary: best)
  case Nil
  then show ?case using better_asym by auto
next
  case (Cons x xs)
  show ?case
  proof (cases best)
    case None
    with Cons show ?thesis by fastforce
  next
    case (Some c)
    show ?thesis
    proof (cases "better x c")
      case True
      with Cons Some have "(\<forall>y \<in> set xs. \<not> better y b) \<and> \<not> better x b" by fastforce
      moreover from this True have "\<not> better c b"
        using better_cotrans better_asym by blast
      ultimately show ?thesis using Some by simp
    next
      case False
      with Cons Some have "(\<forall>y \<in> set xs. \<not> better y b) \<and> \<not> better c b" by fastforce
      moreover from this False have "\<not> better x b"
        using better_cotrans by blast
      ultimately show ?thesis using Some by simp
    qed
  qed
qed

lemma pick_best: "pick better xs = Some b \<Longrightarrow> x \<in> set xs \<Longrightarrow> \<not> better x b"
  using pick_loop_best by blast

lemma pick_before:
  "pick better xs = Some b \<Longrightarrow> x \<in> set xs \<Longrightarrow> pkey x \<noteq> pkey b \<Longrightarrow> better b x"
  using pick_best better_total by blast

lemma pick_unique:
  assumes "\<And>x y. x \<in> set xs \<Longrightarrow> y \<in> set xs \<Longrightarrow> pkey x = pkey y \<Longrightarrow> x = y"
    and "set xs = set ys"
  shows "pick better xs = pick better ys"
proof (cases "pick better xs")
  case None
  with assms show ?thesis by auto
next
  case (Some b)
  then obtain c where c: "pick better ys = Some c"
    using assms(2) by (metis empty_iff empty_set not_None_eq pick_loop_None pick_mem)
  have "b \<in> set xs" "c \<in> set xs" using Some c assms(2) pick_mem by fastforce+
  moreover have "pkey b = pkey c"
    using Some c assms(2) pick_best better_total \<open>b \<in> set xs\<close> \<open>c \<in> set xs\<close> by metis
  ultimately show ?thesis using Some c assms(1) by auto
qed

end

subsection \<open>Lists\<close>

lemma find_mem: "find P xs = Some x \<Longrightarrow> x \<in> set xs \<and> P x"
  by (induction xs) (auto split: if_splits)

lemma find_unique:
  "distinct (map f xs) \<Longrightarrow> x \<in> set xs \<Longrightarrow> find (\<lambda>y. f y = f x) xs = Some x"
  by (induction xs) (auto simp: rev_image_eqI)

lemma find_map_replace:
  "find (\<lambda>y. f y = k) (map (\<lambda>y. if f y = f x then x else y) xs) =
     (if k = f x then (if k \<in> f ` set xs then Some x else None) else find (\<lambda>y. f y = k) xs)"
  by (induction xs) auto

lemma list_all2_left: "list_all2 P xs ys \<Longrightarrow> y \<in> set ys \<Longrightarrow> \<exists>x \<in> set xs. P x y"
  by (induction rule: list_all2_induct) auto

end
