(* ===== verification/Go_Time.thy ===== *)
theory Go_Time
  imports Prelude
begin

text \<open>
  The part of Go's package \<open>time\<close> the controllers use. A \<open>time.Time\<close> is the number of nanoseconds
  since 0001-01-01T00:00:00Z, Go's zero time, so \<open>IsZero\<close> is \<open>t = 0\<close>. A \<open>time.Duration\<close> is an
  \<open>int64\<close> of nanoseconds: \<open>Time.Sub\<close> saturates, subtraction of durations wraps around. The layout
  \<open>time.RFC3339\<close> is formatted and parsed as the annotations of a drained node carry it.
  \<open>time.Parse\<close> tries the strict RFC 3339 path first (date and clock fields in range, an optional
  fraction after a dot, \<open>Z\<close> or a numeric zone) and falls back to the layout-driven parser, which
  also takes a one-digit hour, a fraction after a comma, and zone offsets up to 24:60.
\<close>

type_synonym time = int
type_synonym duration = int

definition IsZero :: "time \<Rightarrow> bool" where
  "IsZero t \<longleftrightarrow> t = 0"

definition nanosecond :: duration where "nanosecond = 1"
definition second :: duration where "second = 10 ^ 9"
definition minute :: duration where "minute = 60 * 10 ^ 9"
definition hour :: duration where "hour = 3600 * 10 ^ 9"

lemmas duration_units = second_def minute_def hour_def

definition time_Sub :: "time \<Rightarrow> time \<Rightarrow> duration" where
  "time_Sub t u = max (- (2 ^ 63)) (min (2 ^ 63 - 1) (t - u))"

definition dur_minus :: "duration \<Rightarrow> duration \<Rightarrow> duration" where
  "dur_minus a b = wrap64 (a - b)"

lemma time_Sub_exact: "- (2 ^ 63) \<le> t - u \<Longrightarrow> t - u < 2 ^ 63 \<Longrightarrow> time_Sub t u = t - u"
  by (simp add: time_Sub_def)

lemma time_Sub_mono: "t \<le> t' \<Longrightarrow> time_Sub t u \<le> time_Sub t' u"
  by (auto simp: time_Sub_def)

subsection \<open>Calendar\<close>

definition leap :: "int \<Rightarrow> bool" where
  "leap y \<longleftrightarrow> 4 dvd y \<and> (\<not> 100 dvd y \<or> 400 dvd y)"

definition year_len :: "int \<Rightarrow> int" where
  "year_len y = (if leap y then 366 else 365)"

definition days_in :: "int \<Rightarrow> nat \<Rightarrow> int" where
  "days_in y m =
     (if m = 2 then (if leap y then 29 else 28)
      else if m \<in> {4, 6, 9, 11} then 30 else 31)"

text \<open>Days from 0001-01-01 to the first of January of year \<open>y\<close>.\<close>

definition days_before_year :: "int \<Rightarrow> int" where
  "days_before_year y = 365 * (y - 1) + (y - 1) div 4 - (y - 1) div 100 + (y - 1) div 400"

definition days_before_month :: "int \<Rightarrow> nat \<Rightarrow> int" where
  "days_before_month y m = sum_list (map (days_in y) [1..<m])"

lemma leap_count: "(if leap y then 1 else 0) =
    y div 4 - (y - 1) div 4 - (y div 100 - (y - 1) div 100) + (y div 400 - (y - 1) div 400)"
proof -
  have step: "y div k - (y - 1) div k = (if k dvd y then 1 else 0)" if "0 < k" for k :: int
  proof (cases "k dvd y")
    case True
    then obtain q where "y = k * q" by blast
    then have "(y - 1) div k = q - 1"
      using that by (intro int_div_pos_eq[where r = "k - 1"]) (simp_all add: algebra_simps)
    with \<open>y = k * q\<close> that show ?thesis by simp
  next
    case False
    then have "0 < y mod k" using that
      by (metis dvd_eq_mod_eq_0 less_le pos_mod_sign)
    then have "(y - 1) div k = y div k"
      using that pos_mod_bound[OF that, of y]
      by (intro int_div_pos_eq[where r = "y mod k - 1"]) (simp_all add: algebra_simps)
    with False show ?thesis by simp
  qed
  have "100 dvd y \<Longrightarrow> 4 dvd y" "400 dvd y \<Longrightarrow> 100 dvd y"
    using dvd_trans[of 4 100 y] dvd_trans[of 100 400 y] by simp_all
  then have "(if leap y then 1 else 0) = (if 4 dvd y then 1 else 0)
      - (if 100 dvd y then 1 else 0) + (if 400 dvd y then 1 else (0::int))"
    unfolding leap_def
    by (cases "4 dvd y"; cases "100 dvd y"; cases "400 dvd y") simp_all
  moreover have "y div 4 - (y - 1) div 4 = (if 4 dvd y then 1 else 0)"
    "y div 100 - (y - 1) div 100 = (if 100 dvd y then 1 else 0)"
    "y div 400 - (y - 1) div 400 = (if 400 dvd y then 1 else 0)"
    by (rule step, simp)+
  ultimately show ?thesis by (simp only:)
qed

lemma days_before_year_Suc: "days_before_year (y + 1) = days_before_year y + year_len y"
proof -
  have y: "y + 1 - 1 = y" by simp
  have len: "year_len y = 365 + (if leap y then 1 else 0)" by (simp add: year_len_def)
  have shift: "365 * y + a - b + c = 365 * (y - 1) + a' - b' + c' + (365 + (a - a' - (b - b') + (c - c')))"
    for a b c a' b' c' :: int by simp
  show ?thesis unfolding days_before_year_def y len leap_count[of y] by (rule shift)
qed

lemma year_len_pos: "0 < year_len y"
  by (simp add: year_len_def)

lemma days_before_year_mono: "y \<le> z \<Longrightarrow> days_before_year y \<le> days_before_year z"
proof (induction z rule: int_ge_induct)
  case (step z)
  then show ?case using days_before_year_Suc[of z] year_len_pos[of z] by simp
qed simp

lemma days_before_year_upper: "1 \<le> y \<Longrightarrow> days_before_year y \<le> 366 * (y - 1)"
proof (induction y rule: int_ge_induct)
  case (step y)
  then show ?case using days_before_year_Suc[of y] by (simp add: year_len_def split: if_splits)
qed (simp add: days_before_year_def)

lemma days_before_year_lower: "1 \<le> y \<Longrightarrow> 365 * (y - 1) \<le> days_before_year y"
proof (induction y rule: int_ge_induct)
  case (step y)
  then show ?case using days_before_year_Suc[of y] by (simp add: year_len_def split: if_splits)
qed (simp add: days_before_year_def)

text \<open>The year of a day number: a search upwards from an underestimate.\<close>

function year_from :: "int \<Rightarrow> int \<Rightarrow> int" where
  "year_from d y = (if 1 \<le> y \<and> days_before_year (y + 1) \<le> d then year_from d (y + 1) else y)"
  by pat_completeness auto
termination
proof (relation "measure (\<lambda>(d, y). nat (d + 1 - days_before_year y))", goal_cases)
  case (2 d y)
  then show ?case using days_before_year_Suc[of y] year_len_pos[of y] by simp
qed simp

declare year_from.simps [simp del]

lemma year_from_spec:
  "1 \<le> y \<Longrightarrow> days_before_year y \<le> d \<Longrightarrow>
     1 \<le> year_from d y \<and> days_before_year (year_from d y) \<le> d
     \<and> d < days_before_year (year_from d y + 1)"
proof (induction d y rule: year_from.induct)
  case (1 d y)
  then show ?case by (subst (1 2 3) year_from.simps) auto
qed

definition year_of :: "int \<Rightarrow> int" where
  "year_of d = year_from d (d div 366 + 1)"

lemma year_of_spec:
  assumes "0 \<le> d"
  shows "1 \<le> year_of d \<and> days_before_year (year_of d) \<le> d
    \<and> d - days_before_year (year_of d) < year_len (year_of d)"
proof -
  have y: "1 \<le> d div 366 + 1" using assms by (simp add: pos_imp_zdiv_nonneg_iff)
  have "days_before_year (d div 366 + 1) \<le> d"
  proof (rule order_trans[OF days_before_year_upper[OF y]])
    have "366 * (d div 366) \<le> d" by simp
    then show "366 * (d div 366 + 1 - 1) \<le> d" by (simp only: add_diff_cancel_right')
  qed
  note spec = year_from_spec[OF y this]
  define z where "z = year_of d"
  have "1 \<le> z" "days_before_year z \<le> d" "d < days_before_year z + year_len z"
    using spec unfolding z_def year_of_def days_before_year_Suc by simp_all
  then have "1 \<le> z \<and> days_before_year z \<le> d \<and> d - days_before_year z < year_len z" by linarith
  then show ?thesis by (simp only: z_def)
qed

text \<open>The month of a day of the year, months counted from \<open>m\<close>.\<close>

function month_from :: "int \<Rightarrow> nat \<Rightarrow> int \<Rightarrow> nat \<times> int" where
  "month_from y m d =
     (if 12 \<le> m \<or> d < days_in y m then (m, d) else month_from y (Suc m) (d - days_in y m))"
  by pat_completeness auto
termination by (relation "measure (\<lambda>(y, m, d). 12 - m)") auto

declare month_from.simps [simp del]

lemma days_before_month_Suc:
  "1 \<le> m \<Longrightarrow> days_before_month y (Suc m) = days_before_month y m + days_in y m"
  by (simp add: days_before_month_def)

lemma days_before_month_13: "days_before_month y 13 = year_len y"
proof -
  have "[1..<13] = [1, 2, 3, 4, 5, 6, 7, 8, 9, 10, 11, 12::nat]" by code_simp
  then show ?thesis
    by (simp only: days_before_month_def list.map sum_list.Cons sum_list.Nil)
      (simp add: days_in_def year_len_def)
qed

lemma month_from_spec:
  assumes "1 \<le> m" "m \<le> 12" "0 \<le> d" "days_before_month y m + d < year_len y"
    and "month_from y m d = (m', d')"
  shows "1 \<le> m' \<and> m' \<le> 12 \<and> 0 \<le> d' \<and> d' < days_in y m'
    \<and> days_before_month y m' + d' = days_before_month y m + d"
  using assms
proof (induction y m d rule: month_from.induct)
  case (1 y m d)
  show ?case
  proof (cases "12 \<le> m \<or> d < days_in y m")
    case True
    with "1.prems" have r: "m' = m" "d' = d" by (simp_all add: month_from.simps[of y m d])
    have "d < days_in y m"
    proof (cases "d < days_in y m")
      case False
      with True "1.prems" have "m = 12" by simp
      then show ?thesis
        using "1.prems"(4) days_before_month_Suc[of 12 y] days_before_month_13[of y] by simp
    qed
    with r "1.prems" show ?thesis by simp
  next
    case False
    with "1.prems" have "month_from y (Suc m) (d - days_in y m) = (m', d')"
      by (simp add: month_from.simps[of y m d])
    with False "1.prems" "1.IH" show ?thesis by (simp add: days_before_month_Suc)
  qed
qed

subsection \<open>RFC 3339\<close>

definition digit :: "int \<Rightarrow> char" where
  "digit n = char_of (48 + nat n)"

definition undigit :: "char \<Rightarrow> int option" where
  "undigit c = (let n = (of_char c :: int) in if 48 \<le> n \<and> n \<le> 57 then Some (n - 48) else None)"

lemma undigit_digit [simp]: "0 \<le> n \<Longrightarrow> n \<le> 9 \<Longrightarrow> undigit (digit n) = Some n"
proof -
  assume n: "0 \<le> n" "n \<le> 9"
  then have "(48 + nat n) mod 256 = 48 + nat n" by simp
  then have "(of_char (char_of (48 + nat n)) :: nat) = 48 + nat n" by (simp only: of_char_of)
  then have "(of_char (char_of (48 + nat n)) :: int) = 48 + n"
    using n of_nat_of_char[of "char_of (48 + nat n)", where 'a = int] by simp
  then show ?thesis using n by (simp add: undigit_def digit_def Let_def)
qed

fun undigits :: "int \<Rightarrow> string \<Rightarrow> int option" where
  "undigits acc [] = Some acc"
| "undigits acc (c # cs) =
     (case undigit c of None \<Rightarrow> None | Some d \<Rightarrow> undigits (10 * acc + d) cs)"

definition pad2 :: "int \<Rightarrow> string" where
  "pad2 n = [digit (n div 10), digit (n mod 10)]"

definition pad4 :: "int \<Rightarrow> string" where
  "pad4 n = [digit (n div 1000), digit (n div 100 mod 10), digit (n div 10 mod 10), digit (n mod 10)]"

lemma undigits_pad2: "0 \<le> n \<Longrightarrow> n < 100 \<Longrightarrow> undigits 0 (pad2 n) = Some n"
proof -
  assume n: "0 \<le> n" "n < 100"
  then have "n div 10 \<le> 9" "0 \<le> n div 10" by simp_all
  then show ?thesis using n by (simp add: pad2_def)
qed

lemma undigits_pad4: "0 \<le> n \<Longrightarrow> n < 10000 \<Longrightarrow> undigits 0 (pad4 n) = Some n"
proof -
  assume n: "0 \<le> n" "n < 10000"
  then have a: "n div 1000 \<le> 9" "0 \<le> n div 1000" by simp_all
  have q: "n div 100 div 10 = n div 1000" "n div 10 div 10 = n div 100"
    by (simp_all add: zdiv_zmult2_eq[symmetric])
  have b: "10 * (n div 1000) + n div 100 mod 10 = n div 100"
    "10 * (n div 100) + n div 10 mod 10 = n div 10" "10 * (n div 10) + n mod 10 = n"
    using mult_div_mod_eq[of 10 "n div 100"] mult_div_mod_eq[of 10 "n div 10"]
      mult_div_mod_eq[of 10 n] by (simp_all only: q)
  show ?thesis using n a by (simp add: pad4_def b)
qed

text \<open>\<open>t.UTC().Format(time.RFC3339)\<close>, for the years 1 to 9999.\<close>

definition format_RFC3339 :: "time \<Rightarrow> string" where
  "format_RFC3339 t =
     (let secs = t div 10 ^ 9; d = secs div 86400; clock = secs mod 86400;
          y = year_of d; (m, dm) = month_from y 1 (d - days_before_year y)
      in pad4 y @ ''-'' @ pad2 (int m) @ ''-'' @ pad2 (dm + 1) @ ''T'' @
         pad2 (clock div 3600) @ '':'' @ pad2 (clock div 60 mod 60) @ '':'' @ pad2 (clock mod 60) @ ''Z'')"

definition in_range :: "int \<Rightarrow> int \<Rightarrow> int option \<Rightarrow> int option" where
  "in_range lo hi r = (case r of None \<Rightarrow> None | Some n \<Rightarrow> if lo \<le> n \<and> n \<le> hi then Some n else None)"

lemma in_range_Some [simp]: "lo \<le> n \<Longrightarrow> n \<le> hi \<Longrightarrow> in_range lo hi (Some n) = Some n"
  by (simp add: in_range_def)

text \<open>The optional fraction: a dot and at least one digit; nine digits count.\<close>

definition parse_frac :: "string \<Rightarrow> int \<times> string" where
  "parse_frac s =
     (case s of
        c # rest \<Rightarrow>
          let ds = takeWhile (\<lambda>x. undigit x \<noteq> None) rest; ns = take 9 ds in
          if c = CHR ''.'' \<and> ds \<noteq> []
          then (the (undigits 0 ns) * 10 ^ (9 - length ns), drop (length ds) rest)
          else (0, s)
      | [] \<Rightarrow> (0, s))"

text \<open>The zone: \<open>Z\<close>, or a sign and \<open>hh:mm\<close>, in seconds east of UTC.\<close>

definition parse_zone :: "string \<Rightarrow> int option" where
  "parse_zone s =
     (if s = ''Z'' then Some 0
      else if length s = 6 \<and> (s ! 0 = CHR ''+'' \<or> s ! 0 = CHR ''-'') \<and> s ! 3 = CHR '':''
      then (case (in_range 0 23 (undigits 0 [s ! 1, s ! 2]), in_range 0 59 (undigits 0 [s ! 4, s ! 5])) of
              (Some hh, Some mm) \<Rightarrow>
                Some ((if s ! 0 = CHR ''-'' then -1 else 1) * (3600 * hh + 60 * mm))
            | _ \<Rightarrow> None)
      else None)"

definition date_time :: "int \<Rightarrow> int \<Rightarrow> int \<Rightarrow> int \<Rightarrow> int \<Rightarrow> int \<Rightarrow> time" where
  "date_time y m d hh mi ss =
     (86400 * (days_before_year y + days_before_month y (nat m) + (d - 1))
       + 3600 * hh + 60 * mi + ss) * 10 ^ 9"

text \<open>\<open>time.parseRFC3339\<close>, the strict path.\<close>

fun parse_strict :: "string \<Rightarrow> time option" where
  "parse_strict (y1 # y2 # y3 # y4 # c1 # m1 # m2 # c2 # d1 # d2 # c3 # h1 # h2 # c4 # i1 # i2 # c5 # s1 # s2 # rest) =
     (if c1 = CHR ''-'' \<and> c2 = CHR ''-'' \<and> c3 = CHR ''T'' \<and> c4 = CHR '':'' \<and> c5 = CHR '':''
      then case (undigits 0 [y1, y2, y3, y4], in_range 1 12 (undigits 0 [m1, m2])) of
             (Some y, Some m) \<Rightarrow>
               (case (in_range 1 (days_in y (nat m)) (undigits 0 [d1, d2]),
                      in_range 0 23 (undigits 0 [h1, h2]),
                      in_range 0 59 (undigits 0 [i1, i2]),
                      in_range 0 59 (undigits 0 [s1, s2])) of
                  (Some d, Some hh, Some mi, Some ss) \<Rightarrow>
                    (case parse_frac rest of (ns, rest') \<Rightarrow>
                       (case parse_zone rest' of
                          Some off \<Rightarrow> Some (date_time y m d hh mi ss + ns - off * 10 ^ 9)
                        | None \<Rightarrow> None))
                | _ \<Rightarrow> None)
           | _ \<Rightarrow> None
      else None)"
| "parse_strict _ = None"

text \<open>
  \<open>time.parse\<close> on the layout \<open>2006-01-02T15:04:05Z07:00\<close>, one layout element after the other:
  \<open>getnum\<close> reads one or two digits (exactly two when \<open>fixed\<close>), only the hour is not fixed; a
  fraction may follow the seconds though the layout has none; the day is checked against its month
  at the end.
\<close>

fun getnum :: "bool \<Rightarrow> string \<Rightarrow> (int \<times> string) option" where
  "getnum fixed [] = None"
| "getnum fixed (a # s) =
     (case undigit a of
        None \<Rightarrow> None
      | Some x \<Rightarrow>
          (case s of
             [] \<Rightarrow> if fixed then None else Some (x, s)
           | b # s' \<Rightarrow>
               (case undigit b of
                  None \<Rightarrow> if fixed then None else Some (x, s)
                | Some y \<Rightarrow> Some (10 * x + y, s'))))"

fun skip_char :: "char \<Rightarrow> string \<Rightarrow> string option" where
  "skip_char c [] = None"
| "skip_char c (x # s) = (if x = c then Some s else None)"

definition getnum_in :: "bool \<Rightarrow> int \<Rightarrow> int \<Rightarrow> string \<Rightarrow> (int \<times> string) option" where
  "getnum_in fixed lo hi s =
     Option.bind (getnum fixed s) (\<lambda>(n, s'). if lo \<le> n \<and> n \<le> hi then Some (n, s') else None)"

definition lenient_frac :: "string \<Rightarrow> int \<times> string" where
  "lenient_frac s =
     (case s of
        c # rest \<Rightarrow> if c = CHR '','' then (case parse_frac (CHR ''.'' # rest) of
                                              (ns, r) \<Rightarrow> if r = CHR ''.'' # rest then (0, s) else (ns, r))
                    else parse_frac s
      | [] \<Rightarrow> (0, s))"

definition lenient_zone :: "string \<Rightarrow> int option" where
  "lenient_zone s =
     (if s = ''Z'' then Some 0
      else if length s = 6 \<and> (s ! 0 = CHR ''+'' \<or> s ! 0 = CHR ''-'') \<and> s ! 3 = CHR '':''
      then (case (in_range 0 24 (undigits 0 [s ! 1, s ! 2]), in_range 0 60 (undigits 0 [s ! 4, s ! 5])) of
              (Some hh, Some mm) \<Rightarrow>
                Some ((if s ! 0 = CHR ''-'' then -1 else 1) * (3600 * hh + 60 * mm))
            | _ \<Rightarrow> None)
      else None)"

definition parse_clock :: "string \<Rightarrow> (int \<times> int \<times> int \<times> string) option" where
  "parse_clock s =
     Option.bind (getnum_in False 0 23 s) (\<lambda>(hh, s).
     Option.bind (skip_char CHR '':'' s) (\<lambda>s.
     Option.bind (getnum_in True 0 59 s) (\<lambda>(mi, s).
     Option.bind (skip_char CHR '':'' s) (\<lambda>s.
     Option.bind (getnum_in True 0 59 s) (\<lambda>(ss, s). Some (hh, mi, ss, s))))))"

definition parse_lenient :: "string \<Rightarrow> time option" where
  "parse_lenient s =
     (if length s < 4 then None else
      Option.bind (undigits 0 (take 4 s)) (\<lambda>y.
      Option.bind (skip_char CHR ''-'' (drop 4 s)) (\<lambda>s.
      Option.bind (getnum_in True 1 12 s) (\<lambda>(m, s).
      Option.bind (skip_char CHR ''-'' s) (\<lambda>s.
      Option.bind (getnum True s) (\<lambda>(d, s).
      Option.bind (skip_char CHR ''T'' s) (\<lambda>s.
      Option.bind (parse_clock s) (\<lambda>(hh, mi, ss, s).
      case lenient_frac s of (ns, s) \<Rightarrow>
      Option.bind (lenient_zone s) (\<lambda>off.
        if 1 \<le> d \<and> d \<le> days_in y (nat m)
        then Some (date_time y m d hh mi ss + ns - off * 10 ^ 9) else None)))))))))"

text \<open>\<open>time.Parse(time.RFC3339, s)\<close>.\<close>

definition parse_RFC3339 :: "string \<Rightarrow> time option" where
  "parse_RFC3339 s = (case parse_strict s of Some t \<Rightarrow> Some t | None \<Rightarrow> parse_lenient s)"

text \<open>The last representable year bounds the round trip.\<close>

definition year_10000 :: time where
  "year_10000 = days_before_year 10000 * 86400 * 10 ^ 9"

lemma year_of_le_9999:
  assumes "0 \<le> d" "d < days_before_year 10000"
  shows "year_of d \<le> 9999"
proof (rule ccontr)
  assume "\<not> ?thesis"
  then have "days_before_year 10000 \<le> days_before_year (year_of d)"
    by (intro days_before_year_mono) simp
  with year_of_spec[OF assms(1)] assms(2) show False by simp
qed

lemma int_div_less_mult: "0 < k \<Longrightarrow> a < b * k \<Longrightarrow> a div k < (b :: int)"
  using pos_imp_zdiv_neg_iff[of k "a + (- b) * k"] div_mult_self1[of k a "- b"] by simp

lemma clock_split: "3600 * (c div 3600) + 60 * (c div 60 mod 60) + c mod 60 = (c :: int)"
proof -
  have "c div 60 div 60 = c div 3600" by (simp add: zdiv_zmult2_eq[symmetric])
  then have "60 * (c div 3600) + c div 60 mod 60 = c div 60"
    using mult_div_mod_eq[of 60 "c div 60"] by simp
  moreover have "60 * (c div 60) + c mod 60 = c" by simp
  ultimately show ?thesis by linarith
qed

lemma parse_strict_Z:
  assumes "undigits 0 [y1, y2, y3, y4] = Some y"
    and "undigits 0 [m1, m2] = Some m" "1 \<le> m" "m \<le> 12"
    and "undigits 0 [d1, d2] = Some d" "1 \<le> d" "d \<le> days_in y (nat m)"
    and "undigits 0 [h1, h2] = Some hh" "0 \<le> hh" "hh \<le> 23"
    and "undigits 0 [i1, i2] = Some mi" "0 \<le> mi" "mi \<le> 59"
    and "undigits 0 [s1, s2] = Some ss" "0 \<le> ss" "ss \<le> 59"
  shows "parse_strict (y1 # y2 # y3 # y4 # CHR ''-'' # m1 # m2 # CHR ''-'' # d1 # d2 # CHR ''T'' #
      h1 # h2 # CHR '':'' # i1 # i2 # CHR '':'' # s1 # s2 # ''Z'') = Some (date_time y m d hh mi ss)"
proof -
  have "parse_frac ''Z'' = (0, ''Z'')" "parse_zone ''Z'' = Some 0"
    by (simp_all add: parse_frac_def parse_zone_def)
  then show ?thesis
    using assms by (simp only: parse_strict.simps in_range_Some) simp
qed

lemma parse_format_RFC3339:
  assumes "0 \<le> t" "t < year_10000"
  shows "parse_RFC3339 (format_RFC3339 t) = Some (t - t mod 10 ^ 9)"
proof -
  define secs where "secs = t div 10 ^ 9"
  define d where "d = secs div 86400"
  define clock where "clock = secs mod 86400"
  define y where "y = year_of d"
  obtain m dm where md: "month_from y 1 (d - days_before_year y) = (m, dm)" by fastforce
  have secs: "0 \<le> secs" using assms by (simp add: secs_def pos_imp_zdiv_nonneg_iff)
  then have d0: "0 \<le> d" by (simp add: d_def pos_imp_zdiv_nonneg_iff)
  have "secs < days_before_year 10000 * 86400"
    using assms(2) unfolding secs_def year_10000_def by (simp add: int_div_less_mult)
  then have "d < days_before_year 10000"
    unfolding d_def by (simp add: int_div_less_mult)
  with d0 have y: "1 \<le> y" "y \<le> 9999"
    using year_of_le_9999 year_of_spec unfolding y_def by blast+
  have "days_before_month y 1 = 0" by (simp add: days_before_month_def)
  with month_from_spec[OF _ _ _ _ md] year_of_spec[OF d0]
  have m: "1 \<le> m" "m \<le> 12" "0 \<le> dm" "dm < days_in y m"
    and dm: "days_before_month y m + dm = d - days_before_year y"
    unfolding y_def by auto
  have dm31: "dm + 1 < 100" using m(4) by (simp add: days_in_def split: if_splits)
  have c: "0 \<le> clock" "clock < 86400" by (simp_all add: clock_def)
  then have c3: "0 \<le> clock div 3600" "clock div 3600 \<le> 23" by simp_all
  have c2: "0 \<le> clock div 60 mod 60" "clock div 60 mod 60 < 60" "0 \<le> clock mod 60" "clock mod 60 < 60"
    by simp_all
  have fmt: "format_RFC3339 t = pad4 y @ ''-'' @ pad2 (int m) @ ''-'' @ pad2 (dm + 1) @ ''T'' @
         pad2 (clock div 3600) @ '':'' @ pad2 (clock div 60 mod 60) @ '':'' @ pad2 (clock mod 60) @ ''Z''"
    using md by (simp add: format_RFC3339_def Let_def secs_def d_def clock_def y_def)
  have u4: "undigits 0 (pad4 y) = Some y" using y by (intro undigits_pad4) simp_all
  have u2: "undigits 0 (pad2 (int m)) = Some (int m)" "undigits 0 (pad2 (dm + 1)) = Some (dm + 1)"
    "undigits 0 (pad2 (clock div 3600)) = Some (clock div 3600)"
    "undigits 0 (pad2 (clock div 60 mod 60)) = Some (clock div 60 mod 60)"
    "undigits 0 (pad2 (clock mod 60)) = Some (clock mod 60)"
    using m dm31 c3 c2 by (auto intro!: undigits_pad2)
  have r: "1 \<le> int m" "int m \<le> 12" "1 \<le> dm + 1" "dm + 1 \<le> days_in y (nat (int m))"
    "clock div 60 mod 60 \<le> 59" "clock mod 60 \<le> 59"
    using m c2 by simp_all
  have "parse_strict (format_RFC3339 t)
      = Some (date_time y (int m) (dm + 1) (clock div 3600) (clock div 60 mod 60) (clock mod 60))"
    unfolding fmt pad4_def pad2_def append.simps
    by (rule parse_strict_Z[OF u4[unfolded pad4_def] u2(1)[unfolded pad2_def] r(1,2)
          u2(2)[unfolded pad2_def] r(3,4) u2(3)[unfolded pad2_def] c3
          u2(4)[unfolded pad2_def] c2(1) r(5) u2(5)[unfolded pad2_def] c2(3) r(6)])
  also have "\<dots> = Some (secs * 10 ^ 9)"
  proof -
    have "86400 * d + clock = secs" by (simp add: d_def clock_def)
    moreover have "days_before_year y + days_before_month y m + dm = d" using dm by simp
    ultimately have "86400 * (days_before_year y + days_before_month y m + dm)
        + (3600 * (clock div 3600) + 60 * (clock div 60 mod 60) + clock mod 60) = secs"
      unfolding clock_split by simp
    then show ?thesis by (simp only: date_time_def nat_int add_diff_cancel_right' add.assoc)
  qed
  also have "secs * 10 ^ 9 = t - t mod 10 ^ 9"
    by (simp add: secs_def minus_mod_eq_div_mult)
  finally show ?thesis by (simp add: parse_RFC3339_def)
qed

text \<open>Start times only the fallback reads, and one that neither parser reads.\<close>

lemma parse_RFC3339_Nil [simp]: "parse_RFC3339 [] = None"
  by code_simp

lemma parse_RFC3339_examples:
  "parse_RFC3339 ''2025-01-02T03:04:05Z'' = parse_RFC3339 ''2025-01-02T3:04:05Z''"
  "parse_RFC3339 ''2025-01-02T03:04:05,5Z'' = parse_RFC3339 ''2025-01-02T03:04:05.5Z''"
  "parse_RFC3339 ''2025-01-02T03:04:05+24:00'' = parse_RFC3339 ''2025-01-01T03:04:05Z''"
  "parse_RFC3339 ''2025-01-02 03:04:05Z'' = None"
  by code_simp+

end
