(* ===== verification/Objects.thy ===== *)
theory Objects
  imports Prelude Go_Time
begin

text \<open>
  The Kubernetes and Kueue API objects, with the fields the controllers read, write or strip
  (packages \<open>k8s.io/api/core/v1\<close> and \<open>sigs.k8s.io/kueue/apis/kueue/v1beta2\<close> as used under src/pkg).
  A field the code never touches is summarised by a \<open>_rest\<close> field, so that dropping it is visible.
  Labels and annotations are finite Go maps of strings. A \<open>resource.Quantity\<close> is its exact value
  in nano-units, the finest scale a quantity keeps, so \<open>Add\<close>, \<open>Sub\<close>, \<open>Cmp\<close>, \<open>Sign\<close> and \<open>IsZero\<close>
  are integer arithmetic. An \<open>int32\<close> field is a 32-bit word read with \<open>sint\<close>.
\<close>

subsection \<open>Names\<close>

datatype namespaced_name = NamespacedName (Namespace: string) (Name: string)

instantiation namespaced_name :: linorder
begin

definition less_eq_namespaced_name :: "namespaced_name \<Rightarrow> namespaced_name \<Rightarrow> bool" where
  "a \<le> b \<longleftrightarrow> Namespace a < Namespace b \<or> (Namespace a = Namespace b \<and> Name a \<le> Name b)"

definition less_namespaced_name :: "namespaced_name \<Rightarrow> namespaced_name \<Rightarrow> bool" where
  "a < b \<longleftrightarrow> Namespace a < Namespace b \<or> (Namespace a = Namespace b \<and> Name a < Name b)"

instance
  by intro_classes
    (auto simp: less_eq_namespaced_name_def less_namespaced_name_def namespaced_name.expand)

end

text \<open>A key as the API server admits it: no slash, no empty part.\<close>

definition wf_key :: "namespaced_name \<Rightarrow> bool" where
  "wf_key k \<longleftrightarrow> Namespace k \<noteq> [] \<and> Name k \<noteq> [] \<and> CHR ''/'' \<notin> set (Namespace k)"

type_synonym quantity = int
type_synonym smap = "string \<rightharpoonup> string"
type_synonym resources = "string \<rightharpoonup> quantity"

definition quantity_unit :: quantity where
  "quantity_unit = 10 ^ 9"

text \<open>\<open>Quantity.Value\<close>: the value in whole units, rounded up.\<close>

definition quantity_Value :: "quantity \<Rightarrow> int" where
  "quantity_Value q = - ((- q) div quantity_unit)"

subsection \<open>Conditions\<close>

datatype condition_status = ConditionTrue | ConditionFalse | ConditionUnknown

record condition =
  cond_Type :: string
  cond_Status :: condition_status
  cond_Reason :: string
  cond_Message :: string
  cond_LastTransitionTime :: time

text \<open>\<open>meta.FindStatusCondition\<close>: the condition of the given type, if there is one.\<close>

definition FindStatusCondition :: "condition list \<Rightarrow> string \<Rightarrow> condition option" where
  "FindStatusCondition conds ty = find (\<lambda>c. cond_Type c = ty) conds"

definition IsStatusConditionTrue :: "condition list \<Rightarrow> string \<Rightarrow> bool" where
  "IsStatusConditionTrue conds ty =
     (case FindStatusCondition conds ty of None \<Rightarrow> False | Some c \<Rightarrow> cond_Status c = ConditionTrue)"

definition WorkloadQuotaReserved :: string where "WorkloadQuotaReserved = ''QuotaReserved''"
definition WorkloadAdmitted :: string where "WorkloadAdmitted = ''Admitted''"
definition WorkloadFinished :: string where "WorkloadFinished = ''Finished''"
definition WorkloadEvicted :: string where "WorkloadEvicted = ''Evicted''"
definition WorkloadDeactivated :: string where "WorkloadDeactivated = ''Deactivated''"
definition NodeReady :: string where "NodeReady = ''Ready''"
definition LabelHostname :: string where "LabelHostname = ''kubernetes.io/hostname''"

lemmas condition_types =
  WorkloadQuotaReserved_def WorkloadAdmitted_def WorkloadFinished_def WorkloadEvicted_def
  WorkloadDeactivated_def NodeReady_def

text \<open>Annotation and object names the Kueue API fixes.\<close>

definition WorkloadAnnotation :: string where "WorkloadAnnotation = ''kueue.x-k8s.io/workload''"
definition WorkloadPriorityClassKind :: string where
  "WorkloadPriorityClassKind = ''WorkloadPriorityClass''"
definition WorkloadPriorityClassGroup :: string where
  "WorkloadPriorityClassGroup = ''kueue.x-k8s.io''"

subsection \<open>Nodes\<close>

datatype taint_effect = EffectNone | NoSchedule | PreferNoSchedule | NoExecute

record taint =
  taint_Key :: string
  taint_Value :: string
  taint_Effect :: taint_effect
  taint_TimeAdded :: "time option"

record node =
  node_Name :: string
  node_ResourceVersion :: nat
  node_Labels :: smap
  node_Annotations :: smap
  node_ManagedFields :: string
  node_Taints :: "taint list"
  node_Unschedulable :: bool
  node_Allocatable :: resources
  node_Conditions :: "condition list"
  node_Images :: "string list"

subsection \<open>Pods\<close>

datatype pod_phase = PodPending | PodRunning | PodSucceeded | PodFailed | PodUnknown

record container =
  ctr_Requests :: resources
  ctr_Limits :: resources
  ctr_rest :: string

datatype toleration_op = OpEmpty | TolerationOpExists | TolerationOpEqual | OpOther string

record toleration =
  tol_Key :: string
  tol_Operator :: toleration_op
  tol_Value :: string
  tol_Effect :: taint_effect

record pod =
  pod_Key :: namespaced_name
  pod_Labels :: smap
  pod_Annotations :: smap
  pod_ManagedFields :: string
  pod_OwnerReferences :: "string list"
  pod_Finalizers :: "string list"
  pod_DeletionTimestamp :: "time option"
  pod_NodeName :: string
  pod_Containers :: "container list"
  pod_spec_rest :: string
  pod_Phase :: pod_phase
  pod_status_rest :: string

definition pod_terminal :: "pod \<Rightarrow> bool" where
  "pod_terminal p \<longleftrightarrow> pod_Phase p = PodSucceeded \<or> pod_Phase p = PodFailed"

subsection \<open>Workloads\<close>

record topology_request =
  tr_Required :: "string option"
  tr_PodSetSliceRequiredTopology :: "string option"
  tr_PodSetSliceSize :: "int32 option"

record pod_set =
  ps_Name :: string
  ps_Count :: int32
  ps_TopologyRequest :: "topology_request option"
  ps_Containers :: "container list"
  ps_Tolerations :: "toleration list"
  ps_template_rest :: string

text \<open>
  A topology assignment is stored compressed, one slice for a run of domains. Its decoding belongs to
  Kueue (\<open>pkg/util/tas\<close>) and is a parameter of the model.
\<close>

datatype level_values =
    UniversalValue string
  | IndividualValues "string option" "string option" "string list"

datatype pod_counts = UniversalCount int32 | IndividualCounts "int32 list"

record ta_slice =
  sl_DomainCount :: int32
  sl_ValuesPerLevel :: "level_values list"
  sl_PodCounts :: pod_counts

record topology_assignment =
  ta_Levels :: "string list"
  ta_Slices :: "ta_slice list"

record pod_set_assignment =
  psa_Name :: string
  psa_Count :: "int32 option"
  psa_TopologyAssignment :: "topology_assignment option"

record admission =
  adm_ClusterQueue :: string
  adm_PodSetAssignments :: "pod_set_assignment list"

record priority_class_ref =
  pcr_Group :: string
  pcr_Kind :: string
  pcr_Name :: string

record workload =
  wl_Key :: namespaced_name
  wl_UID :: string
  wl_CreationTimestamp :: time
  wl_Annotations :: smap
  wl_ManagedFields :: string
  wl_OwnerReferences :: "string list"
  wl_Active :: "bool option"
  wl_QueueName :: string
  wl_Priority :: "int32 option"
  wl_PriorityClassRef :: "priority_class_ref option"
  wl_PodSets :: "pod_set list"
  wl_Conditions :: "condition list"
  wl_Admission :: "admission option"

text \<open>\<open>wl.Spec.Active != nil && !*wl.Spec.Active\<close>\<close>

definition deactivated :: "workload \<Rightarrow> bool" where
  "deactivated wl \<longleftrightarrow> wl_Active wl = Some False"

subsection \<open>Queues, flavors, topologies\<close>

record flavor_quotas =
  fq_Name :: string
  fq_Resources :: "(string \<times> quantity) list"

record cluster_queue =
  cq_Name :: string
  cq_Labels :: smap
  cq_ResourceGroups :: "flavor_quotas list list"

record local_queue =
  lq_Key :: namespaced_name
  lq_ClusterQueue :: string

record resource_flavor =
  rf_Name :: string
  rf_TopologyName :: "string option"

record topology =
  topo_Name :: string
  topo_Levels :: "string list"

subsection \<open>Code of other modules\<close>

text \<open>
  What the controllers call in Kueue and client-go. \<open>InternalSeqFrom\<close>, \<open>HasTASAssignmentOnNode\<close> and
  \<open>IsLowestLevelHostname\<close> are in \<open>kueue/pkg/util/tas\<close>, \<open>GetQueueOrderTimestamp\<close> is in
  \<open>kueue/pkg/workload\<close>, \<open>RetrySteps\<close> is the number of attempts of client-go's
  \<open>retry.DefaultRetry\<close>. A decoded domain is its list of level values and its pod count.
\<close>

record tas_domain =
  dom_Values :: "string list"
  dom_Count :: int32

record kueue_lib =
  InternalSeqFrom :: "topology_assignment \<Rightarrow> tas_domain list"
  HasTASAssignmentOnNode :: "admission \<Rightarrow> string \<Rightarrow> bool"
  IsLowestLevelHostname :: "string list \<Rightarrow> bool"
  GetQueueOrderTimestamp :: "workload \<Rightarrow> time"
  RetrySteps :: nat

text \<open>
  The documented shape of a decoded assignment: every domain has one value per level. The code indexes
  into the values on the strength of it.
\<close>

definition decodes_levels :: "kueue_lib \<Rightarrow> topology_assignment \<Rightarrow> bool" where
  "decodes_levels L ta \<longleftrightarrow>
     (\<forall>d \<in> set (InternalSeqFrom L ta). length (dom_Values d) = length (ta_Levels ta))"

end
