(* ===== verification/Float64.thy ===== *)
theory Float64
  imports Prelude Complex_Main
begin

text \<open>
  Go's \<open>float64\<close>: a value is the rational number a finite double denotes, and every arithmetic
  operation rounds the exact result to 53 significant bits, to nearest with ties to even, as the
  language prescribes for IEEE 754. The exponent is not bounded, so overflow to infinity and
  subnormal numbers are outside the model; the disruption costs stay far from both.

  The laws the cost formula needs of rounding are the locale \<open>rounding\<close>, interpreted on \<open>fl\<close>.
\<close>

text \<open>The binary exponent of a positive number: \<open>2 ^ e \<le> q < 2 ^ (e + 1)\<close>.\<close>

function expo :: "rat \<Rightarrow> int" where
  "expo q = (if q \<le> 0 then 0 else if q < 1 then expo (2 * q) - 1
             else if 2 \<le> q then expo (q / 2) + 1 else 0)"
  by pat_completeness auto
termination
proof (relation "measure (\<lambda>q. if q < 1 then nat \<lceil>1 / q\<rceil> else nat \<lfloor>q\<rfloor> - 1)", goal_cases)
  case (2 q)
  then have q: "0 < q" "q < 1" by simp_all
  show ?case
  proof (cases "2 * q < 1")
    case True
    with q have h: "2 < 1 / q" by (simp add: field_simps)
    have "1 / q / 2 + 1 < 1 / q" using h by simp
    then have "\<lceil>1 / q / 2\<rceil> < \<lceil>1 / q\<rceil>" by linarith
    moreover have "1 / (2 * q) = 1 / q / 2" by simp
    ultimately have "\<lceil>1 / (2 * q)\<rceil> < \<lceil>1 / q\<rceil>" by (simp only:)
    moreover have "0 < \<lceil>1 / q\<rceil>" using q by simp
    ultimately show ?thesis using q True by simp
  next
    case False
    with q have "\<lfloor>2 * q\<rfloor> = 1" by (intro floor_unique) simp_all
    with False q show ?thesis by simp
  qed
next
  case (3 q)
  then have "1 \<le> q / 2" by simp
  moreover have "\<lfloor>q / 2\<rfloor> < \<lfloor>q\<rfloor>"
  proof -
    have "q / 2 + 1 \<le> q" using 3 by simp
    then show ?thesis by linarith
  qed
  moreover have "1 \<le> \<lfloor>q / 2\<rfloor>" using \<open>1 \<le> q / 2\<close> by linarith
  ultimately have "nat \<lfloor>q / 2\<rfloor> - 1 < nat \<lfloor>q\<rfloor> - 1" by linarith
  with \<open>1 \<le> q / 2\<close> 3 show ?case by simp
qed simp

declare expo.simps [simp del]

lemma expo_bounds: "0 < q \<Longrightarrow> 2 powi expo q \<le> q \<and> q < 2 powi (expo q + 1)"
proof (induction q rule: expo.induct)
  case (1 q)
  consider (small) "q < 1" | (big) "2 \<le> q" | (unit) "1 \<le> q" "q < 2" by linarith
  then show ?case
  proof cases
    case small
    with 1 have "2 powi expo (2 * q) \<le> 2 * q \<and> 2 * q < 2 powi (expo (2 * q) + 1)" by simp
    moreover have "expo q = expo (2 * q) - 1" using small 1 by (simp add: expo.simps[of q])
    moreover have "(2::rat) powi expo (2 * q) = 2 * 2 powi expo q"
      "(2::rat) powi (expo (2 * q) + 1) = 2 * 2 powi (expo q + 1)"
      using calculation(2) by (simp_all add: power_int_add power_int_diff)
    ultimately show ?thesis by simp
  next
    case big
    with 1 have "2 powi expo (q / 2) \<le> q / 2 \<and> q / 2 < 2 powi (expo (q / 2) + 1)" by simp
    moreover have "expo q = expo (q / 2) + 1" using big by (simp add: expo.simps[of q])
    moreover have "(2::rat) powi expo q = 2 * 2 powi expo (q / 2)"
      "(2::rat) powi (expo q + 1) = 2 * 2 powi (expo (q / 2) + 1)"
      using calculation(2) by (simp_all add: power_int_add)
    ultimately show ?thesis by simp
  next
    case unit
    then have "expo q = 0" by (simp add: expo.simps[of q])
    with unit show ?thesis by simp
  qed
qed

definition round_even :: "rat \<Rightarrow> int" where
  "round_even x =
     (let f = \<lfloor>x\<rfloor>; r = x - of_int f in
      if r < 1 / 2 then f else if 1 / 2 < r then f + 1 else if even f then f else f + 1)"

lemma round_even_between: "\<lfloor>x\<rfloor> \<le> round_even x \<and> round_even x \<le> \<lfloor>x\<rfloor> + 1"
  by (simp add: round_even_def Let_def)

lemma round_even_of_int [simp]: "round_even (of_int n) = n"
  by (simp add: round_even_def)

lemma round_even_mono: assumes "x \<le> y" shows "round_even x \<le> round_even y"
proof (cases "\<lfloor>x\<rfloor> = \<lfloor>y\<rfloor>")
  case True
  with assms show ?thesis by (auto simp: round_even_def Let_def)
next
  case False
  then have "\<lfloor>x\<rfloor> + 1 \<le> \<lfloor>y\<rfloor>" using floor_mono[OF assms] by simp
  then show ?thesis using round_even_between[of x] round_even_between[of y] by linarith
qed

definition round_pos :: "rat \<Rightarrow> rat" where
  "round_pos q = (let u = 2 powi (expo q - 52) in of_int (round_even (q / u)) * u)"

text \<open>\<open>fl q\<close> is the double nearest to \<open>q\<close>.\<close>

definition fl :: "rat \<Rightarrow> rat" where
  "fl q = (if q = 0 then 0 else if 0 < q then round_pos q else - round_pos (- q))"

definition fadd :: "rat \<Rightarrow> rat \<Rightarrow> rat" where "fadd a b = fl (a + b)"
definition fmul :: "rat \<Rightarrow> rat \<Rightarrow> rat" where "fmul a b = fl (a * b)"
definition fdiv :: "rat \<Rightarrow> rat \<Rightarrow> rat" where "fdiv a b = fl (a / b)"

lemmas float_ops = fadd_def fmul_def fdiv_def

lemma round_pos_bounds:
  assumes "0 < q"
  shows "2 powi expo q \<le> round_pos q \<and> round_pos q \<le> 2 powi (expo q + 1)"
proof -
  define u :: rat where "u = 2 powi (expo q - 52)"
  have u: "0 < u" by (simp add: u_def)
  have e: "2 powi expo q = 2 ^ 52 * u" "2 powi (expo q + 1) = 2 ^ 53 * u"
    by (simp_all add: u_def power_int_diff power_int_add)
  have "of_int (2 ^ 52) \<le> q / u" "q / u \<le> of_int (2 ^ 53)"
    using expo_bounds[OF assms] u unfolding e
    by (simp_all add: pos_le_divide_eq pos_divide_le_eq)
  from this[THEN round_even_mono] have "2 ^ 52 \<le> round_even (q / u)" "round_even (q / u) \<le> 2 ^ 53"
    by (simp_all only: round_even_of_int)
  then have "of_int (2 ^ 52) \<le> (of_int (round_even (q / u)) :: rat)"
    "(of_int (round_even (q / u)) :: rat) \<le> of_int (2 ^ 53)"
    by (simp_all only: of_int_le_iff)
  then show ?thesis using u by (simp add: round_pos_def e flip: u_def)
qed

lemma round_pos_mono:
  assumes "0 < p" "p \<le> q"
  shows "round_pos p \<le> round_pos q"
proof -
  have q: "0 < q" using assms by simp
  have "expo p \<le> expo q"
  proof (rule ccontr)
    assume "\<not> ?thesis"
    then have "(2::rat) powi (expo q + 1) \<le> 2 powi expo p" by (intro power_int_increasing) simp_all
    with expo_bounds[OF assms(1)] expo_bounds[OF q] assms(2) show False by simp
  qed
  then consider "expo p = expo q" | "expo p + 1 \<le> expo q" by linarith
  then show ?thesis
  proof cases
    case 1
    define u :: rat where "u = 2 powi (expo q - 52)"
    have "0 < u" by (simp add: u_def)
    then have "round_even (p / u) \<le> round_even (q / u)"
      using assms(2) by (intro round_even_mono) (simp add: divide_right_mono)
    then have "(of_int (round_even (p / u)) :: rat) \<le> of_int (round_even (q / u))"
      by (simp only: of_int_le_iff)
    with \<open>0 < u\<close> show ?thesis by (simp add: round_pos_def 1 flip: u_def)
  next
    case 2
    then have "(2::rat) powi (expo p + 1) \<le> 2 powi expo q" by (intro power_int_increasing) simp_all
    with round_pos_bounds[OF assms(1)] round_pos_bounds[OF q] show ?thesis by simp
  qed
qed

lemma round_pos_gt_0: "0 < q \<Longrightarrow> 0 < round_pos q"
  using round_pos_bounds[of q] by (meson less_le_trans zero_less_numeral zero_less_power_int)

lemma fl_mono: assumes "p \<le> q" shows "fl p \<le> fl q"
proof -
  consider "0 < p" | "p = 0" | "p < 0" "0 \<le> q" | "p < 0" "q < 0" by linarith
  then show ?thesis
  proof cases
    case 1 then show ?thesis using assms round_pos_mono by (simp add: fl_def)
  next
    case 2 then show ?thesis using assms round_pos_gt_0[of q] by (auto simp: fl_def)
  next
    case 3
    then show ?thesis using round_pos_gt_0[of q] round_pos_gt_0[of "- p"] by (auto simp: fl_def)
  next
    case 4 then show ?thesis using assms round_pos_mono[of "- q" "- p"] by (simp add: fl_def)
  qed
qed

lemma fl_0 [simp]: "fl 0 = 0"
  by (simp add: fl_def)

lemma fl_1 [simp]: "fl 1 = 1"
proof -
  have "expo 1 = 0" by (simp add: expo.simps[of 1])
  then have "round_pos 1 = of_int (round_even (of_int (2 ^ 52))) / 2 ^ 52"
    by (simp add: round_pos_def power_int_minus)
  then show ?thesis by (simp only: round_even_of_int fl_def) simp
qed

text \<open>A double rounds to itself, and so does every integer below \<open>2 ^ 53\<close>.\<close>

lemma expo_unique:
  assumes "2 powi a \<le> q" "q < 2 powi (a + 1)"
  shows "expo q = a"
proof -
  have "0 < q" using assms(1) by (meson less_le_trans zero_less_numeral zero_less_power_int)
  note b = expo_bounds[OF this]
  have "\<not> a + 1 \<le> expo q"
  proof
    assume "a + 1 \<le> expo q"
    then have "(2::rat) powi (a + 1) \<le> 2 powi expo q" by (intro power_int_increasing) simp_all
    with assms b show False by simp
  qed
  moreover have "\<not> expo q + 1 \<le> a"
  proof
    assume "expo q + 1 \<le> a"
    then have "(2::rat) powi (expo q + 1) \<le> 2 powi a" by (intro power_int_increasing) simp_all
    with assms b show False by simp
  qed
  ultimately show ?thesis by simp
qed

lemma round_pos_scaled:
  assumes "2 ^ 52 \<le> k" "k < 2 ^ 53"
  shows "round_pos (of_int k * 2 powi (a - 52)) = of_int k * 2 powi (a - 52)"
proof -
  define u :: rat where "u = 2 powi (a - 52)"
  have u: "0 < u" by (simp add: u_def)
  have e: "2 powi a = 2 ^ 52 * u" "2 powi (a + 1) = 2 ^ 53 * u"
    by (simp_all add: u_def power_int_diff power_int_add)
  have k: "(2 ^ 52 :: rat) \<le> of_int k" "of_int k < (2 ^ 53 :: rat)"
  proof -
    have "of_int (2 ^ 52) \<le> (of_int k :: rat)" using assms(1) by (simp only: of_int_le_iff)
    then show "(2 ^ 52 :: rat) \<le> of_int k" by simp
    have "of_int k < (of_int (2 ^ 53) :: rat)" using assms(2) by (simp only: of_int_less_iff)
    then show "of_int k < (2 ^ 53 :: rat)" by simp
  qed
  have "expo (of_int k * u) = a"
    by (rule expo_unique) (use k u in \<open>simp_all add: e mult_le_cancel_right_pos\<close>)
  then show ?thesis using u by (simp add: round_pos_def flip: u_def)
qed

lemma round_pos_idem: assumes "0 < q" shows "round_pos (round_pos q) = round_pos q"
proof -
  define a where "a = expo q"
  define u :: rat where "u = 2 powi (a - 52)"
  define k where "k = round_even (q / u)"
  have u: "0 < u" by (simp add: u_def)
  have r: "round_pos q = of_int k * u" by (simp add: round_pos_def k_def u_def a_def Let_def)
  have e: "2 powi a = 2 ^ 52 * u" "2 powi (a + 1) = 2 ^ 53 * u"
    by (simp_all add: u_def power_int_diff power_int_add)
  have "2 ^ 52 * u \<le> of_int k * u" "of_int k * u \<le> 2 ^ 53 * u"
    using round_pos_bounds[OF assms] unfolding r e[symmetric] a_def by simp_all
  then have "(2 ^ 52 :: rat) \<le> of_int k" "of_int k \<le> (2 ^ 53 :: rat)" using u by simp_all
  then have k: "2 ^ 52 \<le> k" "k \<le> 2 ^ 53"
    by (metis of_int_le_iff of_int_numeral of_int_power)+
  show ?thesis
  proof (cases "k = 2 ^ 53")
    case True
    have "round_pos (of_int (2 ^ 52) * 2 powi (a + 1 - 52)) = of_int (2 ^ 52) * 2 powi (a + 1 - 52)"
      by (rule round_pos_scaled) simp_all
    moreover have "of_int (2 ^ 52) * 2 powi (a + 1 - 52) = round_pos q"
      by (simp add: r True u_def power_int_add power_int_diff)
    ultimately show ?thesis by simp
  next
    case False
    with k round_pos_scaled[of k a] show ?thesis by (simp add: r u_def)
  qed
qed

lemma fl_idem [simp]: "fl (fl q) = fl q"
proof (cases "0 < q")
  case True
  then show ?thesis using round_pos_gt_0[of q] by (simp add: fl_def round_pos_idem)
next
  case False
  show ?thesis
  proof (cases "q = 0")
    case False
    with \<open>\<not> 0 < q\<close> have "0 < - q" by simp
    then show ?thesis using round_pos_gt_0[of "- q"] round_pos_idem[of "- q"] by (simp add: fl_def)
  qed simp
qed

lemma fl_of_int:
  assumes "\<bar>n\<bar> < 2 ^ 53"
  shows "fl (of_int n) = of_int n"
proof -
  have pos: "round_pos (of_int m) = of_int m" if m: "0 < m" "m < 2 ^ 53" for m
  proof -
    define e where "e = expo (of_int m)"
    have b: "(2::rat) powi e \<le> of_int m" "of_int m < (2::rat) powi (e + 1)"
      using expo_bounds[of "of_int m"] m by (simp_all add: e_def)
    have "e \<le> 52"
    proof (rule ccontr)
      assume "\<not> ?thesis"
      then have "(2::rat) powi 53 \<le> 2 powi e" by (intro power_int_increasing) simp_all
      moreover have "of_int m < (of_int (2 ^ 53) :: rat)" using m(2) by (simp only: of_int_less_iff)
      ultimately show False using b by simp
    qed
    moreover have "0 \<le> e"
    proof (rule ccontr)
      assume "\<not> ?thesis"
      then have "(2::rat) powi (e + 1) \<le> 2 powi 0" by (intro power_int_increasing) simp_all
      with b m have "(of_int m :: rat) < 1" by simp
      with m show False by simp
    qed
    ultimately obtain j where j: "52 - e = int j" by (metis diff_ge_0_iff_ge nonneg_int_cases)
    have u: "(2::rat) powi (e - 52) = 1 / 2 ^ j"
    proof -
      have "e - 52 = - int j" using j by simp
      then have "(2::rat) powi (e - 52) = 2 powi (- int j)" by (simp only:)
      also have "\<dots> = inverse (2 ^ j)" by (simp add: power_int_minus)
      finally show ?thesis by (simp add: inverse_eq_divide)
    qed
    have "(of_int m :: rat) / (1 / 2 ^ j) = of_int (m * 2 ^ j)" by simp
    then have "round_pos (of_int m) = of_int (m * 2 ^ j) * (1 / 2 ^ j)"
      unfolding round_pos_def Let_def e_def[symmetric] u by (simp only: round_even_of_int)
    then show ?thesis by simp
  qed
  show ?thesis
    using pos[of n] pos[of "- n"] assms by (auto simp: fl_def)
qed

text \<open>Halving a double is exact, so dyadic rationals with a short numerator are doubles.\<close>

lemma expo_half: assumes "0 < q" shows "expo (q / 2) = expo q - 1"
  by (rule expo_unique) (use expo_bounds[OF assms] in \<open>simp_all add: power_int_diff power_int_add\<close>)

lemma fl_half: "fl (q / 2) = fl q / 2"
proof -
  have pos: "round_pos (p / 2) = round_pos p / 2" if "0 < p" for p
  proof -
    define u :: rat where "u = 2 powi (expo p - 52)"
    have h: "2 powi (expo p - 1 - 52) = u / 2" by (simp add: u_def power_int_diff)
    have "p / 2 / (u / 2) = p / u" by simp
    then have "round_pos (p / 2) = of_int (round_even (p / u)) * (u / 2)"
      unfolding round_pos_def Let_def expo_half[OF that] h by simp
    then show ?thesis by (simp add: round_pos_def Let_def u_def)
  qed
  show ?thesis using pos[of q] pos[of "- q"] by (auto simp: fl_def)
qed

lemma fl_dyadic: "\<bar>n\<bar> < 2 ^ 53 \<Longrightarrow> fl (of_int n / 2 ^ k) = of_int n / 2 ^ k"
proof (induction k)
  case (Suc k)
  have "of_int n / 2 ^ Suc k = of_int n / 2 ^ k / (2 :: rat)" by simp
  with Suc show ?case by (simp only: fl_half)
qed (simp add: fl_of_int)

text \<open>Evaluation: short dyadic rationals need no search for the exponent.\<close>

definition fl_slow :: "rat \<Rightarrow> rat" where
  "fl_slow q = (if q = 0 then 0 else if 0 < q then round_pos q else - round_pos (- q))"

lemma fl_code [code]:
  "fl q = (case quotient_of q of (n, d) \<Rightarrow>
     if \<bar>n\<bar> < 2 ^ 53 \<and> (d = 1 \<or> d = 2 \<or> d = 4 \<or> d = 8 \<or> d = 16) then q else fl_slow q)"
proof -
  obtain n d where q: "quotient_of q = (n, d)" by (rule prod.exhaust)
  then have "q = of_int n / of_int d" by (rule quotient_of_div)
  moreover have "fl (of_int n / of_int d) = of_int n / of_int d"
    if "\<bar>n\<bar> < 2 ^ 53" "d = 1 \<or> d = 2 \<or> d = 4 \<or> d = 8 \<or> d = 16"
    using that(2) fl_dyadic[OF that(1), of 0] fl_dyadic[OF that(1), of 1] fl_dyadic[OF that(1), of 2]
      fl_dyadic[OF that(1), of 3] fl_dyadic[OF that(1), of 4] by auto
  moreover have "fl q = fl_slow q" by (simp add: fl_def fl_slow_def)
  ultimately show ?thesis using q by simp
qed

subsection \<open>The laws of rounding\<close>

locale rounding =
  fixes rnd :: "rat \<Rightarrow> rat"
  assumes rnd_mono: "p \<le> q \<Longrightarrow> rnd p \<le> rnd q"
    and rnd_0: "rnd 0 = 0"
    and rnd_1: "rnd 1 = 1"
    and rnd_idem: "rnd (rnd q) = rnd q"
begin

text \<open>Adding a nonnegative number to a double never rounds below it.\<close>

lemma rnd_absorb: "rnd x = x \<Longrightarrow> 0 \<le> h \<Longrightarrow> x \<le> rnd (x + h)"
  using rnd_mono[of x "x + h"] by simp

lemma rnd_nonneg: "0 \<le> q \<Longrightarrow> 0 \<le> rnd q"
  using rnd_mono[of 0 q] rnd_0 by simp

lemma rnd_le_1: "q \<le> 1 \<Longrightarrow> rnd q \<le> 1"
  using rnd_mono[of q 1] rnd_1 by simp

lemma rnd_fraction: "0 \<le> a \<Longrightarrow> 0 < b \<Longrightarrow> a \<le> b \<Longrightarrow> 0 \<le> rnd (a / b) \<and> rnd (a / b) \<le> 1"
  by (simp add: rnd_nonneg rnd_le_1)

lemma rnd_product: "0 \<le> a \<Longrightarrow> 0 \<le> b \<Longrightarrow> 0 \<le> rnd (a * b)"
  by (simp add: rnd_nonneg)

lemma rnd_mult_mono: "0 \<le> w \<Longrightarrow> a \<le> b \<Longrightarrow> rnd (w * a) \<le> rnd (w * b)"
  by (intro rnd_mono mult_left_mono)

text \<open>The saturating share \<open>x / (x + h)\<close> grows with \<open>x\<close>.\<close>

lemma rnd_share_mono:
  assumes "0 \<le> x" "x \<le> y" "0 < h"
  shows "rnd (x / (x + h)) \<le> rnd (y / (y + h))"
proof (rule rnd_mono)
  show "x / (x + h) \<le> y / (y + h)"
    using assms by (simp add: divide_simps) (simp add: algebra_simps mult_left_mono)
qed

end

interpretation float64: rounding fl
  by unfold_locales (simp_all add: fl_mono)

lemma fadd_nonneg: "0 \<le> a \<Longrightarrow> 0 \<le> b \<Longrightarrow> 0 \<le> fadd a b"
  by (simp add: fadd_def float64.rnd_nonneg)

lemma fadd_mono: "a \<le> a' \<Longrightarrow> b \<le> b' \<Longrightarrow> fadd a b \<le> fadd a' b'"
  by (simp add: fadd_def fl_mono add_mono)

lemma fmul_nonneg: "0 \<le> a \<Longrightarrow> 0 \<le> b \<Longrightarrow> 0 \<le> fmul a b"
  by (simp add: fmul_def float64.rnd_nonneg)

lemma fmul_left_mono: "0 \<le> w \<Longrightarrow> a \<le> b \<Longrightarrow> fmul w a \<le> fmul w b"
  by (simp add: fmul_def float64.rnd_mult_mono)

end
