(* ===== verification/Cluster.thy ===== *)
theory Cluster
  imports Objects Float64
begin

text \<open>
  The controllers' environment and their effects. The cluster is a record of the objects the API
  server holds, the clock, the metrics of \<open>pkg/metrics\<close>, the recorded events and the nudge channel.
  An effectful Go function is a function of type \<open>'a api\<close>: it takes the cluster and returns its result,
  an error or a value, with the cluster it leaves.

  Every call on the Kubernetes client may be preceded by any number of changes other actors make (the
  other controller, Kueue, the kubelets, operators) and may fail, before or after taking effect. These
  are the \<open>w_Script\<close> of the cluster, one entry consumed per call, and a theorem about an arbitrary
  cluster is a theorem about every interleaving and every fault. An empty script is an undisturbed run:
  no other actor, no failure, no lag.

  The client itself is the documented one: \<open>Get\<close> fails with \<open>NotFound\<close> on a missing object, \<open>Update\<close>
  fails with \<open>Conflict\<close> when the object changed since it was read and never writes the status
  subresource, and a merge patch writes exactly the fields its caller changed. Writes go to the API
  server. Reads are answered by the manager's informer caches, one per kind of object, and a cache may
  lag: the script says for each read how many states of the past the cache of its kind is behind, and
  \<open>w_Past\<close> holds those states. No bound on the lag is assumed, nor that a cache catches up with the
  controller's own writes before its next read, or that two reads see the past in order.
  \<open>w_Log\<close> is a ghost: the API server's record of this process's writes.
\<close>

subsection \<open>Errors and results\<close>

datatype error =
    NotFound
  | Conflict
  | ApiError string
  | CQNameTooLong string
  | ForeignOwner string string string
  | TaintingFailed string error
  | RuntimePanic

text \<open>
  What may go wrong with a call: it is refused, it takes effect and its reply is lost, or the caches are
  behind. \<open>Lagging l\<close> has the cache of kind \<open>k\<close> miss the last \<open>l k\<close> states; it concerns reads only.
\<close>

datatype kind = KNode | KPod | KWorkload | KClusterQueue | KLocalQueue | KFlavor | KTopology

datatype fault = Refused error | LostReply error | Lagging "kind \<Rightarrow> nat"

record Result =
  RequeueAfter :: duration

definition no_requeue :: Result where
  "no_requeue = \<lparr>RequeueAfter = 0\<rparr>"

definition requeue_after :: "duration \<Rightarrow> Result" where
  "requeue_after d = \<lparr>RequeueAfter = d\<rparr>"

subsection \<open>Metrics and events\<close>

datatype outcome =
    OutcomeAbandoned | OutcomeDeactivated | OutcomeFinished | OutcomePlaced
  | OutcomePlacedElsewhere | OutcomeTimedOut | OutcomeAborted

datatype selection_outcome =
    SelectionPlanned | SelectionNoFeasibleDomains | SelectionAllFeasibleOccupied

record metrics =
  DrainsStarted :: nat
  DrainsCompleted :: "outcome \<Rightarrow> nat"
  DrainsTimedOut :: nat
  DrainsInFlight :: nat
  SelectionOutcomes :: "selection_outcome \<Rightarrow> nat"
  VictimsSuspended :: nat
  VictimsReactivated :: nat

datatype event_type = EventTypeNormal | EventTypeWarning

datatype event_arg =
    ArgString string
  | ArgStrings "string list"
  | ArgInt int
  | ArgQuantity quantity
  | ArgCost rat

record event =
  ev_Object :: namespaced_name
  ev_Type :: event_type
  ev_Reason :: string
  ev_Args :: "event_arg list"

subsection \<open>The cluster\<close>

text \<open>What another actor may do between two calls of a controller.\<close>

datatype interference =
    EditNode string "node \<Rightarrow> node"
  | AddNode node
  | DeleteNode string
  | EditWorkload namespaced_name "workload \<Rightarrow> workload"
  | AddWorkload workload
  | DeleteWorkload namespaced_name
  | EditPods "pod list \<Rightarrow> pod list"
  | EditQueues "cluster_queue list \<Rightarrow> cluster_queue list"
  | EditLocalQueues "local_queue list \<Rightarrow> local_queue list"
  | EditFlavors "resource_flavor list \<Rightarrow> resource_flavor list"
  | EditTopologies "topology list \<Rightarrow> topology list"
  | Tick nat

datatype api_write =
    NodeUpdated node node
  | NodePatched node node node
  | WorkloadPatched workload workload workload

text \<open>The objects of the cluster at one moment.\<close>

record view =
  v_Nodes :: "node list"
  v_Pods :: "pod list"
  v_Workloads :: "workload list"
  v_ClusterQueues :: "cluster_queue list"
  v_LocalQueues :: "local_queue list"
  v_Flavors :: "resource_flavor list"
  v_Topologies :: "topology list"

record world =
  w_Nodes :: "node list"
  w_Pods :: "pod list"
  w_Workloads :: "workload list"
  w_ClusterQueues :: "cluster_queue list"
  w_LocalQueues :: "local_queue list"
  w_Flavors :: "resource_flavor list"
  w_Topologies :: "topology list"
  w_Revision :: nat
  w_Now :: time
  w_Script :: "(interference list \<times> fault option) list"
  w_Log :: "api_write list"
  w_Events :: "event list"
  w_Metrics :: metrics
  w_NudgeChan :: nat
  w_Past :: "view list"

type_synonym 'a api = "world \<Rightarrow> (error + 'a) \<times> world"

text \<open>Every write of a node gets the next revision of the store as its resource version.\<close>

definition set_nodes :: "node list \<Rightarrow> world \<Rightarrow> world" where
  "set_nodes ns w = w\<lparr>w_Nodes := ns, w_Revision := Suc (w_Revision w)\<rparr>"

definition edit_node :: "nat \<Rightarrow> string \<Rightarrow> (node \<Rightarrow> node) \<Rightarrow> node list \<Rightarrow> node list" where
  "edit_node rv nm f ns =
     map (\<lambda>n. if node_Name n = nm
              then (f n)\<lparr>node_Name := nm, node_ResourceVersion := rv\<rparr> else n) ns"

definition edit_workload :: "namespaced_name \<Rightarrow> (workload \<Rightarrow> workload) \<Rightarrow> workload list \<Rightarrow> workload list" where
  "edit_workload k f wls = map (\<lambda>wl. if wl_Key wl = k then (f wl)\<lparr>wl_Key := k\<rparr> else wl) wls"

fun interfere1 :: "interference \<Rightarrow> world \<Rightarrow> world" where
  "interfere1 (EditNode nm f) w = 
     set_nodes (edit_node (Suc (w_Revision w)) nm f (w_Nodes w)) w"
| "interfere1 (AddNode n) w =
     (if node_Name n \<in> node_Name ` set (w_Nodes w) then w
      else set_nodes (w_Nodes w @ [n\<lparr>node_ResourceVersion := Suc (w_Revision w)\<rparr>]) w)"
| "interfere1 (DeleteNode nm) w = 
     set_nodes (filter (\<lambda>n. node_Name n \<noteq> nm) (w_Nodes w)) w"
| "interfere1 (EditWorkload k f) w = w\<lparr>w_Workloads := edit_workload k f (w_Workloads w)\<rparr>"
| "interfere1 (AddWorkload wl) w =
     (if wl_Key wl \<in> wl_Key ` set (w_Workloads w) then w else w\<lparr>w_Workloads := w_Workloads w @ [wl]\<rparr>)"
| "interfere1 (DeleteWorkload k) w = w\<lparr>w_Workloads := filter (\<lambda>wl. wl_Key wl \<noteq> k) (w_Workloads w)\<rparr>"
| "interfere1 (EditPods f) w = w\<lparr>w_Pods := f (w_Pods w)\<rparr>"
| "interfere1 (EditQueues f) w = w\<lparr>w_ClusterQueues := f (w_ClusterQueues w)\<rparr>"
| "interfere1 (EditLocalQueues f) w = w\<lparr>w_LocalQueues := f (w_LocalQueues w)\<rparr>"
| "interfere1 (EditFlavors f) w = w\<lparr>w_Flavors := f (w_Flavors w)\<rparr>"
| "interfere1 (EditTopologies f) w = w\<lparr>w_Topologies := f (w_Topologies w)\<rparr>"
| "interfere1 (Tick d) w = w\<lparr>w_Now := w_Now w + int d\<rparr>"

text \<open>Every change of an object leaves the state before it in the past, for the caches to lag behind in.\<close>

definition view_of :: "world \<Rightarrow> view" where
  "view_of w = \<lparr>v_Nodes = w_Nodes w, v_Pods = w_Pods w, v_Workloads = w_Workloads w,
     v_ClusterQueues = w_ClusterQueues w, v_LocalQueues = w_LocalQueues w, v_Flavors = w_Flavors w,
     v_Topologies = w_Topologies w\<rparr>"

definition remember :: "world \<Rightarrow> world" where
  "remember w = w\<lparr>w_Past := view_of w # w_Past w\<rparr>"

definition interfere :: "interference list \<Rightarrow> world \<Rightarrow> world" where
  "interfere acts w = fold (\<lambda>a v. interfere1 a (remember v)) acts w"

subsection \<open>Sequencing\<close>

definition ret :: "'a \<Rightarrow> 'a api" where
  "ret a w = (Inr a, w)"

definition fail :: "error \<Rightarrow> 'a api" where
  "fail e w = (Inl e, w)"

text \<open>\<open>x, err := m; if err != nil { return err }\<close>, then \<open>f x\<close>.\<close>

definition andthen :: "'a api \<Rightarrow> ('a \<Rightarrow> 'b api) \<Rightarrow> 'b api" where
  "andthen m f w = (case m w of (Inl e, w') \<Rightarrow> (Inl e, w') | (Inr a, w') \<Rightarrow> f a w')"

definition seq :: "'a api \<Rightarrow> 'b api \<Rightarrow> 'b api" where
  "seq m m' = andthen m (\<lambda>_. m')"

text \<open>The error as a value, for the callers that inspect it.\<close>

definition attempt :: "'a api \<Rightarrow> (error + 'a) api" where
  "attempt m w = (case m w of (r, w') \<Rightarrow> (Inr r, w'))"

text \<open>\<open>client.IgnoreNotFound\<close>: a missing object is \<open>None\<close>, any other error is returned.\<close>

definition or_none :: "'a api \<Rightarrow> 'a option api" where
  "or_none m = andthen (attempt m) (\<lambda>r.
     case r of Inl e \<Rightarrow> if e = NotFound then ret None else fail e | Inr a \<Rightarrow> ret (Some a))"

fun for_each :: "'a list \<Rightarrow> ('a \<Rightarrow> unit api) \<Rightarrow> unit api" where
  "for_each [] f = ret ()"
| "for_each (x # xs) f = seq (f x) (for_each xs f)"

text \<open>A loop that carries a value.\<close>

fun loop_over :: "'a list \<Rightarrow> 's \<Rightarrow> ('s \<Rightarrow> 'a \<Rightarrow> 's api) \<Rightarrow> 's api" where
  "loop_over [] s f = ret s"
| "loop_over (x # xs) s f = andthen (f s x) (\<lambda>s'. loop_over xs s' f)"

text \<open>\<open>retry.RetryOnConflict\<close>: up to \<open>n\<close> attempts while the error is a conflict. client-go's would make none at
  all for 0 steps; the sources only ever pass \<open>retry.DefaultRetry\<close>, which has 5.\<close>

fun RetryOnConflict :: "nat \<Rightarrow> 'a api \<Rightarrow> 'a api" where
  "RetryOnConflict 0 m = m"
| "RetryOnConflict (Suc n) m = (\<lambda>w. case m w of
      (Inl Conflict, w') \<Rightarrow> if n = 0 then (Inl Conflict, w') else RetryOnConflict n m w'
    | r \<Rightarrow> r)"

subsection \<open>Client calls\<close>

definition call :: "(world \<Rightarrow> (error + 'a) \<times> world) \<Rightarrow> 'a api" where
  "call f w =
     (case w_Script w of
        [] \<Rightarrow> f w
      | (acts, fault) # rest \<Rightarrow>
          let w' = interfere acts (w\<lparr>w_Script := rest\<rparr>) in
          (case fault of
             None \<Rightarrow> f w'
           | Some (Refused e) \<Rightarrow> (Inl e, w')
           | Some (LostReply e) \<Rightarrow> (Inl e, snd (f w'))
           | Some (Lagging l) \<Rightarrow> f w'))"

text \<open>The cluster as the caches show it: each kind of object as it was that many states ago.\<close>

definition behind :: "nat \<Rightarrow> (view \<Rightarrow> 'a) \<Rightarrow> view list \<Rightarrow> 'a \<Rightarrow> 'a" where
  "behind i f past cur = (if i = 0 \<or> past = [] then cur else f (past ! (min i (length past) - 1)))"

definition as_of :: "(kind \<Rightarrow> nat) \<Rightarrow> world \<Rightarrow> world" where
  "as_of l w =
     w\<lparr>w_Nodes := behind (l KNode) v_Nodes (w_Past w) (w_Nodes w),
       w_Pods := behind (l KPod) v_Pods (w_Past w) (w_Pods w),
       w_Workloads := behind (l KWorkload) v_Workloads (w_Past w) (w_Workloads w),
       w_ClusterQueues := behind (l KClusterQueue) v_ClusterQueues (w_Past w) (w_ClusterQueues w),
       w_LocalQueues := behind (l KLocalQueue) v_LocalQueues (w_Past w) (w_LocalQueues w),
       w_Flavors := behind (l KFlavor) v_Flavors (w_Past w) (w_Flavors w),
       w_Topologies := behind (l KTopology) v_Topologies (w_Past w) (w_Topologies w)\<rparr>"

definition lag :: "world \<Rightarrow> kind \<Rightarrow> nat" where
  "lag w = (case w_Script w of (acts, Some (Lagging l)) # rest \<Rightarrow> l | _ \<Rightarrow> (\<lambda>_. 0))"

definition read :: "(world \<Rightarrow> 'a) \<Rightarrow> 'a api" where
  "read f w = call (\<lambda>w'. (Inr (f (as_of (lag w) w')), w')) w"

definition fetch :: "(world \<Rightarrow> 'a option) \<Rightarrow> 'a api" where
  "fetch f w = call (\<lambda>w'. (case f (as_of (lag w) w') of None \<Rightarrow> Inl NotFound | Some a \<Rightarrow> Inr a, w')) w"

definition find_node :: "string \<Rightarrow> node list \<Rightarrow> node option" where
  "find_node nm ns = find (\<lambda>n. node_Name n = nm) ns"

definition find_workload :: "namespaced_name \<Rightarrow> workload list \<Rightarrow> workload option" where
  "find_workload k wls = find (\<lambda>wl. wl_Key wl = k) wls"

definition get_node :: "string \<Rightarrow> node api" where
  "get_node nm = fetch (\<lambda>w. find_node nm (w_Nodes w))"
definition get_workload :: "namespaced_name \<Rightarrow> workload api" where
  "get_workload k = fetch (\<lambda>w. find_workload k (w_Workloads w))"
definition get_cluster_queue :: "string \<Rightarrow> cluster_queue api" where
  "get_cluster_queue nm = fetch (\<lambda>w. find (\<lambda>c. cq_Name c = nm) (w_ClusterQueues w))"
definition get_local_queue :: "namespaced_name \<Rightarrow> local_queue api" where
  "get_local_queue k = fetch (\<lambda>w. find (\<lambda>q. lq_Key q = k) (w_LocalQueues w))"
definition get_flavor :: "string \<Rightarrow> resource_flavor api" where
  "get_flavor nm = fetch (\<lambda>w. find (\<lambda>f. rf_Name f = nm) (w_Flavors w))"
definition get_topology :: "string \<Rightarrow> topology api" where
  "get_topology nm = fetch (\<lambda>w. find (\<lambda>t. topo_Name t = nm) (w_Topologies w))"

definition list_nodes :: "(node \<Rightarrow> bool) \<Rightarrow> node list api" where
  "list_nodes sel = read (\<lambda>w. filter sel (w_Nodes w))"
definition list_pods :: "(pod \<Rightarrow> bool) \<Rightarrow> pod list api" where
  "list_pods sel = read (\<lambda>w. filter sel (w_Pods w))"
definition list_workloads :: "(workload \<Rightarrow> bool) \<Rightarrow> workload list api" where
  "list_workloads sel = read (\<lambda>w. filter sel (w_Workloads w))"

text \<open>An \<open>Update\<close> of a node: metadata and spec are the caller's, status and version the server's.\<close>

definition persist_node :: "nat \<Rightarrow> node \<Rightarrow> node \<Rightarrow> node" where
  "persist_node rv cur n =
     n\<lparr>node_ResourceVersion := rv,
       node_Allocatable := node_Allocatable cur, node_Conditions := node_Conditions cur,
       node_Images := node_Images cur\<rparr>"

definition put_node :: "node \<Rightarrow> world \<Rightarrow> world" where
  "put_node n w =
     set_nodes (map (\<lambda>m. if node_Name m = node_Name n then n else m) (w_Nodes w)) (remember w)"

definition put_workload :: "workload \<Rightarrow> world \<Rightarrow> world" where
  "put_workload wl w =
     (remember w)\<lparr>w_Workloads := map (\<lambda>m. if wl_Key m = wl_Key wl then wl else m) (w_Workloads w)\<rparr>"

definition log_write :: "api_write \<Rightarrow> world \<Rightarrow> world" where
  "log_write x w = w\<lparr>w_Log := w_Log w @ [x]\<rparr>"

definition update_node :: "node \<Rightarrow> unit api" where
  "update_node n = call (\<lambda>w.
     case find_node (node_Name n) (w_Nodes w) of
       None \<Rightarrow> (Inl NotFound, w)
     | Some cur \<Rightarrow>
         if node_ResourceVersion cur \<noteq> node_ResourceVersion n then (Inl Conflict, w)
         else let new = persist_node (Suc (w_Revision w)) cur n
              in (Inr (), log_write (NodeUpdated cur new) (put_node new w)))"

text \<open>The merge patch between \<open>old\<close> and \<open>new\<close>, applied to the live map.\<close>

definition merge_map :: "smap \<Rightarrow> smap \<Rightarrow> smap \<Rightarrow> smap" where
  "merge_map old new cur = (\<lambda>k. if old k = new k then cur k else new k)"

definition merge_node :: "nat \<Rightarrow> node \<Rightarrow> node \<Rightarrow> node \<Rightarrow> node" where
  "merge_node rv old new cur =
     cur\<lparr>node_Annotations := merge_map (node_Annotations old) (node_Annotations new) (node_Annotations cur),
         node_ResourceVersion := rv\<rparr>"

definition patch_node :: "node \<Rightarrow> node \<Rightarrow> unit api" where
  "patch_node old new = call (\<lambda>w.
     case find_node (node_Name new) (w_Nodes w) of
       None \<Rightarrow> (Inl NotFound, w)
     | Some cur \<Rightarrow>
         let m = merge_node (Suc (w_Revision w)) old new cur
         in (Inr (), log_write (NodePatched old cur m) (put_node m w)))"

definition merge_workload :: "workload \<Rightarrow> workload \<Rightarrow> workload \<Rightarrow> workload" where
  "merge_workload old new cur =
     cur\<lparr>wl_Annotations := merge_map (wl_Annotations old) (wl_Annotations new) (wl_Annotations cur),
         wl_Active := (if wl_Active old = wl_Active new then wl_Active cur else wl_Active new)\<rparr>"

definition patch_workload :: "workload \<Rightarrow> workload \<Rightarrow> unit api" where
  "patch_workload old new = call (\<lambda>w.
     case find_workload (wl_Key new) (w_Workloads w) of
       None \<Rightarrow> (Inl NotFound, w)
     | Some cur \<Rightarrow>
         let m = merge_workload old new cur
         in (Inr (), log_write (WorkloadPatched old cur m) (put_workload m w)))"

subsection \<open>Effects inside the process\<close>

definition Now :: "time api" where
  "Now w = (Inr (w_Now w), w)"

definition count_metric :: "(metrics \<Rightarrow> metrics) \<Rightarrow> unit api" where
  "count_metric f w = (Inr (), w\<lparr>w_Metrics := f (w_Metrics w)\<rparr>)"

definition emit :: "namespaced_name \<Rightarrow> event_type \<Rightarrow> string \<Rightarrow> event_arg list \<Rightarrow> unit api" where
  "emit obj ty reason args w =
     (Inr (), w\<lparr>w_Events := w_Events w @
        [\<lparr>ev_Object = obj, ev_Type = ty, ev_Reason = reason, ev_Args = args\<rparr>]\<rparr>)"

text \<open>A send on the nudge channel (capacity 16, cmd/main.go) that skips when it is full.\<close>

definition nudge_capacity :: nat where
  "nudge_capacity = 16"

definition send_nudge :: "unit api" where
  "send_nudge w =
     (Inr (), if w_NudgeChan w < nudge_capacity then w\<lparr>w_NudgeChan := Suc (w_NudgeChan w)\<rparr> else w)"

definition inc_started :: "metrics \<Rightarrow> metrics" where
  "inc_started m = m\<lparr>DrainsStarted := Suc (DrainsStarted m)\<rparr>"
definition inc_completed :: "outcome \<Rightarrow> metrics \<Rightarrow> metrics" where
  "inc_completed oc m = m\<lparr>DrainsCompleted := (DrainsCompleted m)(oc := Suc (DrainsCompleted m oc))\<rparr>"
definition inc_timed_out :: "metrics \<Rightarrow> metrics" where
  "inc_timed_out m = m\<lparr>DrainsTimedOut := Suc (DrainsTimedOut m)\<rparr>"
definition set_in_flight :: "nat \<Rightarrow> metrics \<Rightarrow> metrics" where
  "set_in_flight n m = m\<lparr>DrainsInFlight := n\<rparr>"
definition inc_selection :: "selection_outcome \<Rightarrow> metrics \<Rightarrow> metrics" where
  "inc_selection oc m = m\<lparr>SelectionOutcomes := (SelectionOutcomes m)(oc := Suc (SelectionOutcomes m oc))\<rparr>"
definition inc_suspended :: "metrics \<Rightarrow> metrics" where
  "inc_suspended m = m\<lparr>VictimsSuspended := Suc (VictimsSuspended m)\<rparr>"
definition inc_reactivated :: "metrics \<Rightarrow> metrics" where
  "inc_reactivated m = m\<lparr>VictimsReactivated := Suc (VictimsReactivated m)\<rparr>"

lemmas metric_defs = inc_started_def inc_completed_def inc_timed_out_def set_in_flight_def
  inc_selection_def inc_suspended_def inc_reactivated_def

lemma victim_metrics [simp]:
  "DrainsCompleted (inc_suspended m) = DrainsCompleted m" "DrainsTimedOut (inc_suspended m) = DrainsTimedOut m"
  "DrainsCompleted (inc_reactivated m) = DrainsCompleted m" "DrainsTimedOut (inc_reactivated m) = DrainsTimedOut m"
  by (simp_all add: metric_defs)

end
