(* ===== verification/Effects.thy ===== *)
theory Effects
  imports Cluster
begin

text \<open>
  The proof theory of the effects in \<open>Cluster\<close>. \<open>keeps I m\<close> says that \<open>m\<close> preserves the cluster
  predicate \<open>I\<close> whatever other actors do between its calls and whichever calls fail, on success and on
  error; \<open>triple\<close> adds what holds of the result. The locale \<open>world_invariant\<close> is the contract a
  predicate must meet for that: other actors, events, metrics and the nudge channel do not break it.
  \<open>quiet\<close> clusters evaluate calls to their plain meaning.
\<close>

subsection \<open>Triples\<close>

definition triple :: "(world \<Rightarrow> bool) \<Rightarrow> 'a api \<Rightarrow> ('a \<Rightarrow> world \<Rightarrow> bool) \<Rightarrow> (world \<Rightarrow> bool) \<Rightarrow> bool" where
  "triple P m Q E \<longleftrightarrow> (\<forall>w. P w \<longrightarrow> (case m w of (Inl e, w') \<Rightarrow> E w' | (Inr a, w') \<Rightarrow> Q a w'))"

definition keeps :: "(world \<Rightarrow> bool) \<Rightarrow> 'a api \<Rightarrow> bool" where
  "keeps I m \<longleftrightarrow> (\<forall>w. I w \<longrightarrow> I (snd (m w)))"

lemma keepsD: "keeps I m \<Longrightarrow> I w \<Longrightarrow> I (snd (m w))"
  by (simp add: keeps_def)

lemma keeps_triple: "keeps I m \<longleftrightarrow> triple I m (\<lambda>_. I) I"
  by (simp add: keeps_def triple_def case_prod_beta)

lemma triple_snd: "triple P m (\<lambda>_. I) I \<Longrightarrow> P w \<Longrightarrow> I (snd (m w))"
  by (simp add: triple_def case_prod_beta)

lemma triple_bind:
  "triple P m R E \<Longrightarrow> (\<And>a. triple (R a) (f a) Q E) \<Longrightarrow> triple P (andthen m f) Q E"
  unfolding triple_def andthen_def by (fastforce split: prod.splits sum.splits)

lemma triple_weaken:
  "triple P' m Q' E' \<Longrightarrow> (\<And>w. P w \<Longrightarrow> P' w) \<Longrightarrow> (\<And>a w. Q' a w \<Longrightarrow> Q a w) \<Longrightarrow> (\<And>w. E' w \<Longrightarrow> E w)
     \<Longrightarrow> triple P m Q E"
  unfolding triple_def by (fastforce split: prod.splits sum.splits)

subsection \<open>Preservation rules\<close>

lemma keeps_ret [keeps_intro]: "keeps I (ret a)"
  by (simp add: keeps_def ret_def)

lemma keeps_fail [keeps_intro]: "keeps I (fail e)"
  by (simp add: keeps_def fail_def)

lemma keeps_Now [keeps_intro]: "keeps I Now"
  by (simp add: keeps_def Now_def)

lemma keeps_andthen [keeps_intro]: "keeps I m \<Longrightarrow> (\<And>a. keeps I (f a)) \<Longrightarrow> keeps I (andthen m f)"
  unfolding keeps_def andthen_def by (fastforce split: prod.splits sum.splits)

lemma keeps_seq [keeps_intro]: "keeps I m \<Longrightarrow> keeps I m' \<Longrightarrow> keeps I (seq m m')"
  by (simp add: seq_def keeps_andthen)

lemma keeps_attempt [keeps_intro]: "keeps I m \<Longrightarrow> keeps I (attempt m)"
  unfolding keeps_def attempt_def by (auto split: prod.splits)

lemma keeps_for_each [keeps_intro]: "(\<And>x. x \<in> set xs \<Longrightarrow> keeps I (f x)) \<Longrightarrow> keeps I (for_each xs f)"
  by (induction xs) (auto intro: keeps_intro)

lemma keeps_loop_over [keeps_intro]:
  "(\<And>s x. x \<in> set xs \<Longrightarrow> keeps I (f s x)) \<Longrightarrow> keeps I (loop_over xs s f)"
  by (induction xs arbitrary: s) (auto intro!: keeps_intro)

lemma keeps_RetryOnConflict [keeps_intro]:
  assumes "keeps I m"
  shows "keeps I (RetryOnConflict n m)"
proof (induction n)
  case 0
  show ?case using assms by simp
next
  case (Suc n)
  show ?case
    unfolding keeps_def
  proof (intro allI impI)
    fix w assume "I w"
    obtain r w' where m: "m w = (r, w')" by fastforce
    with assms \<open>I w\<close> have "I w'" by (metis keepsD snd_conv)
    with Suc m show "I (snd (RetryOnConflict (Suc n) m w))"
      by (cases r) (auto simp: keeps_def split: error.splits)
  qed
qed

lemma keeps_if [keeps_intro]: "(b \<Longrightarrow> keeps I m) \<Longrightarrow> (\<not> b \<Longrightarrow> keeps I m') \<Longrightarrow> keeps I (if b then m else m')"
  by simp

lemma keeps_option [keeps_intro]:
  "(x = None \<Longrightarrow> keeps I m) \<Longrightarrow> (\<And>a. x = Some a \<Longrightarrow> keeps I (f a)) \<Longrightarrow>
     keeps I (case x of None \<Rightarrow> m | Some a \<Rightarrow> f a)"
  by (cases x) simp_all

lemma keeps_sum [keeps_intro]:
  "(\<And>a. x = Inl a \<Longrightarrow> keeps I (f a)) \<Longrightarrow> (\<And>b. x = Inr b \<Longrightarrow> keeps I (g b)) \<Longrightarrow>
     keeps I (case x of Inl a \<Rightarrow> f a | Inr b \<Rightarrow> g b)"
  by (cases x) simp_all

lemma keeps_prod [keeps_intro]:
  "(\<And>a b. x = (a, b) \<Longrightarrow> keeps I (f a b)) \<Longrightarrow> keeps I (case x of (a, b) \<Rightarrow> f a b)"
  by (cases x) simp_all

lemma keeps_or_none [keeps_intro]: "keeps I m \<Longrightarrow> keeps I (or_none m)"
  unfolding or_none_def by (intro keeps_intro)

lemma keeps_let [keeps_intro]: "(\<And>x. x = t \<Longrightarrow> keeps I (f x)) \<Longrightarrow> keeps I (let x = t in f x)"
  by simp

subsection \<open>What a result satisfies\<close>

text \<open>\<open>returns I m R\<close>: \<open>m\<close> keeps \<open>I\<close>, and a value it returns satisfies \<open>R\<close>.\<close>

definition returns :: "(world \<Rightarrow> bool) \<Rightarrow> 'a api \<Rightarrow> ('a \<Rightarrow> bool) \<Rightarrow> bool" where
  "returns I m R \<longleftrightarrow> triple I m (\<lambda>a w. I w \<and> R a) I"

lemma returns_keeps: "returns I m (\<lambda>_. True) \<longleftrightarrow> keeps I m"
  by (simp add: returns_def keeps_triple)

lemma returns_weaken: "returns I m R \<Longrightarrow> (\<And>a. R a \<Longrightarrow> R' a) \<Longrightarrow> returns I m R'"
  unfolding returns_def by (erule triple_weaken) auto

lemma returns_ret: "R a \<Longrightarrow> returns I (ret a) R"
  by (simp add: returns_def triple_def ret_def)

lemma returns_andthen:
  "returns I m R \<Longrightarrow> (\<And>a. R a \<Longrightarrow> returns I (f a) R') \<Longrightarrow> returns I (andthen m f) R'"
  unfolding returns_def by (erule triple_bind) (auto simp: triple_def)

lemma keeps_andthen_returns:
  "returns I m R \<Longrightarrow> (\<And>a. R a \<Longrightarrow> keeps I (f a)) \<Longrightarrow> keeps I (andthen m f)"
  unfolding returns_keeps[symmetric] by (rule returns_andthen)

lemma returns_attempt: "returns I m R \<Longrightarrow> returns I (attempt m) (\<lambda>r. \<forall>a. r = Inr a \<longrightarrow> R a)"
  unfolding returns_def triple_def attempt_def by (fastforce split: prod.splits sum.splits)

lemma returns_or_none: "returns I m R \<Longrightarrow> returns I (or_none m) (\<lambda>x. \<forall>a. x = Some a \<longrightarrow> R a)"
  unfolding or_none_def
  by (erule returns_andthen[OF returns_attempt])
    (auto simp: returns_def triple_def ret_def fail_def split: sum.split)

lemma returns_loop_over:
  "R s \<Longrightarrow> (\<And>s x. R s \<Longrightarrow> x \<in> set xs \<Longrightarrow> returns I (f s x) R) \<Longrightarrow> returns I (loop_over xs s f) R"
  by (induction xs arbitrary: s) (auto intro: returns_ret intro!: returns_andthen[where R = R])

subsection \<open>What a cluster predicate must withstand\<close>

locale world_invariant =
  fixes I :: "world \<Rightarrow> bool"
  assumes I_interfere:
      "I w \<Longrightarrow> w_Script w = (acts, fault) # rest \<Longrightarrow> I (interfere acts (w\<lparr>w_Script := rest\<rparr>))"
    and I_events: "I w \<Longrightarrow> I (w\<lparr>w_Events := evs\<rparr>)"
    and I_metrics: "I w \<Longrightarrow> I (w\<lparr>w_Metrics := ms\<rparr>)"
    and I_chan: "I w \<Longrightarrow> I (w\<lparr>w_NudgeChan := n\<rparr>)"
begin

lemma keeps_call:
  assumes "\<And>w. I w \<Longrightarrow> I (snd (f w))"
  shows "keeps I (call f)"
  unfolding keeps_def call_def Let_def
  using I_interfere assms
  by (auto split: list.splits option.splits fault.splits)

text \<open>What a call establishes: \<open>f\<close> itself runs from \<open>I\<close>, and a lost reply hides its result.\<close>

lemma triple_call:
  assumes f: "triple I f Q E" and IE: "\<And>w. I w \<Longrightarrow> E w" and QE: "\<And>a w. Q a w \<Longrightarrow> E w"
  shows "triple I (call f) Q E"
  unfolding triple_def
proof (intro allI impI)
  fix w assume w: "I w"
  have run: "case f v of (Inl e, v') \<Rightarrow> E v' | (Inr a, v') \<Rightarrow> Q a v'" if "I v" for v
    using f that by (simp add: triple_def)
  then have "E (snd (f v))" if "I v" for v
    using that QE by (fastforce split: prod.splits sum.splits)
  with w run IE I_interfere[OF w]
  show "case call f w of (Inl e, w') \<Rightarrow> E w' | (Inr a, w') \<Rightarrow> Q a w'"
    by (auto simp: call_def Let_def split: list.splits option.splits fault.splits)
qed

lemma keeps_read [keeps_intro]: "keeps I (read f)"
  unfolding keeps_def read_def by (simp add: keepsD[OF keeps_call])

lemma keeps_fetch [keeps_intro]: "keeps I (fetch f)"
  unfolding keeps_def fetch_def by (simp add: keepsD[OF keeps_call])

lemma keeps_gets [keeps_intro]:
  "keeps I (get_node nm)" "keeps I (get_workload k)" "keeps I (get_cluster_queue nm)"
  "keeps I (get_local_queue k)" "keeps I (get_flavor nm)" "keeps I (get_topology nm)"
  by (simp_all add: get_node_def get_workload_def get_cluster_queue_def get_local_queue_def
      get_flavor_def get_topology_def keeps_fetch)

lemma keeps_lists [keeps_intro]:
  "keeps I (list_nodes sel)" "keeps I (list_pods psel)" "keeps I (list_workloads wsel)"
  by (simp_all add: list_nodes_def list_pods_def list_workloads_def keeps_read)

text \<open>What a read returns is what some lag shows.\<close>

lemma triple_fetch:
  assumes "\<And>l w a. I w \<Longrightarrow> f (as_of l w) = Some a \<Longrightarrow> Q a w" and "\<And>a w. Q a w \<Longrightarrow> I w"
  shows "triple I (fetch f) Q I"
proof -
  have "triple I (call (\<lambda>w. (case f (as_of l w) of None \<Rightarrow> Inl NotFound | Some a \<Rightarrow> Inr a, w))) Q I" for l
    by (rule triple_call) (use assms in \<open>auto simp: triple_def split: option.split\<close>)
  then show ?thesis by (simp add: triple_def fetch_def)
qed

lemma triple_read:
  assumes "\<And>w. I w \<Longrightarrow> P (lag w)" and "\<And>l w. I w \<Longrightarrow> P l \<Longrightarrow> Q (f (as_of l w)) w" and "\<And>a w. Q a w \<Longrightarrow> I w"
  shows "triple I (read f) Q I"
proof -
  have "triple I (call (\<lambda>w. (Inr (f (as_of l w)), w))) Q I" if "P l" for l
    by (rule triple_call) (use assms(2,3) that in \<open>auto simp: triple_def\<close>)
  with assms(1) show ?thesis by (simp add: triple_def read_def)
qed

lemma returns_fetch: "(\<And>w a. f w = Some a \<Longrightarrow> R a) \<Longrightarrow> returns I (fetch f) R"
  unfolding returns_def by (rule triple_fetch) auto

lemma returns_read: "(\<And>w. R (f w)) \<Longrightarrow> returns I (read f) R"
  unfolding returns_def by (rule triple_read[where P = "\<lambda>_. True"]) auto

lemma returns_gets:
  "returns I (get_node nm) (\<lambda>n. node_Name n = nm)" "returns I (get_workload k) (\<lambda>wl. wl_Key wl = k)"
  unfolding get_node_def get_workload_def
  by (rule returns_fetch; auto simp: find_node_def find_workload_def dest: find_mem)+

lemma returns_lists:
  "returns I (list_workloads wsel) (\<lambda>wls. \<forall>wl \<in> set wls. wsel wl)"
  "returns I (list_nodes sel) (\<lambda>ns. \<forall>n \<in> set ns. sel n)"
  unfolding list_workloads_def list_nodes_def by (rule returns_read; simp)+

lemma keeps_local [keeps_intro]:
  "keeps I (count_metric f)" "keeps I (emit obj ty reason args)" "keeps I send_nudge"
  by (simp_all add: keeps_def count_metric_def emit_def send_nudge_def I_events I_metrics I_chan)

lemma keeps_update_node:
  assumes "\<And>w cur. I w \<Longrightarrow> find_node (node_Name n) (w_Nodes w) = Some cur \<Longrightarrow>
      node_ResourceVersion cur = node_ResourceVersion n \<Longrightarrow>
      I (let new = persist_node (Suc (w_Revision w)) cur n
         in log_write (NodeUpdated cur new) (put_node new w))"
  shows "keeps I (update_node n)"
  unfolding update_node_def
  by (rule keeps_call) (use assms in \<open>auto simp: Let_def split: option.splits\<close>)

lemma keeps_patch_node:
  assumes "\<And>w cur. I w \<Longrightarrow> find_node (node_Name new) (w_Nodes w) = Some cur \<Longrightarrow>
      I (let m = merge_node (Suc (w_Revision w)) old new cur
         in log_write (NodePatched old cur m) (put_node m w))"
  shows "keeps I (patch_node old new)"
  unfolding patch_node_def
  by (rule keeps_call) (use assms in \<open>auto simp: Let_def split: option.splits\<close>)

lemma keeps_patch_workload:
  assumes "\<And>w cur. I w \<Longrightarrow> find_workload (wl_Key new) (w_Workloads w) = Some cur \<Longrightarrow>
      I (let m = merge_workload old new cur
         in log_write (WorkloadPatched old cur m) (put_workload m w))"
  shows "keeps I (patch_workload old new)"
  unfolding patch_workload_def
  by (rule keeps_call) (use assms in \<open>auto simp: Let_def split: option.splits\<close>)

end

text \<open>A predicate on this process's own writes withstands everything other actors do.\<close>

lemma remember_simps [simp]:
  "w_Nodes (remember w) = w_Nodes w" "w_Revision (remember w) = w_Revision w"
  "w_Log (remember w) = w_Log w" "w_Script (remember w) = w_Script w"
  "w_Workloads (remember w) = w_Workloads w" "w_Pods (remember w) = w_Pods w"
  "w_Now (remember w) = w_Now w" "w_Metrics (remember w) = w_Metrics w"
  "w_Events (remember w) = w_Events w" "w_ClusterQueues (remember w) = w_ClusterQueues w"
  "w_LocalQueues (remember w) = w_LocalQueues w" "w_Flavors (remember w) = w_Flavors w"
  "w_Topologies (remember w) = w_Topologies w" "w_NudgeChan (remember w) = w_NudgeChan w"
  "w_Past (remember w) = view_of w # w_Past w"
  by (simp_all add: remember_def)

lemma set_nodes_simps [simp]:
  "w_Nodes (set_nodes ns w) = ns" "w_Revision (set_nodes ns w) = Suc (w_Revision w)"
  "w_Log (set_nodes ns w) = w_Log w" "w_Script (set_nodes ns w) = w_Script w"
  "w_Workloads (set_nodes ns w) = w_Workloads w" "w_Pods (set_nodes ns w) = w_Pods w"
  "w_Now (set_nodes ns w) = w_Now w" "w_Metrics (set_nodes ns w) = w_Metrics w"
  "w_Events (set_nodes ns w) = w_Events w" "w_ClusterQueues (set_nodes ns w) = w_ClusterQueues w"
  "w_LocalQueues (set_nodes ns w) = w_LocalQueues w" "w_Flavors (set_nodes ns w) = w_Flavors w"
  "w_Topologies (set_nodes ns w) = w_Topologies w" "w_NudgeChan (set_nodes ns w) = w_NudgeChan w"
  by (simp_all add: set_nodes_def)

lemma as_of_now [simp]: "as_of (\<lambda>_. 0) w = w"
  by (simp add: as_of_def behind_def)

lemma behind_mem: "behind i f past cur \<in> insert cur (f ` set past)"
proof (cases "i = 0 \<or> past = []")
  case False
  then have "min i (length past) - 1 < length past" by (cases past) auto
  with False show ?thesis by (auto simp: behind_def)
qed (auto simp: behind_def)

lemma behind_0 [simp]: "behind 0 f past cur = cur"
  by (simp add: behind_def)

text \<open>Evaluation: without a script the caches are current.\<close>

lemma read_code [code]:
  "read f w = (case w_Script w of [] \<Rightarrow> (Inr (f w), w) | x # xs \<Rightarrow>
     call (\<lambda>w'. (Inr (f (as_of (lag w) w')), w')) w)"
  by (simp add: read_def call_def lag_def split: list.split)

lemma fetch_code [code]:
  "fetch f w = (case w_Script w of [] \<Rightarrow> (case f w of None \<Rightarrow> Inl NotFound | Some a \<Rightarrow> Inr a, w) | x # xs \<Rightarrow>
     call (\<lambda>w'. (case f (as_of (lag w) w') of None \<Rightarrow> Inl NotFound | Some a \<Rightarrow> Inr a, w')) w)"
  by (simp add: fetch_def call_def lag_def split: list.split)

lemma interfere1_log [simp]: "w_Log (interfere1 a w) = w_Log w"
  by (cases a) simp_all

lemma interfere_log [simp]: "w_Log (interfere acts w) = w_Log w"
  unfolding interfere_def by (induction acts arbitrary: w) simp_all

lemma interfere1_script [simp]: "w_Script (interfere1 a w) = w_Script w"
  by (cases a) simp_all

lemma interfere_script [simp]: "w_Script (interfere acts w) = w_Script w"
  unfolding interfere_def by (induction acts arbitrary: w) simp_all

definition writes_ok :: "(api_write \<Rightarrow> bool) \<Rightarrow> world \<Rightarrow> bool" where
  "writes_ok G w \<longleftrightarrow> (\<forall>x \<in> set (w_Log w). G x)"

interpretation writes: world_invariant "writes_ok G" for G
  by unfold_locales (simp_all add: writes_ok_def)

lemma writes_ok_log [simp]: "writes_ok G (log_write x w) \<longleftrightarrow> G x \<and> writes_ok G w"
  by (auto simp: writes_ok_def log_write_def)

lemma writes_ok_put [simp]:
  "writes_ok G (put_node n w) = writes_ok G w" "writes_ok G (put_workload wl w) = writes_ok G w"
  by (simp_all add: writes_ok_def put_node_def put_workload_def)

lemma writes_update_node:
  "(\<And>cur. node_Name cur = node_Name n \<Longrightarrow> node_ResourceVersion cur = node_ResourceVersion n \<Longrightarrow>
      (\<And>rv. G (NodeUpdated cur (persist_node rv cur n)))) \<Longrightarrow>
     keeps (writes_ok G) (update_node n)"
  by (rule writes.keeps_update_node) (auto simp: find_node_def Let_def dest: find_mem)

lemma writes_patch_node:
  "(\<And>cur rv. node_Name cur = node_Name new \<Longrightarrow> G (NodePatched old cur (merge_node rv old new cur))) \<Longrightarrow>
     keeps (writes_ok G) (patch_node old new)"
  by (rule writes.keeps_patch_node) (auto simp: find_node_def Let_def dest: find_mem)

lemma writes_patch_workload:
  "(\<And>cur. wl_Key cur = wl_Key new \<Longrightarrow> G (WorkloadPatched old cur (merge_workload old new cur))) \<Longrightarrow>
     keeps (writes_ok G) (patch_workload old new)"
  by (rule writes.keeps_patch_workload) (auto simp: find_workload_def Let_def dest: find_mem)

subsection \<open>Undisturbed runs\<close>

definition quiet :: "world \<Rightarrow> bool" where
  "quiet w \<longleftrightarrow> w_Script w = []"

lemma quiet_updates [simp]:
  "quiet (w\<lparr>w_Nodes := x1\<rparr>) = quiet w" "quiet (w\<lparr>w_Workloads := x2\<rparr>) = quiet w"
  "quiet (w\<lparr>w_Log := x3\<rparr>) = quiet w" "quiet (w\<lparr>w_Events := x4\<rparr>) = quiet w"
  "quiet (w\<lparr>w_Metrics := x5\<rparr>) = quiet w" "quiet (w\<lparr>w_NudgeChan := x6\<rparr>) = quiet w"
  "quiet (w\<lparr>w_Pods := x7\<rparr>) = quiet w" "quiet (w\<lparr>w_Now := x8\<rparr>) = quiet w"
  by (simp_all add: quiet_def)

lemma quiet_puts [simp]:
  "quiet (put_node n w) = quiet w" "quiet (put_workload wl w) = quiet w"
  "quiet (log_write x w) = quiet w" "quiet (set_nodes ns w) = quiet w" "quiet (remember w) = quiet w"
  by (simp_all add: quiet_def put_node_def put_workload_def log_write_def)

lemma quiet_call: "quiet w \<Longrightarrow> call f w = f w"
  by (simp add: quiet_def call_def)

lemma quiet_lag: "quiet w \<Longrightarrow> lag w = (\<lambda>_. 0)"
  by (simp add: quiet_def lag_def)

lemma quiet_reads [quiet_simps]:
  assumes "quiet w"
  shows "get_node nm w = (case find_node nm (w_Nodes w) of None \<Rightarrow> Inl NotFound | Some n \<Rightarrow> Inr n, w)"
    and "get_workload k w
           = (case find_workload k (w_Workloads w) of None \<Rightarrow> Inl NotFound | Some n \<Rightarrow> Inr n, w)"
    and "list_nodes sel w = (Inr (filter sel (w_Nodes w)), w)"
    and "list_pods psel w = (Inr (filter psel (w_Pods w)), w)"
    and "list_workloads wsel w = (Inr (filter wsel (w_Workloads w)), w)"
    and "get_cluster_queue c w
           = (case find (\<lambda>q. cq_Name q = c) (w_ClusterQueues w) of None \<Rightarrow> Inl NotFound | Some n \<Rightarrow> Inr n, w)"
    and "get_local_queue l w
           = (case find (\<lambda>q. lq_Key q = l) (w_LocalQueues w) of None \<Rightarrow> Inl NotFound | Some n \<Rightarrow> Inr n, w)"
    and "get_flavor f w
           = (case find (\<lambda>q. rf_Name q = f) (w_Flavors w) of None \<Rightarrow> Inl NotFound | Some n \<Rightarrow> Inr n, w)"
    and "get_topology t w
           = (case find (\<lambda>q. topo_Name q = t) (w_Topologies w) of None \<Rightarrow> Inl NotFound | Some n \<Rightarrow> Inr n, w)"
  using assms
  by (simp_all add: get_node_def get_workload_def get_cluster_queue_def get_local_queue_def
      get_flavor_def get_topology_def list_nodes_def list_pods_def list_workloads_def
      fetch_def read_def quiet_call quiet_lag)

lemma quiet_writes [quiet_simps]:
  assumes "quiet w"
  shows "update_node n w =
      (case find_node (node_Name n) (w_Nodes w) of
         None \<Rightarrow> (Inl NotFound, w)
       | Some cur \<Rightarrow>
           if node_ResourceVersion cur \<noteq> node_ResourceVersion n then (Inl Conflict, w)
           else let new = persist_node (Suc (w_Revision w)) cur n
                in (Inr (), log_write (NodeUpdated cur new) (put_node new w)))"
    and "patch_node old new w =
      (case find_node (node_Name new) (w_Nodes w) of
         None \<Rightarrow> (Inl NotFound, w)
       | Some cur \<Rightarrow>
           let m = merge_node (Suc (w_Revision w)) old new cur
           in (Inr (), log_write (NodePatched old cur m) (put_node m w)))"
    and "patch_workload wold wnew w =
      (case find_workload (wl_Key wnew) (w_Workloads w) of
         None \<Rightarrow> (Inl NotFound, w)
       | Some cur \<Rightarrow>
           let m = merge_workload wold wnew cur
           in (Inr (), log_write (WorkloadPatched wold cur m) (put_workload m w)))"
  using assms by (simp_all add: update_node_def patch_node_def patch_workload_def quiet_call)

lemma run_simps [quiet_simps]:
  "ret a w = (Inr a, w)" "fail e w = (Inl e, w)" "Now w = (Inr (w_Now w), w)"
  "andthen m f w = (case m w of (Inl e, w') \<Rightarrow> (Inl e, w') | (Inr a, w') \<Rightarrow> f a w')"
  "seq m m' w = (case m w of (Inl e, w') \<Rightarrow> (Inl e, w') | (Inr a, w') \<Rightarrow> m' w')"
  "attempt m w = (case m w of (r, w') \<Rightarrow> (Inr r, w'))"
  by (simp_all add: ret_def fail_def Now_def andthen_def seq_def attempt_def)

end
