(* ===== verification/Config.thy ===== *)
theory Config
  imports Objects Float64
begin

text \<open>
  Package \<open>pkg/config\<close>: the operator's knobs, their defaults, the validation every configuration
  passes before the controllers start, and the loading of the optional YAML file over the defaults.
  \<open>k8s.io/apimachinery\<close>'s name validators, the flag parser, the file system and the YAML decoder are
  parameters. A \<open>float64\<close> knob is the rational number the double denotes.
\<close>

datatype DetectionMode =
    DetectionAuto
  | DetectionMessage
  | DetectionReason
  | DetectionOther string

record Weights =
  w_Priority :: rat
  w_PodCount :: rat
  w_Runtime :: rat

record Config =
  cfg_TaintKey :: string
  cfg_DrainTimeout :: duration
  cfg_NudgeInterval :: duration
  cfg_HeroCQLabelKey :: string
  cfg_HeroPriorityClassName :: string
  cfg_GPUResourceName :: string
  cfg_Weights :: Weights
  cfg_RuntimeHalfLife :: duration
  cfg_CrossCQMultiplier :: rat
  cfg_StuckDetection :: DetectionMode
  cfg_DryRun :: bool
  cfg_NonBlockingPodLabels :: "(string \<times> string) list"

definition Default :: Config where
  "Default =
     \<lparr>cfg_TaintKey = ''hero.coreweave.com/taint'',
      cfg_DrainTimeout = 30 * minute,
      cfg_NudgeInterval = 2 * minute,
      cfg_HeroCQLabelKey = ''hero.coreweave.com/enabled'',
      cfg_HeroPriorityClassName = ''hero-critical'',
      cfg_GPUResourceName = ''nvidia.com/gpu'',
      cfg_Weights = \<lparr>w_Priority = fl (7 / 10), w_PodCount = fl (2 / 10), w_Runtime = fl (1 / 10)\<rparr>,
      cfg_RuntimeHalfLife = 6 * hour,
      cfg_CrossCQMultiplier = 5,
      cfg_StuckDetection = DetectionAuto,
      cfg_DryRun = False,
      cfg_NonBlockingPodLabels = []\<rparr>"

subsection \<open>Validation\<close>

text \<open>
  One constructor per message; the source renders them as strings, sorts and joins them, and returns
  an error when there is at least one.
\<close>

datatype config_error =
    BadTaintKey string
  | BadHeroCQLabelKey string
  | EmptyHeroPriorityClassName
  | BadGPUResourceName string
  | DrainTimeoutNotPositive
  | NudgeIntervalNotPositive
  | RuntimeHalfLifeNotPositive
  | NegativeWeights
  | WeightsSum rat
  | CrossCQMultiplierBelowOne
  | BadStuckDetection string
  | BadPodLabelKey string string
  | BadPodLabelValue string string string

text \<open>The checks, with \<open>validation.IsQualifiedName\<close> and \<open>validation.IsValidLabelValue\<close> (each a list
  of complaints) as \<open>qn\<close> and \<open>lv\<close>. \<open>math.Abs(sum-1) > 1e-9\<close> compares doubles.\<close>

definition weights_sum :: "Weights \<Rightarrow> rat" where
  "weights_sum w = fadd (fadd (w_Priority w) (w_PodCount w)) (w_Runtime w)"

definition label_errors :: "(string \<Rightarrow> string list) \<Rightarrow> (string \<Rightarrow> string list)
    \<Rightarrow> string \<times> string \<Rightarrow> config_error list" where
  "label_errors qn lv kv =
     map (BadPodLabelKey (fst kv)) (qn (fst kv)) @ map (BadPodLabelValue (fst kv) (snd kv)) (lv (snd kv))"

definition validation_errors :: "(string \<Rightarrow> string list) \<Rightarrow> (string \<Rightarrow> string list) \<Rightarrow> Config
    \<Rightarrow> config_error list" where
  "validation_errors qn lv c =
     map BadTaintKey (qn (cfg_TaintKey c)) @
     map BadHeroCQLabelKey (qn (cfg_HeroCQLabelKey c)) @
     (if cfg_HeroPriorityClassName c = [] then [EmptyHeroPriorityClassName] else []) @
     map BadGPUResourceName (qn (cfg_GPUResourceName c)) @
     (if cfg_DrainTimeout c \<le> 0 then [DrainTimeoutNotPositive] else []) @
     (if cfg_NudgeInterval c \<le> 0 then [NudgeIntervalNotPositive] else []) @
     (if cfg_RuntimeHalfLife c \<le> 0 then [RuntimeHalfLifeNotPositive] else []) @
     (let w = cfg_Weights c in
        (if w_Priority w < 0 \<or> w_PodCount w < 0 \<or> w_Runtime w < 0 then [NegativeWeights] else []) @
        (if fl (1 / 10 ^ 9) < \<bar>fadd (weights_sum w) (- 1)\<bar> then [WeightsSum (weights_sum w)] else [])) @
     (if cfg_CrossCQMultiplier c < 1 then [CrossCQMultiplierBelowOne] else []) @
     (case cfg_StuckDetection c of
        DetectionAuto \<Rightarrow> [] | DetectionMessage \<Rightarrow> [] | DetectionReason \<Rightarrow> []
      | DetectionOther m \<Rightarrow> [BadStuckDetection m]) @
     concat (map (label_errors qn lv) (cfg_NonBlockingPodLabels c))"

definition Validate :: "(string \<Rightarrow> string list) \<Rightarrow> (string \<Rightarrow> string list) \<Rightarrow> Config
    \<Rightarrow> config_error list + unit" where
  "Validate qn lv c =
     (let errs = validation_errors qn lv c in if errs \<noteq> [] then Inl errs else Inr ())"

text \<open>What a validated configuration guarantees the controllers.\<close>

definition wf_config :: "Config \<Rightarrow> bool" where
  "wf_config c \<longleftrightarrow>
     cfg_HeroPriorityClassName c \<noteq> [] \<and> 0 < cfg_DrainTimeout c \<and> 0 < cfg_NudgeInterval c \<and>
     0 < cfg_RuntimeHalfLife c \<and> 0 \<le> w_Priority (cfg_Weights c) \<and> 0 \<le> w_PodCount (cfg_Weights c) \<and>
     0 \<le> w_Runtime (cfg_Weights c) \<and> 1 \<le> cfg_CrossCQMultiplier c \<and>
     cfg_StuckDetection c \<in> {DetectionAuto, DetectionMessage, DetectionReason}"

lemma validation_errors_wf: "validation_errors qn lv c = [] \<Longrightarrow> wf_config c"
  unfolding validation_errors_def wf_config_def Let_def
  by (simp split: if_splits DetectionMode.splits)

lemma Validate_wf: "Validate qn lv c = Inr () \<Longrightarrow> wf_config c"
  by (simp add: Validate_def Let_def validation_errors_wf split: if_splits)

subsection \<open>Loading\<close>

datatype load_error =
    FlagError string
  | ReadError string
  | ParseError string
  | Invalid "config_error list"

definition loadYAML :: "(string \<Rightarrow> string + string) \<Rightarrow> (string \<Rightarrow> Config \<Rightarrow> (string \<times> Config) + Config)
    \<Rightarrow> string \<Rightarrow> Config \<Rightarrow> (load_error \<times> Config) + Config" where
  "loadYAML read unmarshal path c =
     (case read path of
        Inl e \<Rightarrow> Inl (ReadError e, c)
      | Inr data \<Rightarrow>
          (case unmarshal data c of Inl (e, c') \<Rightarrow> Inl (ParseError e, c') | Inr c' \<Rightarrow> Inr c'))"

text \<open>\<open>parse\<close> gives the value of \<open>--config\<close>; the configuration is returned beside every error.\<close>

definition Load :: "(string \<Rightarrow> string list) \<Rightarrow> (string \<Rightarrow> string list) \<Rightarrow> ('args \<Rightarrow> string + string)
    \<Rightarrow> (string \<Rightarrow> string + string) \<Rightarrow> (string \<Rightarrow> Config \<Rightarrow> (string \<times> Config) + Config)
    \<Rightarrow> 'args \<Rightarrow> (load_error \<times> Config) + Config" where
  "Load qn lv parse read unmarshal args =
     (case parse args of
        Inl e \<Rightarrow> Inl (FlagError e, Default)
      | Inr configPath \<Rightarrow>
          (case (if configPath \<noteq> [] then loadYAML read unmarshal configPath Default else Inr Default) of
             Inl r \<Rightarrow> Inl r
           | Inr c \<Rightarrow> (case Validate qn lv c of Inl errs \<Rightarrow> Inl (Invalid errs, c) | Inr _ \<Rightarrow> Inr c)))"

lemma Load_wf: "Load qn lv parse read unmarshal args = Inr c \<Longrightarrow> wf_config c"
  by (auto simp: Load_def dest: Validate_wf split: sum.splits prod.splits if_splits)

end
