(* ===== verification/Taint.thy ===== *)
theory Taint
  imports Effects Config
begin

text \<open>
  Package \<open>pkg/taint\<close>: the drain taint on nodes. \<open>Owner\<close> reads whose drain a node serves, \<open>EnsureTaint\<close>
  and \<open>RemoveOwnedTaint\<close> write and clear the taint with its three annotations, \<open>NudgeKueue\<close> bumps the
  nudge annotation, \<open>FindDrains\<close> rebuilds every drain in flight from the nodes.

  Lemmas: what each write does to a node, that it touches nothing but the marks of a drain, and that the
  set of drain owners in the cluster only grows by the owner \<open>EnsureTaint\<close> is called for, under any
  interference by actors that do not forge marks.
\<close>

definition OwnerAnnotation :: string where
  "OwnerAnnotation = ''hero.coreweave.com/drain-owner''"
definition StartedAtAnnotation :: string where
  "StartedAtAnnotation = ''hero.coreweave.com/drain-started-at''"
definition NudgeAnnotation :: string where
  "NudgeAnnotation = ''hero.coreweave.com/scheduling-nudge''"
definition maxTaintValueLen :: nat where
  "maxTaintValueLen = 63"

lemma annotation_names_distinct [simp]:
  "OwnerAnnotation \<noteq> StartedAtAnnotation" "StartedAtAnnotation \<noteq> OwnerAnnotation"
  "OwnerAnnotation \<noteq> NudgeAnnotation" "NudgeAnnotation \<noteq> OwnerAnnotation"
  "StartedAtAnnotation \<noteq> NudgeAnnotation" "NudgeAnnotation \<noteq> StartedAtAnnotation"
  by (simp_all add: OwnerAnnotation_def StartedAtAnnotation_def NudgeAnnotation_def)

subsection \<open>Ownership\<close>

definition owner_ref :: "namespaced_name \<Rightarrow> string" where
  "owner_ref k = Namespace k @ ''/'' @ Name k"

definition parse_owner :: "string \<Rightarrow> namespaced_name option" where
  "parse_owner ann =
     (case strings_Cut ann CHR ''/'' of
        None \<Rightarrow> None
      | Some (ns, name) \<Rightarrow> if ns = [] \<or> name = [] then None else Some (NamespacedName ns name))"

definition is_drain_taint :: "string \<Rightarrow> taint \<Rightarrow> bool" where
  "is_drain_taint key t \<longleftrightarrow> taint_Key t = key \<and> taint_Effect t = NoSchedule"

definition Owner :: "node \<Rightarrow> string \<Rightarrow> namespaced_name option" where
  "Owner n key =
     (if \<not> list_ex (is_drain_taint key) (node_Taints n) then None
      else case node_Annotations n OwnerAnnotation of
             None \<Rightarrow> None
           | Some ann \<Rightarrow> parse_owner ann)"

lemma parse_owner_ref: "wf_key k \<Longrightarrow> parse_owner (owner_ref k) = Some k"
  by (cases k) (simp add: wf_key_def parse_owner_def owner_ref_def strings_Cut_append)

lemma parse_owner_wf: "parse_owner s = Some k \<Longrightarrow> wf_key k \<and> s = owner_ref k"
  by (auto simp: parse_owner_def wf_key_def owner_ref_def split: option.splits prod.splits if_splits
      dest: strings_Cut_Some)

lemma owner_ref_inj: "wf_key k \<Longrightarrow> wf_key k' \<Longrightarrow> owner_ref k = owner_ref k' \<Longrightarrow> k = k'"
  by (metis option.inject parse_owner_ref)

lemma owner_ref_nonempty [simp]: "owner_ref k \<noteq> []"
  by (simp add: owner_ref_def)

lemma Owner_Some:
  "Owner n key = Some k \<longleftrightarrow>
     (\<exists>t \<in> set (node_Taints n). is_drain_taint key t) \<and>
     node_Annotations n OwnerAnnotation = Some (owner_ref k) \<and> wf_key k"
  by (auto simp: Owner_def list_ex_iff parse_owner_ref split: option.splits dest: parse_owner_wf)

lemma Owner_cong:
  "node_Taints n = node_Taints m \<Longrightarrow> node_Annotations n OwnerAnnotation = node_Annotations m OwnerAnnotation
     \<Longrightarrow> Owner n key = Owner m key"
  by (simp add: Owner_def)

lemma Owner_update [simp]:
  "Owner (n\<lparr>node_Name := x1\<rparr>) key = Owner n key"
  "Owner (n\<lparr>node_ResourceVersion := x2\<rparr>) key = Owner n key"
  by (simp_all add: Owner_def)

lemma Owner_persist [simp]: "Owner (persist_node rv cur n) key = Owner n key"
  by (simp add: Owner_def persist_node_def)

subsection \<open>EnsureTaint\<close>

definition drain_taint :: "string \<Rightarrow> string \<Rightarrow> taint" where
  "drain_taint key clusterQueue =
     \<lparr>taint_Key = key, taint_Value = clusterQueue, taint_Effect = NoSchedule, taint_TimeAdded = None\<rparr>"

text \<open>The node \<open>EnsureTaint\<close> sends: taint appended, owner recorded, start time kept if there is one.\<close>

definition add_drain_taint :: "string \<Rightarrow> namespaced_name \<Rightarrow> string \<Rightarrow> time \<Rightarrow> node \<Rightarrow> node" where
  "add_drain_taint key owner clusterQueue now n =
     (let anns = (node_Annotations n)(OwnerAnnotation \<mapsto> owner_ref owner) in
      n\<lparr>node_Taints := node_Taints n @ [drain_taint key clusterQueue],
        node_Annotations :=
          (case anns StartedAtAnnotation of
             Some _ \<Rightarrow> anns
           | None \<Rightarrow> anns(StartedAtAnnotation \<mapsto> format_RFC3339 now))\<rparr>)"

definition ensure_on :: "string \<Rightarrow> string \<Rightarrow> namespaced_name \<Rightarrow> string \<Rightarrow> time \<Rightarrow> node \<Rightarrow> unit api" where
  "ensure_on nodeName key owner clusterQueue now n =
     (case find (\<lambda>t. taint_Key t = key) (node_Taints n) of
        Some t \<Rightarrow>
          if mget (node_Annotations n) OwnerAnnotation = owner_ref owner then ret ()
          else fail (ForeignOwner nodeName key (taint_Value t))
      | None \<Rightarrow> update_node (add_drain_taint key owner clusterQueue now n))"

definition EnsureTaint :: "kueue_lib \<Rightarrow> string \<Rightarrow> string \<Rightarrow> namespaced_name \<Rightarrow> string \<Rightarrow> time \<Rightarrow> unit api" where
  "EnsureTaint L nodeName key owner clusterQueue now =
     (if maxTaintValueLen < length clusterQueue then fail (CQNameTooLong clusterQueue)
      else RetryOnConflict (RetrySteps L)
             (andthen (get_node nodeName) (ensure_on nodeName key owner clusterQueue now)))"

subsection \<open>RemoveOwnedTaint\<close>

definition strip_drain_taint :: "string \<Rightarrow> node \<Rightarrow> node" where
  "strip_drain_taint key n =
     n\<lparr>node_Taints := filter (\<lambda>t. \<not> is_drain_taint key t) (node_Taints n),
       node_Annotations := (node_Annotations n)
         (OwnerAnnotation := None, StartedAtAnnotation := None, NudgeAnnotation := None)\<rparr>"

definition remove_on :: "string \<Rightarrow> namespaced_name \<Rightarrow> node \<Rightarrow> bool api" where
  "remove_on key owner n =
     (if mget (node_Annotations n) OwnerAnnotation \<noteq> owner_ref owner then ret False
      else if \<not> list_ex (is_drain_taint key) (node_Taints n) then ret False
      else seq (update_node (strip_drain_taint key n)) (ret True))"

definition RemoveOwnedTaint :: "kueue_lib \<Rightarrow> string \<Rightarrow> string \<Rightarrow> namespaced_name \<Rightarrow> bool api" where
  "RemoveOwnedTaint L nodeName key owner =
     RetryOnConflict (RetrySteps L)
       (andthen (attempt (get_node nodeName)) (\<lambda>r.
          case r of
            Inl e \<Rightarrow> if e = NotFound then ret False else fail e
          | Inr n \<Rightarrow> remove_on key owner n))"

subsection \<open>NudgeKueue\<close>

definition nudge_due :: "node \<Rightarrow> time \<Rightarrow> duration \<Rightarrow> bool" where
  "nudge_due n now minInterval =
     (case parse_RFC3339 (mget (node_Annotations n) NudgeAnnotation) of
        None \<Rightarrow> True
      | Some prev \<Rightarrow> \<not> time_Sub now prev < minInterval)"

definition bump_nudge :: "time \<Rightarrow> node \<Rightarrow> node" where
  "bump_nudge now n = n\<lparr>node_Annotations := (node_Annotations n)(NudgeAnnotation \<mapsto> format_RFC3339 now)\<rparr>"

definition NudgeKueue :: "string \<Rightarrow> time \<Rightarrow> duration \<Rightarrow> bool api" where
  "NudgeKueue nodeName now minInterval =
     andthen (get_node nodeName) (\<lambda>n.
       if \<not> nudge_due n now minInterval then ret False
       else seq (patch_node n (bump_nudge now n)) (ret True))"

subsection \<open>FindDrains\<close>

record Drain =
  drain_Owner :: namespaced_name
  drain_Nodes :: "string list"
  drain_StartedAt :: time

definition started_at :: "node \<Rightarrow> time option" where
  "started_at n =
     (case node_Annotations n StartedAtAnnotation of None \<Rightarrow> None | Some raw \<Rightarrow> parse_RFC3339 raw)"

definition join_drain :: "node \<Rightarrow> Drain \<Rightarrow> Drain" where
  "join_drain n d =
     d\<lparr>drain_Nodes := drain_Nodes d @ [node_Name n],
       drain_StartedAt :=
         (case started_at n of
            None \<Rightarrow> drain_StartedAt d
          | Some t \<Rightarrow> if IsZero (drain_StartedAt d) \<or> t < drain_StartedAt d then t else drain_StartedAt d)\<rparr>"

definition find_drains_step :: "string \<Rightarrow> (namespaced_name \<times> Drain) list \<Rightarrow> node
    \<Rightarrow> (namespaced_name \<times> Drain) list" where
  "find_drains_step key drains n =
     (case Owner n key of
        None \<Rightarrow> drains
      | Some owner \<Rightarrow>
          assoc_update owner (join_drain n)
            \<lparr>drain_Owner = owner, drain_Nodes = [], drain_StartedAt = 0\<rparr> drains)"

definition FindDrains :: "node list \<Rightarrow> string \<Rightarrow> (namespaced_name \<times> Drain) list" where
  "FindDrains nodes key = foldl (find_drains_step key) [] nodes"

subsection \<open>What the writes do to a node\<close>

lemma Owner_add_drain_taint: "wf_key owner \<Longrightarrow> Owner (add_drain_taint key owner cq now n) key = Some owner"
  by (auto simp: Owner_Some add_drain_taint_def is_drain_taint_def drain_taint_def Let_def
      split: option.splits)

lemma Owner_add_drain_taint_cases:
  "Owner (add_drain_taint key owner cq now n) key = Some k \<Longrightarrow> owner_ref k = owner_ref owner"
  by (auto simp: Owner_Some add_drain_taint_def Let_def split: option.splits)

lemma Owner_strip [simp]: "Owner (strip_drain_taint key n) key = None"
  by (simp add: Owner_def strip_drain_taint_def list_ex_iff)

lemma started_at_add:
  "node_Annotations n StartedAtAnnotation = None \<Longrightarrow>
     node_Annotations (add_drain_taint key owner cq now n) StartedAtAnnotation = Some (format_RFC3339 now)"
  by (simp add: add_drain_taint_def Let_def)

text \<open>The marks of a drain: everything else on the node is framed by every write of this package.\<close>

definition drain_annotations :: "string set" where
  "drain_annotations = {OwnerAnnotation, StartedAtAnnotation, NudgeAnnotation}"

definition marks_only :: "string \<Rightarrow> node \<Rightarrow> node \<Rightarrow> bool" where
  "marks_only key cur new \<longleftrightarrow>
     node_Name new = node_Name cur \<and> node_Labels new = node_Labels cur \<and>
     node_ManagedFields new = node_ManagedFields cur \<and>
     node_Unschedulable new = node_Unschedulable cur \<and>
     node_Allocatable new = node_Allocatable cur \<and> node_Conditions new = node_Conditions cur \<and>
     node_Images new = node_Images cur \<and>
     (\<forall>a. a \<notin> drain_annotations \<longrightarrow> node_Annotations new a = node_Annotations cur a) \<and>
     filter (\<lambda>t. \<not> is_drain_taint key t) (node_Taints new)
       = filter (\<lambda>t. \<not> is_drain_taint key t) (node_Taints cur)"

lemma marks_only_persist [simp]:
  "node_Allocatable n = node_Allocatable cur \<Longrightarrow> node_Conditions n = node_Conditions cur \<Longrightarrow>
   node_Images n = node_Images cur \<Longrightarrow>
     marks_only key cur (persist_node rv cur n) = marks_only key cur n"
  by (simp add: marks_only_def persist_node_def)

lemma marks_only_add: "marks_only key n (add_drain_taint key owner cq now n)"
  by (auto simp: marks_only_def add_drain_taint_def drain_annotations_def drain_taint_def
      is_drain_taint_def Let_def split: option.splits)

lemma marks_only_strip: "marks_only key n (strip_drain_taint key n)"
  by (auto simp: marks_only_def strip_drain_taint_def drain_annotations_def)

lemma marks_only_nudge: "marks_only key cur (merge_node rv n (bump_nudge now n) cur)"
  by (auto simp: marks_only_def merge_node_def merge_map_def bump_nudge_def drain_annotations_def)

lemma add_drain_taint_name [simp]:
  "node_Name (add_drain_taint key owner cq now n) = node_Name n"
  "node_ResourceVersion (add_drain_taint key owner cq now n) = node_ResourceVersion n"
  "node_Allocatable (add_drain_taint key owner cq now n) = node_Allocatable n"
  "node_Conditions (add_drain_taint key owner cq now n) = node_Conditions n"
  "node_Images (add_drain_taint key owner cq now n) = node_Images n"
  by (simp_all add: add_drain_taint_def Let_def)

lemma strip_drain_taint_name [simp]:
  "node_Name (strip_drain_taint key n) = node_Name n"
  "node_ResourceVersion (strip_drain_taint key n) = node_ResourceVersion n"
  "node_Allocatable (strip_drain_taint key n) = node_Allocatable n"
  "node_Conditions (strip_drain_taint key n) = node_Conditions n"
  "node_Images (strip_drain_taint key n) = node_Images n"
  by (simp_all add: strip_drain_taint_def)

lemma bump_nudge_name [simp]: "node_Name (bump_nudge now n) = node_Name n"
  by (simp add: bump_nudge_def)

lemma Owner_merge_nudge [simp]: "Owner (merge_node rv n (bump_nudge now n) cur) key = Owner cur key"
  by (rule Owner_cong) (simp_all add: merge_node_def merge_map_def bump_nudge_def)

subsection \<open>FindDrains: the drains are the owners' nodes\<close>

definition owned_names :: "string \<Rightarrow> namespaced_name \<Rightarrow> node list \<Rightarrow> string list" where
  "owned_names key k ns = map node_Name (filter (\<lambda>n. Owner n key = Some k) ns)"

definition wf_drains :: "(namespaced_name \<times> Drain) list \<Rightarrow> bool" where
  "wf_drains ds \<longleftrightarrow> distinct (map fst ds) \<and> (\<forall>(k, d) \<in> set ds. drain_Owner d = k)"

lemma wf_drains_assoc_update:
  assumes "wf_drains ds" "drain_Owner d0 = k" "\<And>d. drain_Owner (f d) = drain_Owner d"
  shows "wf_drains (assoc_update k f d0 ds)"
  using assms unfolding wf_drains_def
  by (auto simp: distinct_assoc_update) (auto simp: assoc_update_def split: if_splits)

lemma wf_drains_step: "wf_drains ds \<Longrightarrow> wf_drains (find_drains_step key ds n)"
  by (simp add: find_drains_step_def wf_drains_assoc_update join_drain_def split: option.splits)

lemma wf_FindDrains: "wf_drains (FindDrains ns key)"
proof -
  have "wf_drains (foldl (find_drains_step key) ds ns)" if "wf_drains ds" for ds
    using that by (induction ns arbitrary: ds) (simp_all add: wf_drains_step)
  from this[of "[]"] show ?thesis by (simp add: FindDrains_def wf_drains_def)
qed

lemma FindDrains_snoc: "FindDrains (ns @ [n]) key = find_drains_step key (FindDrains ns key) n"
  by (simp add: FindDrains_def)

lemma FindDrains_Nil [simp]: "FindDrains [] key = []"
  by (simp add: FindDrains_def)

lemma FindDrains_nodes:
  "map_option drain_Nodes (map_of (FindDrains ns key) k)
     = (if owned_names key k ns = [] then None else Some (owned_names key k ns))"
proof (induction ns rule: rev_induct)
  case (snoc n ns)
  then show ?case
    by (cases "map_of (FindDrains ns key) k"; cases "owned_names key k ns = []")
      (auto simp: FindDrains_snoc find_drains_step_def map_of_assoc_update join_drain_def
        owned_names_def split: option.splits)
qed (simp add: owned_names_def)

lemma FindDrains_None: "map_of (FindDrains ns key) k = None \<longleftrightarrow> (\<forall>n \<in> set ns. Owner n key \<noteq> Some k)"
  using FindDrains_nodes[of ns key k]
  by (cases "map_of (FindDrains ns key) k") (auto simp: owned_names_def filter_empty_conv split: if_splits)

lemma FindDrains_Some:
  "map_of (FindDrains ns key) k = Some d \<Longrightarrow>
     drain_Nodes d = owned_names key k ns \<and> owned_names key k ns \<noteq> [] \<and> drain_Owner d = k"
  using FindDrains_nodes[of ns key k] wf_FindDrains[of ns key]
  by (auto simp: wf_drains_def split: if_splits dest: map_of_SomeD)

lemma FindDrains_keys: "fst ` set (FindDrains ns key) = {k. \<exists>n \<in> set ns. Owner n key = Some k}"
proof -
  have "k \<notin> fst ` set (FindDrains ns key) \<longleftrightarrow> (\<forall>n \<in> set ns. Owner n key \<noteq> Some k)" for k
    using FindDrains_None[of ns key k] by (simp only: map_of_eq_None_iff)
  then show ?thesis by blast
qed

text \<open>Listing only the attributable nodes (the index \<open>NodeDrainTainted\<close>) loses no drain.\<close>

lemma FindDrains_filter: "FindDrains (filter (\<lambda>n. Owner n key \<noteq> None) ns) key = FindDrains ns key"
proof -
  have "foldl (find_drains_step key) ds (filter (\<lambda>n. Owner n key \<noteq> None) ns)
      = foldl (find_drains_step key) ds ns" for ds
    by (induction ns arbitrary: ds) (auto simp: find_drains_step_def)
  then show ?thesis by (simp add: FindDrains_def)
qed

end
