(* ===== verification/Taint_Laws.thy ===== *)
theory Taint_Laws
  imports Taint
begin

text \<open>
  What the writes of \<open>pkg/taint\<close> keep true of the cluster, whatever other actors do between the calls,
  whichever calls fail and however far the caches lag. Two cluster predicates are shown to withstand
  other actors and are interpreted as \<open>world_invariant\<close>s: \<open>owners_in\<close> bounds the heroes that own a drain,
  for actors that do not forge drain marks and a cache of nodes that has caught up when the reconcile
  starts; \<open>versioned\<close> says resource versions identify the content of a node, also of one a lagging cache
  shows, which is what makes the read-modify-write of \<open>EnsureTaint\<close> and \<open>RemoveOwnedTaint\<close> lose no update.
\<close>

subsection \<open>Who owns a drain\<close>

text \<open>Another actor may strip or alter any node, but does not write a drain mark of its own.\<close>

fun honest1 :: "string \<Rightarrow> interference \<Rightarrow> bool" where
  "honest1 key (EditNode nm f) = (\<forall>n. Owner (f n) key = None \<or> Owner (f n) key = Owner n key)"
| "honest1 key (AddNode n) = (Owner n key = None)"
| "honest1 key _ = True"

definition honest_script :: "string \<Rightarrow> world \<Rightarrow> bool" where
  "honest_script key w \<longleftrightarrow> (\<forall>(acts, fault) \<in> set (w_Script w). \<forall>a \<in> set acts. honest1 key a)"

text \<open>
  Which caches the script lets lag: those of the kinds in \<open>K\<close> at will, the others no further back than
  \<open>n\<close> changes before the script starts.
\<close>

fun caught_up :: "kind set \<Rightarrow> nat \<Rightarrow> (interference list \<times> fault option) list \<Rightarrow> bool" where
  "caught_up K n [] = True"
| "caught_up K n ((acts, fault) # s) \<longleftrightarrow>
     (\<forall>l k. fault = Some (Lagging l) \<longrightarrow> k \<notin> K \<longrightarrow> l k \<le> n + length acts) \<and> caught_up K (n + length acts) s"

lemma caught_up_mono: "caught_up K n s \<Longrightarrow> K \<subseteq> K' \<Longrightarrow> caught_up K' n s"
  by (induction K n s rule: caught_up.induct) (simp, simp, blast)

definition node_owners :: "string \<Rightarrow> node list \<Rightarrow> namespaced_name set" where
  "node_owners key ns = {k. \<exists>n \<in> set ns. Owner n key = Some k}"

text \<open>
  The heroes in \<open>S\<close> own all the drains, and whatever the cache of nodes may still show, it shows a node of
  every owner but those in \<open>T\<close>.
\<close>

definition shows_owners :: "string \<Rightarrow> namespaced_name set \<Rightarrow> nat \<Rightarrow> world \<Rightarrow> bool" where
  "shows_owners key T n w \<longleftrightarrow>
     n \<le> length (w_Past w) \<and>
     (\<forall>v \<in> set (take n (w_Past w)). node_owners key (w_Nodes w) - T \<subseteq> node_owners key (v_Nodes v))"

definition owners_in :: "string \<Rightarrow> namespaced_name set \<Rightarrow> namespaced_name set \<Rightarrow> world \<Rightarrow> bool" where
  "owners_in key T S w \<longleftrightarrow>
     node_owners key (w_Nodes w) \<subseteq> S \<and> honest_script key w \<and>
     (\<exists>n. caught_up (- {KNode}) n (w_Script w) \<and> shows_owners key T n w)"

lemma shows_owners_0 [simp]: "shows_owners key T 0 w"
  by (simp add: shows_owners_def)

text \<open>A change that adds no owner outside \<open>T\<close> moves the cluster on, and the past with it.\<close>

lemma shows_owners_step:
  assumes "shows_owners key T n w" "w_Past w' = view_of w # w_Past w"
    and "node_owners key (w_Nodes w') - T \<subseteq> node_owners key (w_Nodes w)"
  shows "shows_owners key T (Suc n) w'" "shows_owners key T n w'"
proof -
  show suc: "shows_owners key T (Suc n) w'"
    using assms by (auto simp: shows_owners_def view_of_def)
  have "set (take n (w_Past w')) \<subseteq> set (take (Suc n) (w_Past w'))" by (simp add: set_take_subset_set_take)
  with suc show "shows_owners key T n w'" by (auto simp: shows_owners_def)
qed

lemma node_owners_put:
  "node_owners key (map (\<lambda>m. if node_Name m = nm then new else m) ns)
     \<subseteq> node_owners key ns \<union> {k. Owner new key = Some k}"
  by (auto simp: node_owners_def)

lemma node_owners_map:
  assumes "\<And>n k. Owner (g n) key = Some k \<Longrightarrow> Owner n key = Some k"
  shows "node_owners key (map g ns) \<subseteq> node_owners key ns"
  unfolding node_owners_def set_map by (blast dest: assms)

lemma node_owners_filter: "node_owners key (filter P ns) \<subseteq> node_owners key ns"
  by (auto simp: node_owners_def)

lemma node_owners_interfere1:
  "honest1 key a \<Longrightarrow> node_owners key (w_Nodes (interfere1 a w)) \<subseteq> node_owners key (w_Nodes w)"
proof (cases a)
  case (EditNode nm f)
  assume h: "honest1 key a"
  have f: "Owner (f n) key = Some k \<Longrightarrow> Owner n key = Some k" for n k
    using h EditNode by (metis honest1.simps(1) option.distinct(1))
  have "Owner (if node_Name n = nm then (f n)\<lparr>node_Name := nm, node_ResourceVersion := rv\<rparr> else n) key
      = Some k \<Longrightarrow> Owner n key = Some k" for n rv k
    by (cases "node_Name n = nm") (auto dest: f)
  then show ?thesis
    unfolding EditNode interfere1.simps set_nodes_simps edit_node_def by (intro node_owners_map) blast
next
  case (AddNode n)
  assume h: "honest1 key a"
  with AddNode show ?thesis by (auto simp: node_owners_def)
qed (simp_all add: node_owners_filter)

lemma interfere1_past [simp]: "w_Past (interfere1 a w) = w_Past w"
  by (cases a) (simp_all add: set_nodes_def)

lemma interfere_owners:
  assumes "\<forall>a \<in> set acts. honest1 key a" "shows_owners key T n w"
  shows "node_owners key (w_Nodes (interfere acts w)) \<subseteq> node_owners key (w_Nodes w) \<and>
     shows_owners key T (n + length acts) (interfere acts w)"
  using assms
proof (induction acts arbitrary: n w)
  case (Cons a acts)
  have run: "interfere (a # acts) w = interfere acts (interfere1 a (remember w))" by (simp add: interfere_def)
  have less: "node_owners key (w_Nodes (interfere1 a (remember w))) \<subseteq> node_owners key (w_Nodes w)"
    using Cons.prems(1) node_owners_interfere1[of key a "remember w"] by simp
  then have "shows_owners key T (Suc n) (interfere1 a (remember w))"
    by (intro shows_owners_step[OF Cons.prems(2)]) auto
  with Cons.IH[OF _ this] Cons.prems(1) less run show ?case by auto
qed (simp add: interfere_def)

lemma owners_in_call:
  assumes "owners_in key T S w" "w_Script w = (acts, fault) # rest"
  defines "w' \<equiv> interfere acts (w\<lparr>w_Script := rest\<rparr>)"
  obtains n where "owners_in key T S w'" "shows_owners key T n w'" "\<And>l. fault = Some (Lagging l) \<Longrightarrow> l KNode \<le> n"
proof -
  let ?w = "w\<lparr>w_Script := rest\<rparr>"
  obtain n where n: "caught_up (- {KNode}) n (w_Script w)" "shows_owners key T n w"
    using assms(1) by (auto simp: owners_in_def)
  have "\<forall>a \<in> set acts. honest1 key a" "honest_script key ?w"
    using assms by (auto simp: owners_in_def honest_script_def)
  moreover from n(2) have "shows_owners key T n ?w" by (simp add: shows_owners_def)
  ultimately have "node_owners key (w_Nodes w') \<subseteq> node_owners key (w_Nodes w)" "honest_script key w'"
    "shows_owners key T (n + length acts) w'"
    using interfere_owners[of acts key T n ?w] by (auto simp: w'_def honest_script_def)
  with assms(1,2) n(1) show ?thesis
    by (intro that[of "n + length acts"]) (auto simp: owners_in_def w'_def)
qed

lemma owners_in_interfere:
  assumes "owners_in key T S w" "w_Script w = (acts, fault) # rest"
  shows "owners_in key T S (interfere acts (w\<lparr>w_Script := rest\<rparr>))"
  using owners_in_call[OF assms] .

interpretation owners: world_invariant "owners_in key T S" for key T S
  by unfold_locales
    (simp_all add: owners_in_interfere, simp_all add: owners_in_def honest_script_def shows_owners_def)

lemma owners_in_log [simp]: "owners_in key T S (log_write x w) = owners_in key T S w"
  by (simp add: owners_in_def honest_script_def shows_owners_def log_write_def)

lemma owners_in_change:
  assumes "owners_in key T S w" "w_Past w' = view_of w # w_Past w" "w_Script w' = w_Script w"
    and "\<And>k. k \<in> node_owners key (w_Nodes w') \<Longrightarrow> k \<in> node_owners key (w_Nodes w) \<or> k \<in> S \<inter> T"
  shows "owners_in key T S w'"
proof -
  obtain n where n: "caught_up (- {KNode}) n (w_Script w)" "shows_owners key T n w"
    using assms(1) by (auto simp: owners_in_def)
  have "shows_owners key T n w'"
    by (rule shows_owners_step(2)[OF n(2) assms(2)]) (use assms(4) in blast)
  moreover have "node_owners key (w_Nodes w') \<subseteq> S"
    using assms(1,4) by (auto simp: owners_in_def)
  ultimately show ?thesis
    using assms(1,3) n(1) by (auto simp: owners_in_def honest_script_def)
qed

lemma owners_in_put_workload: "owners_in key T S w \<Longrightarrow> owners_in key T S (put_workload wl w)"
  by (erule owners_in_change) (simp_all add: put_workload_def)

lemma owners_in_put_node:
  "owners_in key T S w \<Longrightarrow>
     (\<And>k. Owner n key = Some k \<Longrightarrow> k \<in> node_owners key (w_Nodes w) \<or> k \<in> S \<inter> T) \<Longrightarrow>
     owners_in key T S (put_node n w)"
  using node_owners_put[of key "node_Name n" n "w_Nodes w"]
  by (erule_tac owners_in_change) (auto simp: put_node_def set_nodes_def)

lemma owners_update_node [keeps_intro]:
  "(\<And>k. Owner n key = Some k \<Longrightarrow> k \<in> S \<inter> T) \<Longrightarrow> keeps (owners_in key T S) (update_node n)"
  by (rule owners.keeps_update_node) (auto simp: Let_def intro!: owners_in_put_node)

lemma owners_patch_node:
  assumes "node_Annotations old OwnerAnnotation = node_Annotations new OwnerAnnotation"
  shows "keeps (owners_in key T S) (patch_node old new)"
proof (rule owners.keeps_patch_node)
  fix w cur
  assume w: "owners_in key T S w" "find_node (node_Name new) (w_Nodes w) = Some cur"
  have "Owner (merge_node rv old new cur) key = Owner cur key" for rv
    by (rule Owner_cong) (simp_all add: merge_node_def merge_map_def assms)
  moreover have "k \<in> node_owners key (w_Nodes w)" if "Owner cur key = Some k" for k
    using w that by (auto simp: node_owners_def find_node_def dest: find_mem)
  ultimately show "owners_in key T S (let m = merge_node (Suc (w_Revision w)) old new cur
      in log_write (NodePatched old cur m) (put_node m w))"
    using w by (auto simp: Let_def intro!: owners_in_put_node)
qed

lemma owners_patch_workload [keeps_intro]: "keeps (owners_in key T S) (patch_workload old new)"
  by (rule owners.keeps_patch_workload) (simp add: Let_def owners_in_put_workload)

lemmas owners_keeps [keeps_intro] =
  owners.keeps_read owners.keeps_fetch owners.keeps_gets owners.keeps_lists owners.keeps_local

lemma owners_EnsureTaint [keeps_intro]:
  assumes "owner \<in> S" "owner \<in> T" "wf_key owner"
  shows "keeps (owners_in key T S) (EnsureTaint L nm key owner cq now)"
proof -
  have "k \<in> S \<inter> T" if "Owner (add_drain_taint key owner cq now n) key = Some k" for n k
    using that Owner_add_drain_taint[OF assms(3)] assms(1,2) by simp
  then show ?thesis
    unfolding EnsureTaint_def ensure_on_def by (intro keeps_intro)
qed

lemma owners_RemoveOwnedTaint [keeps_intro]: "keeps (owners_in key T S) (RemoveOwnedTaint L nm key owner)"
  unfolding RemoveOwnedTaint_def remove_on_def by (intro keeps_intro) simp

lemma owners_NudgeKueue [keeps_intro]: "keeps (owners_in key T S) (NudgeKueue nm now iv)"
  unfolding NudgeKueue_def
  by (intro keeps_intro owners_patch_node) (simp add: bump_nudge_def)

subsection \<open>Versions and writes\<close>

text \<open>\<open>n\<close> was read: whatever carries its name and version now is \<open>n\<close> itself.\<close>

definition was_read :: "node \<Rightarrow> world \<Rightarrow> bool" where
  "was_read n w \<longleftrightarrow> node_ResourceVersion n \<le> w_Revision w \<and>
     (\<forall>m \<in> set (w_Nodes w). node_Name m = node_Name n \<and> node_ResourceVersion m = node_ResourceVersion n
        \<longrightarrow> m = n)"

text \<open>
  Names are unique, no node is newer than the store's revision, and a node some cache may still show is
  either superseded or the current one; \<open>G\<close> holds of every write so far.
\<close>

definition past_nodes :: "world \<Rightarrow> node set" where
  "past_nodes w = (\<Union>v \<in> set (w_Past w). set (v_Nodes v))"

definition nodes_ok :: "world \<Rightarrow> bool" where
  "nodes_ok w \<longleftrightarrow>
     distinct (map node_Name (w_Nodes w)) \<and> (\<forall>m \<in> set (w_Nodes w). node_ResourceVersion m \<le> w_Revision w)"

definition versions_ok :: "world \<Rightarrow> bool" where
  "versions_ok w \<longleftrightarrow> nodes_ok w \<and> (\<forall>n \<in> past_nodes w. was_read n w)"

definition versioned :: "(api_write \<Rightarrow> bool) \<Rightarrow> world \<Rightarrow> bool" where
  "versioned G w \<longleftrightarrow> versions_ok w \<and> writes_ok G w"

lemma was_read_current: "nodes_ok w \<Longrightarrow> n \<in> set (w_Nodes w) \<Longrightarrow> was_read n w"
  by (auto simp: nodes_ok_def was_read_def distinct_map inj_on_def)

lemma versions_ok_step:
  "versions_ok w \<Longrightarrow> nodes_ok w' \<Longrightarrow> past_nodes w' = past_nodes w \<Longrightarrow> (\<And>n. was_read n w \<Longrightarrow> was_read n w')
     \<Longrightarrow> versions_ok w'"
  by (simp add: versions_ok_def)

lemma past_nodes_simps [simp]:
  "past_nodes (set_nodes ns w) = past_nodes w" "past_nodes (remember w) = set (w_Nodes w) \<union> past_nodes w"
  by (simp_all add: past_nodes_def set_nodes_def view_of_def)

lemma past_interfere1 [simp]: "past_nodes (interfere1 a w) = past_nodes w"
  by (cases a) (simp_all add: past_nodes_def set_nodes_def)

lemma versions_ok_new: "w_Past w = [] \<Longrightarrow> versions_ok w = nodes_ok w"
  by (simp add: versions_ok_def past_nodes_def)

lemma was_read_remember [simp]: "was_read n (remember w) = was_read n w"
  by (simp add: was_read_def)

lemma nodes_ok_remember [simp]: "nodes_ok (remember w) = nodes_ok w"
  by (simp add: nodes_ok_def)

lemma versions_ok_remember [simp]: "versions_ok (remember w) = versions_ok w"
  by (auto simp: versions_ok_def was_read_current)

text \<open>Whatever the cache of nodes shows was read.\<close>

lemma was_read_as_of: "versions_ok w \<Longrightarrow> n \<in> set (w_Nodes (as_of l w)) \<Longrightarrow> was_read n w"
  using behind_mem[of "l KNode" v_Nodes "w_Past w" "w_Nodes w"]
  by (auto simp: as_of_def versions_ok_def past_nodes_def was_read_current)

lemma distinct_names_map:
  assumes "\<And>n. node_Name (g n) = node_Name n"
  shows "distinct (map node_Name (map g ns)) = distinct (map node_Name ns)"
proof -
  have "map node_Name (map g ns) = map node_Name ns" using assms by simp
  then show ?thesis by (simp only:)
qed

lemma nodes_ok_edit:
  "nodes_ok w \<Longrightarrow> nodes_ok (set_nodes (edit_node (Suc (w_Revision w)) nm f (w_Nodes w)) w)"
  using distinct_names_map[of "\<lambda>n. if node_Name n = nm
      then (f n)\<lparr>node_Name := nm, node_ResourceVersion := Suc (w_Revision w)\<rparr> else n" "w_Nodes w"]
  by (auto simp: nodes_ok_def edit_node_def simp del: map_map)

lemma was_read_edit:
  "was_read n w \<Longrightarrow> was_read n (set_nodes (edit_node (Suc (w_Revision w)) nm f (w_Nodes w)) w)"
  by (auto simp: was_read_def edit_node_def)

lemma nodes_ok_interfere1: "nodes_ok w \<Longrightarrow> nodes_ok (interfere1 a w)"
proof (cases a)
  case (EditNode nm f)
  then show "nodes_ok w \<Longrightarrow> ?thesis" by (simp add: nodes_ok_edit)
next
  case (DeleteNode nm)
  then show "nodes_ok w \<Longrightarrow> ?thesis"
    by (auto simp: nodes_ok_def distinct_map inj_on_def)
qed (auto simp: nodes_ok_def)

lemma was_read_interfere1: "was_read n w \<Longrightarrow> was_read n (interfere1 a w)"
proof (cases a)
  case (EditNode nm f)
  then show "was_read n w \<Longrightarrow> ?thesis" by (simp add: was_read_edit)
qed (auto simp: was_read_def)

lemma versions_interfere1:
  assumes "versions_ok w"
  shows "versions_ok (interfere1 a w)"
  using assms
proof (rule versions_ok_step)
  show "nodes_ok (interfere1 a w)" using assms by (simp add: versions_ok_def nodes_ok_interfere1)
qed (simp_all add: was_read_interfere1)

lemma versions_interfere: "versions_ok w \<Longrightarrow> versions_ok (interfere acts w)"
  unfolding interfere_def by (induction acts arbitrary: w) (simp_all add: versions_interfere1)

lemma was_read_interfere: "was_read n w \<Longrightarrow> was_read n (interfere acts w)"
  unfolding interfere_def by (induction acts arbitrary: w) (simp_all add: was_read_interfere1)

lemma was_read_script [simp]: "was_read n (w\<lparr>w_Script := s\<rparr>) = was_read n w"
  by (simp add: was_read_def)

lemma versions_ok_script [simp]: "versions_ok (w\<lparr>w_Script := s\<rparr>) = versions_ok w"
  by (simp add: versions_ok_def nodes_ok_def past_nodes_def)

interpretation versions: world_invariant "versioned G" for G
  by unfold_locales
    (simp_all add: versioned_def versions_interfere writes_ok_def,
     simp_all add: versions_ok_def nodes_ok_def past_nodes_def was_read_def)

interpretation after_read: world_invariant "\<lambda>w. versioned G w \<and> was_read n w" for G n
  by unfold_locales
    (simp_all add: versioned_def versions_interfere was_read_interfere writes_ok_def,
     simp_all add: versions_ok_def nodes_ok_def past_nodes_def was_read_def)

lemma nodes_ok_put_node:
  "nodes_ok w \<Longrightarrow> node_ResourceVersion n = Suc (w_Revision w) \<Longrightarrow> nodes_ok (put_node n w)"
  using distinct_names_map[of "\<lambda>m. if node_Name m = node_Name n then n else m" "w_Nodes w"]
  by (auto simp: nodes_ok_def put_node_def simp del: map_map)

lemma versioned_put_node:
  assumes "versioned G w" "node_ResourceVersion n = Suc (w_Revision w)"
  shows "versioned G (put_node n w)"
proof -
  have keep: "was_read m (put_node n w)" if "was_read m w" for m
    using that assms(2) by (auto simp: was_read_def put_node_def)
  have ok: "nodes_ok w" "\<forall>m \<in> past_nodes w. was_read m w"
    using assms(1) by (simp_all add: versioned_def versions_ok_def)
  have "past_nodes (put_node n w) = set (w_Nodes w) \<union> past_nodes w" by (simp add: put_node_def)
  then have "versions_ok (put_node n w)"
    using ok keep was_read_current[OF ok(1)] nodes_ok_put_node[OF ok(1) assms(2)]
    unfolding versions_ok_def by blast
  with assms(1) show ?thesis by (simp add: versioned_def put_node_def writes_ok_def)
qed

lemma versions_ok_workloads [simp]: "versions_ok (w\<lparr>w_Workloads := wls\<rparr>) = versions_ok w"
  by (simp add: versions_ok_def nodes_ok_def past_nodes_def was_read_def)

lemma versioned_put_workload [simp]: "versioned G (put_workload wl w) = versioned G w"
  by (simp add: versioned_def put_workload_def writes_ok_def)

lemma versioned_log [simp]: "versioned G (log_write x w) \<longleftrightarrow> G x \<and> versioned G w"
  by (auto simp: versioned_def writes_ok_def versions_ok_def nodes_ok_def past_nodes_def was_read_def log_write_def)

lemma triple_get_node:
  "triple (versioned G) (get_node nm) (\<lambda>n w. (versioned G w \<and> was_read n w) \<and> node_Name n = nm) (versioned G)"
  unfolding get_node_def
  by (rule versions.triple_fetch)
    (auto simp: find_node_def versioned_def dest!: find_mem intro: was_read_as_of)

text \<open>The optimistic update: the write goes through only onto the node that was read.\<close>

lemma triple_update_read:
  assumes "\<And>rv. G (NodeUpdated n (persist_node rv n n'))"
    and "node_Name n' = node_Name n" "node_ResourceVersion n' = node_ResourceVersion n"
  shows "triple (\<lambda>w. versioned G w \<and> was_read n w) (update_node n') (\<lambda>_. versioned G) (versioned G)"
proof -
  have "versioned G (log_write (NodeUpdated cur (persist_node (Suc (w_Revision w)) cur n'))
      (put_node (persist_node (Suc (w_Revision w)) cur n') w))"
    if w: "versioned G w" "was_read n w" and "find_node (node_Name n') (w_Nodes w) = Some cur"
      "node_ResourceVersion cur = node_ResourceVersion n'" for w cur
  proof -
    have "cur = n"
      using that assms by (auto simp: was_read_def find_node_def dest!: find_mem)
    with w assms(1) show ?thesis
      by (simp add: persist_node_def versioned_put_node)
  qed
  then show ?thesis
    unfolding update_node_def
    by (intro after_read.triple_call) (auto simp: triple_def Let_def split: option.splits)
qed

lemmas versions_keeps [keeps_intro] =
  versions.keeps_read versions.keeps_fetch versions.keeps_gets versions.keeps_lists versions.keeps_local

lemma keeps_read_modify_write:
  assumes "\<And>n. node_Name n = nm \<Longrightarrow>
      triple (\<lambda>w. versioned G w \<and> was_read n w) (f n) (\<lambda>_. versioned G) (versioned G)"
  shows "keeps (versioned G) (andthen (get_node nm) f)"
  unfolding keeps_triple
proof (rule triple_bind[OF triple_get_node])
  fix n
  show "triple (\<lambda>w. (versioned G w \<and> was_read n w) \<and> node_Name n = nm) (f n) (\<lambda>_. versioned G) (versioned G)"
  proof (cases "node_Name n = nm")
    case True
    from assms[OF this] show ?thesis by (rule triple_weaken) simp_all
  qed (simp add: triple_def)
qed

lemma triple_const:
  "triple (\<lambda>w. versioned G w \<and> was_read n w) (ret a) (\<lambda>_. versioned G) (versioned G)"
  "triple (\<lambda>w. versioned G w \<and> was_read n w) (fail e) (\<lambda>_. versioned G) (versioned G)"
  by (simp_all add: triple_def ret_def fail_def)

lemma triple_andthen_ret:
  "triple P m (\<lambda>_. I) I \<Longrightarrow> triple P (andthen m (\<lambda>_. ret a)) (\<lambda>_. I) I"
  by (erule triple_bind) (simp add: triple_def ret_def)

lemma versioned_EnsureTaint:
  assumes "\<And>n rv. node_Name n = nm \<Longrightarrow> \<forall>t \<in> set (node_Taints n). taint_Key t \<noteq> key \<Longrightarrow>
      G (NodeUpdated n (persist_node rv n (add_drain_taint key owner cq now n)))"
  shows "keeps (versioned G) (EnsureTaint L nm key owner cq now)"
proof -
  have "triple (\<lambda>w. versioned G w \<and> was_read n w) (ensure_on nm key owner cq now n)
      (\<lambda>_. versioned G) (versioned G)" if "node_Name n = nm" for n
    using assms[OF that] unfolding ensure_on_def
    by (auto simp: find_None_iff intro!: triple_const triple_update_read split: option.splits)
  then show ?thesis
    unfolding EnsureTaint_def by (intro keeps_intro keeps_read_modify_write)
qed

lemma RemoveOwnedTaint_loop:
  "RemoveOwnedTaint L nm key owner = RetryOnConflict (RetrySteps L)
     (\<lambda>w. case andthen (get_node nm) (remove_on key owner) w of
        (Inl e, w') \<Rightarrow> if e = NotFound \<and> fst (get_node nm w) = Inl NotFound then (Inr False, w') else (Inl e, w')
      | r \<Rightarrow> r)"
  unfolding RemoveOwnedTaint_def
  by (rule arg_cong[where f = "RetryOnConflict _"], rule ext)
    (auto simp: andthen_def attempt_def ret_def fail_def split: sum.splits prod.splits)

lemma versioned_RemoveOwnedTaint:
  assumes "\<And>n rv. node_Name n = nm \<Longrightarrow> list_ex (is_drain_taint key) (node_Taints n) \<Longrightarrow>
      mget (node_Annotations n) OwnerAnnotation = owner_ref owner \<Longrightarrow>
      G (NodeUpdated n (persist_node rv n (strip_drain_taint key n)))"
  shows "keeps (versioned G) (RemoveOwnedTaint L nm key owner)"
proof -
  have "triple (\<lambda>w. versioned G w \<and> was_read n w) (remove_on key owner n)
      (\<lambda>_. versioned G) (versioned G)" if "node_Name n = nm" for n
    using assms[OF that] unfolding remove_on_def seq_def
    by (auto intro!: triple_const triple_andthen_ret triple_update_read)
  then have "keeps (versioned G) (andthen (get_node nm) (remove_on key owner))"
    by (intro keeps_read_modify_write)
  then show ?thesis
    unfolding RemoveOwnedTaint_loop
    by (intro keeps_RetryOnConflict) (fastforce simp: keeps_def split: sum.splits prod.splits)
qed

lemma versioned_patch_node:
  assumes "\<And>cur rv. node_Name cur = node_Name new \<Longrightarrow> G (NodePatched old cur (merge_node rv old new cur))"
  shows "keeps (versioned G) (patch_node old new)"
  by (rule versions.keeps_patch_node)
    (auto simp: Let_def merge_node_def find_node_def assms[unfolded merge_node_def]
      intro!: versioned_put_node dest: find_mem)

lemma versioned_patch_workload:
  assumes "\<And>cur. wl_Key cur = wl_Key new \<Longrightarrow> G (WorkloadPatched old cur (merge_workload old new cur))"
  shows "keeps (versioned G) (patch_workload old new)"
  by (rule versions.keeps_patch_workload)
    (auto simp: Let_def find_workload_def assms dest: find_mem)

lemma versioned_NudgeKueue:
  assumes "\<And>n cur rv. node_Name cur = node_Name n \<Longrightarrow> G (NodePatched n cur (merge_node rv n (bump_nudge now n) cur))"
  shows "keeps (versioned G) (NudgeKueue nm now iv)"
  unfolding NudgeKueue_def
  by (intro keeps_intro versioned_patch_node) (simp add: assms)

subsection \<open>Undisturbed runs\<close>

text \<open>The node \<open>nm\<close> replaced by \<open>new\<close>, which the server stamps with the next revision.\<close>

lemma find_node_name: "find_node nm ns = Some n \<Longrightarrow> node_Name n = nm"
  by (auto simp: find_node_def dest: find_mem)

lemma Owner_by_mark:
  "wf_key k \<Longrightarrow> mget (node_Annotations n) OwnerAnnotation = owner_ref k \<and> list_ex (is_drain_taint key) (node_Taints n)
     \<longleftrightarrow> Owner n key = Some k"
  using owner_ref_nonempty[of k, symmetric]
  by (auto simp: Owner_Some list_ex_iff mget_def split: option.splits)

lemma quiet_retry: "m w = (r, w') \<Longrightarrow> r \<noteq> Inl Conflict \<Longrightarrow> RetryOnConflict n m w = (r, w')"
  by (cases n) (auto split: sum.splits error.splits)

lemma find_put_node:
  "find_node nm (w_Nodes w) = Some cur \<Longrightarrow> node_Name new = nm \<Longrightarrow>
     find_node nm' (w_Nodes (put_node new w)) = (if nm' = nm then Some new else find_node nm' (w_Nodes w))"
  by (auto simp: put_node_def find_node_def find_map_replace rev_image_eqI dest!: find_mem)

lemma quiet_EnsureTaint:
  assumes "quiet w" "find_node nm (w_Nodes w) = Some n" "length cq \<le> maxTaintValueLen"
    and "\<forall>t \<in> set (node_Taints n). taint_Key t \<noteq> key"
  shows "EnsureTaint L nm key owner cq now w =
     (let new = persist_node (Suc (w_Revision w)) n (add_drain_taint key owner cq now n)
      in (Inr (), log_write (NodeUpdated n new) (put_node new w)))"
proof -
  have "find (\<lambda>t. taint_Key t = key) (node_Taints n) = None"
    using assms(4) by (simp add: find_None_iff)
  then show ?thesis
    unfolding EnsureTaint_def using assms(1-3) find_node_name[OF assms(2)]
    by (simp add: Let_def) (rule quiet_retry, simp_all add: quiet_simps ensure_on_def Let_def)
qed

lemma quiet_EnsureTaint_owned:
  assumes "quiet w" "find_node nm (w_Nodes w) = Some n" "length cq \<le> maxTaintValueLen"
    and "\<exists>t \<in> set (node_Taints n). taint_Key t = key"
  shows "EnsureTaint L nm key owner cq now w =
     (if mget (node_Annotations n) OwnerAnnotation = owner_ref owner then (Inr (), w)
      else (Inl (ForeignOwner nm key
        (taint_Value (the (find (\<lambda>t. taint_Key t = key) (node_Taints n))))), w))"
proof -
  let ?r = "if mget (node_Annotations n) OwnerAnnotation = owner_ref owner then Inr ()
      else Inl (ForeignOwner nm key (taint_Value (the (find (\<lambda>t. taint_Key t = key) (node_Taints n)))))"
  obtain t where t: "find (\<lambda>t. taint_Key t = key) (node_Taints n) = Some t"
    using assms(4) by (cases "find (\<lambda>t. taint_Key t = key) (node_Taints n)") (auto simp: find_None_iff)
  have "ensure_on nm key owner cq now n w = (?r, w)"
    unfolding ensure_on_def t by (simp add: run_simps)
  then have "andthen (get_node nm) (ensure_on nm key owner cq now) w = (?r, w)"
    by (simp only: run_simps(4) quiet_reads(1)[OF assms(1)] assms(2)) simp
  then have "RetryOnConflict (RetrySteps L) (andthen (get_node nm) (ensure_on nm key owner cq now)) w = (?r, w)"
    by (rule quiet_retry) simp
  moreover have "EnsureTaint L nm key owner cq now
      = RetryOnConflict (RetrySteps L) (andthen (get_node nm) (ensure_on nm key owner cq now))"
    using assms(3) by (simp add: EnsureTaint_def)
  ultimately show ?thesis by simp
qed

lemma quiet_RemoveOwnedTaint:
  assumes "quiet w" "find_node nm (w_Nodes w) = Some n"
  shows "RemoveOwnedTaint L nm key owner w =
     (if mget (node_Annotations n) OwnerAnnotation = owner_ref owner \<and> list_ex (is_drain_taint key) (node_Taints n)
      then let new = persist_node (Suc (w_Revision w)) n (strip_drain_taint key n)
           in (Inr True, log_write (NodeUpdated n new) (put_node new w))
      else (Inr False, w))"
  unfolding RemoveOwnedTaint_def using assms find_node_name[OF assms(2)]
  by (simp add: Let_def)
    (intro conjI impI; rule quiet_retry; simp add: quiet_simps remove_on_def Let_def)

lemma quiet_RemoveOwnedTaint_gone:
  "quiet w \<Longrightarrow> find_node nm (w_Nodes w) = None \<Longrightarrow> RemoveOwnedTaint L nm key owner w = (Inr False, w)"
  unfolding RemoveOwnedTaint_def by (rule quiet_retry; simp add: quiet_simps)

lemma quiet_NudgeKueue:
  assumes "quiet w" "find_node nm (w_Nodes w) = Some n"
  shows "NudgeKueue nm now iv w =
     (if nudge_due n now iv
      then let m = merge_node (Suc (w_Revision w)) n (bump_nudge now n) n
           in (Inr True, log_write (NodePatched n n m) (put_node m w))
      else (Inr False, w))"
  using assms find_node_name[OF assms(2)]
  by (simp add: NudgeKueue_def quiet_simps Let_def)

end
