(* ===== verification/Hero.thy ===== *)
theory Hero
  imports Config
begin

text \<open>
  Package \<open>pkg/hero\<close>: which workloads are heroes (\<open>identify.go\<close>), which of them are stuck on a
  topology no-fit (\<open>stuck.go\<close>), which topology levels a drain works at (\<open>topology.go\<close>) and how much
  contiguous capacity it must free (\<open>demand.go\<close>). Pure predicates, no cluster access.
\<close>

subsection \<open>topology.go: the slice pair\<close>

definition RequiresSliceTopology :: "pod_set \<Rightarrow> bool" where
  "RequiresSliceTopology ps =
     (case ps_TopologyRequest ps of
        None \<Rightarrow> False
      | Some tr \<Rightarrow>
          (case (tr_PodSetSliceRequiredTopology tr, tr_PodSetSliceSize tr) of
             (Some level, Some sz) \<Rightarrow> level \<noteq> [] \<and> 0 < sint sz
           | _ \<Rightarrow> False))"

text \<open>\<open>*tr.PodSetSliceRequiredTopology\<close>, read only behind \<open>RequiresSliceTopology\<close>.\<close>

definition slice_level :: "pod_set \<Rightarrow> string" where
  "slice_level ps =
     (case ps_TopologyRequest ps of
        None \<Rightarrow> []
      | Some tr \<Rightarrow> (case tr_PodSetSliceRequiredTopology tr of None \<Rightarrow> [] | Some l \<Rightarrow> l))"

definition add_level :: "string list \<Rightarrow> string \<Rightarrow> string list" where
  "add_level levels l = (if l \<in> set levels then levels else levels @ [l])"

fun RequiredTopologyLevels_loop :: "string list \<Rightarrow> pod_set list \<Rightarrow> string list" where
  "RequiredTopologyLevels_loop levels [] = levels"
| "RequiredTopologyLevels_loop levels (ps # rest) =
     (if \<not> RequiresSliceTopology ps then RequiredTopologyLevels_loop levels rest
      else RequiredTopologyLevels_loop (add_level levels (slice_level ps)) rest)"

definition RequiredTopologyLevels :: "workload \<Rightarrow> string list" where
  "RequiredTopologyLevels wl = RequiredTopologyLevels_loop [] (wl_PodSets wl)"

text \<open>The podset's own \<open>required\<close> level, when it is set and the podset carries the slice pair.\<close>

definition grouping_level_of :: "pod_set \<Rightarrow> string option" where
  "grouping_level_of ps =
     (case ps_TopologyRequest ps of
        None \<Rightarrow> None
      | Some tr \<Rightarrow>
          (case tr_Required tr of
             None \<Rightarrow> None
           | Some r \<Rightarrow> if r = [] \<or> \<not> RequiresSliceTopology ps then None else Some r))"

fun groupingLevels_loop :: "string list \<Rightarrow> pod_set list \<Rightarrow> string list" where
  "groupingLevels_loop levels [] = levels"
| "groupingLevels_loop levels (ps # rest) =
     (case grouping_level_of ps of
        None \<Rightarrow> groupingLevels_loop levels rest
      | Some r \<Rightarrow> groupingLevels_loop (add_level levels r) rest)"

definition groupingLevels :: "workload \<Rightarrow> string list" where
  "groupingLevels wl = groupingLevels_loop [] (wl_PodSets wl)"

text \<open>
  \<open>CoarsestLevel\<close> and \<open>finestLevel\<close> scan the required levels, keep the smallest (largest) index in the
  hierarchy and fail on a level it does not contain; \<open>None\<close> is Go's \<open>("", false)\<close>. The accumulator
  is \<open>best\<close>, \<open>None\<close> for \<open>-1\<close>.
\<close>

fun extreme_level :: "(nat \<Rightarrow> nat \<Rightarrow> bool) \<Rightarrow> nat option \<Rightarrow> string list \<Rightarrow> string list \<Rightarrow> nat option option" where
  "extreme_level better best [] topo = Some best"
| "extreme_level better best (r # rs) topo =
     (case slices_Index topo r of
        None \<Rightarrow> None
      | Some idx \<Rightarrow>
          extreme_level better
            (case best of None \<Rightarrow> Some idx | Some b \<Rightarrow> if better idx b then Some idx else Some b) rs topo)"

definition CoarsestLevel :: "string list \<Rightarrow> string list \<Rightarrow> string option" where
  "CoarsestLevel required topo =
     (case extreme_level (<) None required topo of
        Some (Some best) \<Rightarrow> Some (topo ! best)
      | _ \<Rightarrow> None)"

definition finestLevel :: "string list \<Rightarrow> string list \<Rightarrow> string option" where
  "finestLevel required topo =
     (case extreme_level (>) None required topo of
        Some (Some best) \<Rightarrow> Some (topo ! best)
      | _ \<Rightarrow> None)"

text \<open>
  \<open>GroupingLevel\<close>: \<open>None\<close> is \<open>("", false)\<close>, \<open>Some ''''\<close> is no constraint. The loop keeps the required
  levels at or above the drain level; a level outside the hierarchy ends it.
\<close>

definition at_or_above :: "nat \<Rightarrow> nat option \<Rightarrow> bool" where
  "at_or_above idx drainIdx = (case drainIdx of None \<Rightarrow> False | Some d \<Rightarrow> idx \<le> d)"

fun applicable_levels :: "nat option \<Rightarrow> string list \<Rightarrow> string list \<Rightarrow> string list \<Rightarrow> string list option" where
  "applicable_levels drainIdx acc [] topo = Some acc"
| "applicable_levels drainIdx acc (r # rs) topo =
     (case slices_Index topo r of
        None \<Rightarrow> None
      | Some idx \<Rightarrow>
          applicable_levels drainIdx (if at_or_above idx drainIdx then acc @ [r] else acc) rs topo)"

definition GroupingLevel :: "workload \<Rightarrow> string list \<Rightarrow> string \<Rightarrow> string option" where
  "GroupingLevel wl topo drainLevel =
     (let required = groupingLevels wl in
      if required = [] then Some []
      else case applicable_levels (slices_Index topo drainLevel) [] required topo of
             None \<Rightarrow> None
           | Some applicable \<Rightarrow>
               if applicable = [] then Some [] else finestLevel applicable topo)"

subsection \<open>identify.go\<close>

datatype NotHeroReason =
    ReasonIsHero
  | ReasonCQNotHero
  | ReasonWrongPriorityClass
  | ReasonMissingToleration
  | ReasonNoPriorityClassRef
  | ReasonNoSliceTopology

fun toleratesTaint :: "toleration list \<Rightarrow> taint \<Rightarrow> bool" where
  "toleratesTaint [] taint = False"
| "toleratesTaint (t # ts) taint =
     (if tol_Effect t \<noteq> EffectNone \<and> tol_Effect t \<noteq> taint_Effect taint then toleratesTaint ts taint
      else if tol_Key t \<noteq> [] \<and> tol_Key t \<noteq> taint_Key taint then toleratesTaint ts taint
      else case tol_Operator t of
             TolerationOpExists \<Rightarrow> True
           | OpEmpty \<Rightarrow> if tol_Value t = taint_Value taint then True else toleratesTaint ts taint
           | TolerationOpEqual \<Rightarrow> if tol_Value t = taint_Value taint then True else toleratesTaint ts taint
           | OpOther _ \<Rightarrow> toleratesTaint ts taint)"

text \<open>The podset loop of \<open>IsHero\<close>; the flag is \<open>anySlice\<close>.\<close>

fun check_podsets :: "taint \<Rightarrow> bool \<Rightarrow> pod_set list \<Rightarrow> NotHeroReason" where
  "check_podsets heroTaint anySlice [] = (if \<not> anySlice then ReasonNoSliceTopology else ReasonIsHero)"
| "check_podsets heroTaint anySlice (ps # rest) =
     (if \<not> RequiresSliceTopology ps then check_podsets heroTaint anySlice rest
      else if \<not> toleratesTaint (ps_Tolerations ps) heroTaint then ReasonMissingToleration
      else check_podsets heroTaint True rest)"

definition hero_taint :: "Config \<Rightarrow> cluster_queue \<Rightarrow> taint" where
  "hero_taint cfg cq =
     \<lparr>taint_Key = cfg_TaintKey cfg, taint_Value = cq_Name cq, taint_Effect = NoSchedule,
      taint_TimeAdded = None\<rparr>"

text \<open>\<open>IsHero\<close> returns its reason; the workload is a hero when it is \<open>ReasonIsHero\<close>.\<close>

definition IsHero :: "workload \<Rightarrow> cluster_queue option \<Rightarrow> Config \<Rightarrow> NotHeroReason" where
  "IsHero wl cqo cfg =
     (case cqo of
        None \<Rightarrow> ReasonCQNotHero
      | Some cq \<Rightarrow>
          if mget (cq_Labels cq) (cfg_HeroCQLabelKey cfg) \<noteq> ''true'' then ReasonCQNotHero
          else case wl_PriorityClassRef wl of
                 None \<Rightarrow> ReasonNoPriorityClassRef
               | Some ref \<Rightarrow>
                   if pcr_Kind ref \<noteq> WorkloadPriorityClassKind \<or> pcr_Group ref \<noteq> WorkloadPriorityClassGroup
                      \<or> pcr_Name ref \<noteq> cfg_HeroPriorityClassName cfg
                   then ReasonWrongPriorityClass
                   else check_podsets (hero_taint cfg cq) False (wl_PodSets wl))"

subsection \<open>stuck.go\<close>

definition reasonTopologyPlacementFailed :: string where
  "reasonTopologyPlacementFailed = ''TopologyPlacementFailed''"
definition reasonPending :: string where "reasonPending = ''Pending''"
definition msgCouldntAssignFlavors :: string where
  "msgCouldntAssignFlavors = ''couldn't assign flavors to pod set''"
definition msgTopologyNoFitAny :: string where "msgTopologyNoFitAny = ''doesn't allow to fit''"
definition msgTopologyNoFitPartial :: string where "msgTopologyNoFitPartial = ''allows to fit only''"
definition msgInsufficientUnusedQuota :: string where
  "msgInsufficientUnusedQuota = ''insufficient unused quota''"
definition msgKueuePreempting :: string where "msgKueuePreempting = ''Pending the preemption of''"

lemmas stuck_messages =
  reasonTopologyPlacementFailed_def reasonPending_def msgCouldntAssignFlavors_def
  msgTopologyNoFitAny_def msgTopologyNoFitPartial_def msgInsufficientUnusedQuota_def
  msgKueuePreempting_def

definition messageIsTASNoFit :: "string \<Rightarrow> bool" where
  "messageIsTASNoFit msg =
     (if \<not> strings_Contains msg msgCouldntAssignFlavors then False
      else if strings_Contains msg msgTopologyNoFitAny \<or> strings_Contains msg msgTopologyNoFitPartial
      then True
      else strings_Contains msg msgInsufficientUnusedQuota \<and> \<not> strings_Contains msg msgKueuePreempting)"

definition IsStuckTASNoFit :: "workload \<Rightarrow> DetectionMode \<Rightarrow> bool" where
  "IsStuckTASNoFit wl mode =
     (case FindStatusCondition (wl_Conditions wl) WorkloadQuotaReserved of
        None \<Rightarrow> False
      | Some cond \<Rightarrow>
          if cond_Status cond \<noteq> ConditionFalse then False
          else if IsStatusConditionTrue (wl_Conditions wl) WorkloadFinished then False
          else let byReason = (cond_Reason cond = reasonTopologyPlacementFailed);
                   byMessage = (cond_Reason cond = reasonPending \<and> messageIsTASNoFit (cond_Message cond))
               in (case mode of
                     DetectionReason \<Rightarrow> byReason
                   | DetectionMessage \<Rightarrow> byMessage
                   | _ \<Rightarrow> byReason \<or> byMessage))"

subsection \<open>demand.go\<close>

record Chunk =
  ch_Size :: quantity
  ch_Count :: int

definition container_gpu :: "string \<Rightarrow> container \<Rightarrow> quantity" where
  "container_gpu gpu c =
     (case ctr_Requests c gpu of
        Some q \<Rightarrow> q
      | None \<Rightarrow> (case ctr_Limits c gpu of Some q \<Rightarrow> q | None \<Rightarrow> 0))"

fun sum_containers :: "string \<Rightarrow> quantity \<Rightarrow> container list \<Rightarrow> quantity" where
  "sum_containers gpu acc [] = acc"
| "sum_containers gpu acc (c # cs) = sum_containers gpu (acc + container_gpu gpu c) cs"

definition podGPURequestOf :: "pod_set \<Rightarrow> string \<Rightarrow> quantity" where
  "podGPURequestOf ps gpu = sum_containers gpu 0 (ps_Containers ps)"

text \<open>\<open>for range n { acc.Add(q) }\<close>\<close>

definition add_times :: "int32 \<Rightarrow> quantity \<Rightarrow> quantity" where
  "add_times n q = ((\<lambda>acc. acc + q) ^^ go_range (sint n)) 0"

text \<open>\<open>int((ps.Count + sliceSize - 1) / sliceSize)\<close>: \<open>int32\<close> arithmetic, truncated division.\<close>

definition slice_count :: "int32 \<Rightarrow> int32 \<Rightarrow> int" where
  "slice_count cnt sz = go_quot (sint (cnt + sz - 1)) (sint sz)"

fun merge_chunk :: "Chunk list \<Rightarrow> quantity \<Rightarrow> int \<Rightarrow> Chunk list" where
  "merge_chunk [] sz cnt = [\<lparr>ch_Size = sz, ch_Count = cnt\<rparr>]"
| "merge_chunk (c # cs) sz cnt =
     (if ch_Size c = sz then c\<lparr>ch_Count := ch_Count c + cnt\<rparr> # cs
      else c # merge_chunk cs sz cnt)"

definition appendChunk :: "Chunk list \<Rightarrow> quantity \<Rightarrow> int \<Rightarrow> Chunk list" where
  "appendChunk chunks sz cnt =
     (if sz = 0 \<or> cnt \<le> 0 then chunks else merge_chunk chunks sz cnt)"

text \<open>One podset's contribution to the demand loop.\<close>

definition demand_step :: "string \<Rightarrow> Chunk list \<Rightarrow> pod_set \<Rightarrow> Chunk list" where
  "demand_step gpu chunks ps =
     (case ps_TopologyRequest ps of
        None \<Rightarrow> chunks
      | Some tr \<Rightarrow>
          (case (tr_PodSetSliceRequiredTopology tr, tr_PodSetSliceSize tr) of
             (Some level, Some sliceSize) \<Rightarrow>
               if level = [] \<or> sint sliceSize \<le> 0 then chunks
               else appendChunk chunks (add_times sliceSize (podGPURequestOf ps gpu))
                      (slice_count (ps_Count ps) sliceSize)
           | _ \<Rightarrow> chunks))"

definition Demand :: "workload \<Rightarrow> string \<Rightarrow> Chunk list" where
  "Demand wl gpu = foldl (demand_step gpu) [] (wl_PodSets wl)"

definition podSetGPURequest :: "pod_set \<Rightarrow> string \<Rightarrow> quantity" where
  "podSetGPURequest ps gpu = add_times (ps_Count ps) (podGPURequestOf ps gpu)"

definition GPURequest :: "workload \<Rightarrow> string \<Rightarrow> quantity" where
  "GPURequest wl gpu = foldl (\<lambda>acc ps. acc + podSetGPURequest ps gpu) 0 (wl_PodSets wl)"

definition PodCount :: "workload \<Rightarrow> int32" where
  "PodCount wl = foldl (\<lambda>n ps. n + ps_Count ps) 0 (wl_PodSets wl)"

definition Priority :: "workload \<Rightarrow> int32" where
  "Priority wl = (case wl_Priority wl of Some p \<Rightarrow> p | None \<Rightarrow> 0)"

subsection \<open>Levels: what the scans return\<close>

lemma set_add_level [simp]: "set (add_level levels l) = insert l (set levels)"
  by (auto simp: add_level_def)

lemma distinct_add_level: "distinct levels \<Longrightarrow> distinct (add_level levels l)"
  by (auto simp: add_level_def)

lemma RequiredTopologyLevels_loop_set:
  "set (RequiredTopologyLevels_loop levels pss)
     = set levels \<union> slice_level ` {ps \<in> set pss. RequiresSliceTopology ps}"
  by (induction pss arbitrary: levels) auto

lemma set_RequiredTopologyLevels:
  "set (RequiredTopologyLevels wl) = slice_level ` {ps \<in> set (wl_PodSets wl). RequiresSliceTopology ps}"
  by (simp add: RequiredTopologyLevels_def RequiredTopologyLevels_loop_set)

lemma groupingLevels_loop_set:
  "set (groupingLevels_loop levels pss)
     = set levels \<union> {r. \<exists>ps \<in> set pss. grouping_level_of ps = Some r}"
  by (induction pss arbitrary: levels) (auto split: option.splits)

lemma set_groupingLevels:
  "set (groupingLevels wl) = {r. \<exists>ps \<in> set (wl_PodSets wl). grouping_level_of ps = Some r}"
  by (simp add: groupingLevels_def groupingLevels_loop_set)

text \<open>The scan keeps an index of the scanned levels that no other index beats.\<close>

lemma extreme_level_None: "extreme_level better best rs topo = None \<longleftrightarrow> \<not> set rs \<subseteq> set topo"
proof (induction rs arbitrary: best)
  case (Cons r rs)
  then show ?case by (cases "slices_Index topo r") (auto simp: slices_Index_None[symmetric] simp del: slices_Index_None)
qed simp

lemma extreme_level_pick:
  "set rs \<subseteq> set topo \<Longrightarrow>
     extreme_level better best rs topo
       = Some (pick_loop better best (map (\<lambda>r. the (slices_Index topo r)) rs))"
proof (induction rs arbitrary: best)
  case (Cons r rs)
  then obtain idx where "slices_Index topo r = Some idx"
    by (metis insert_subset list.simps(15) not_Some_eq slices_Index_None)
  with Cons show ?case by simp
qed simp

interpretation coarser: preference "(<) :: nat \<Rightarrow> nat \<Rightarrow> bool" id
  by unfold_locales auto

interpretation finer: preference "(>) :: nat \<Rightarrow> nat \<Rightarrow> bool" id
  by unfold_locales auto

lemma the_index_nth: "r \<in> set topo \<Longrightarrow> topo ! the (slices_Index topo r) = r"
  by (metis not_Some_eq option.sel slices_Index_None slices_Index_Some)

lemma CoarsestLevel_Some:
  assumes "CoarsestLevel required topo = Some l"
  shows "l \<in> set required" "l \<in> set topo" "set required \<subseteq> set topo"
    "\<And>r. r \<in> set required \<Longrightarrow> the (slices_Index topo l) \<le> the (slices_Index topo r)"
proof -
  from assms obtain best where b: "extreme_level (<) None required topo = Some (Some best)"
    and l: "l = topo ! best" by (auto simp: CoarsestLevel_def split: option.splits)
  from b show sub: "set required \<subseteq> set topo" using extreme_level_None[of "(<)" None required topo] by simp
  let ?idx = "\<lambda>r. the (slices_Index topo r)"
  from b sub have p: "pick (<) (map ?idx required) = Some best" by (simp add: extreme_level_pick)
  then obtain r where r: "r \<in> set required" "best = ?idx r" using pick_mem by fastforce
  then have "l = r" using sub l the_index_nth[of r topo] by auto
  with r sub show "l \<in> set required" "l \<in> set topo" by auto
  show "?idx l \<le> ?idx r'" if "r' \<in> set required" for r'
    using coarser.pick_best[OF p, of "?idx r'"] that r \<open>l = r\<close> by (simp add: not_less)
qed

lemma finestLevel_Some:
  assumes "finestLevel required topo = Some l"
  shows "l \<in> set required" "l \<in> set topo" "set required \<subseteq> set topo"
    "\<And>r. r \<in> set required \<Longrightarrow> the (slices_Index topo r) \<le> the (slices_Index topo l)"
proof -
  from assms obtain best where b: "extreme_level (>) None required topo = Some (Some best)"
    and l: "l = topo ! best" by (auto simp: finestLevel_def split: option.splits)
  from b show sub: "set required \<subseteq> set topo" using extreme_level_None[of "(>)" None required topo] by simp
  let ?idx = "\<lambda>r. the (slices_Index topo r)"
  from b sub have p: "pick (>) (map ?idx required) = Some best" by (simp add: extreme_level_pick)
  then obtain r where r: "r \<in> set required" "best = ?idx r" using pick_mem by fastforce
  then have "l = r" using sub l the_index_nth[of r topo] by auto
  with r sub show "l \<in> set required" "l \<in> set topo" by auto
  show "?idx r' \<le> ?idx l" if "r' \<in> set required" for r'
    using finer.pick_best[OF p, of "?idx r'"] that r \<open>l = r\<close> by (simp add: not_less)
qed

lemma CoarsestLevel_None:
  "CoarsestLevel required topo = None \<longleftrightarrow> required = [] \<or> \<not> set required \<subseteq> set topo"
proof (cases "set required \<subseteq> set topo")
  case True
  then show ?thesis
    by (cases "pick (<) (map (\<lambda>r. the (slices_Index topo r)) required)")
      (auto simp: CoarsestLevel_def extreme_level_pick)
next
  case False
  then show ?thesis by (auto simp: CoarsestLevel_def extreme_level_None[THEN iffD2])
qed

lemma applicable_levels_Some:
  "applicable_levels di acc rs topo = Some out \<Longrightarrow>
     set rs \<subseteq> set topo \<and>
     out = acc @ filter (\<lambda>r. at_or_above (the (slices_Index topo r)) di) rs"
proof (induction rs arbitrary: acc)
  case (Cons r rs)
  then obtain idx where idx: "slices_Index topo r = Some idx"
    by (auto split: option.splits)
  then have "r \<in> set topo" by (metis option.simps(3) slices_Index_None)
  from Cons.prems idx
  have "applicable_levels di (if at_or_above idx di then acc @ [r] else acc) rs topo = Some out"
    by simp
  from Cons.IH[OF this] idx \<open>r \<in> set topo\<close> show ?case by auto
qed simp

lemma applicable_levels_None:
  "applicable_levels di acc rs topo = None \<longleftrightarrow> \<not> set rs \<subseteq> set topo"
proof (induction rs arbitrary: acc)
  case (Cons r rs)
  then show ?case
    by (cases "slices_Index topo r") (auto simp: slices_Index_None[symmetric] simp del: slices_Index_None)
qed simp

subsection \<open>Identification: every branch\<close>

definition tolerates :: "toleration \<Rightarrow> taint \<Rightarrow> bool" where
  "tolerates t taint \<longleftrightarrow>
     (tol_Effect t = EffectNone \<or> tol_Effect t = taint_Effect taint) \<and>
     (tol_Key t = [] \<or> tol_Key t = taint_Key taint) \<and>
     (tol_Operator t = TolerationOpExists \<or>
      ((tol_Operator t = OpEmpty \<or> tol_Operator t = TolerationOpEqual) \<and> tol_Value t = taint_Value taint))"

lemma toleratesTaint_iff: "toleratesTaint ts taint \<longleftrightarrow> (\<exists>t \<in> set ts. tolerates t taint)"
  by (induction ts) (auto simp: tolerates_def split: toleration_op.splits)

lemma check_podsets_hero:
  "check_podsets ht any pss = ReasonIsHero \<longleftrightarrow>
     (any \<or> (\<exists>ps \<in> set pss. RequiresSliceTopology ps)) \<and>
     (\<forall>ps \<in> set pss. RequiresSliceTopology ps \<longrightarrow> toleratesTaint (ps_Tolerations ps) ht)"
  by (induction pss arbitrary: any) auto

lemma check_podsets_reason:
  "check_podsets ht any pss \<in> {ReasonIsHero, ReasonMissingToleration, ReasonNoSliceTopology}"
  by (induction pss arbitrary: any) auto

lemma IsHero_hero_class:
  "IsHero wl cqo cfg = ReasonIsHero \<Longrightarrow>
     \<exists>ref. wl_PriorityClassRef wl = Some ref \<and> pcr_Name ref = cfg_HeroPriorityClassName cfg"
  by (auto simp: IsHero_def split: option.splits if_splits)

lemma IsHero_queue: "IsHero wl cqo cfg = ReasonIsHero \<Longrightarrow> cqo \<noteq> None"
  by (auto simp: IsHero_def split: option.splits)

subsection \<open>Demand\<close>

lemma sum_containers_sum: "sum_containers gpu t cs = t + sum_list (map (container_gpu gpu) cs)"
  by (induction cs arbitrary: t) auto

lemma podGPURequestOf_sum: "podGPURequestOf ps gpu = sum_list (map (container_gpu gpu) (ps_Containers ps))"
  by (simp add: podGPURequestOf_def sum_containers_sum)

lemma funpow_add_const: "((\<lambda>t. t + q) ^^ n) (s :: int) = s + int n * q"
  by (induction n) (simp_all add: algebra_simps)

lemma add_times_mult: "add_times n q = max 0 (sint n) * q"
  by (simp add: add_times_def go_range_def funpow_add_const max_def)

lemma merge_chunk_sizes:
  "ch_Size ` set (merge_chunk cs sz n) = insert sz (ch_Size ` set cs)"
  by (induction cs) auto

lemma merge_chunk_distinct:
  "distinct (map ch_Size cs) \<Longrightarrow> distinct (map ch_Size (merge_chunk cs sz n))"
proof (induction cs)
  case (Cons c cs)
  then show ?case using merge_chunk_sizes[of cs sz n] by auto
qed simp

definition demand_total :: "Chunk list \<Rightarrow> int" where
  "demand_total cs = sum_list (map (\<lambda>c. ch_Count c * ch_Size c) cs)"

lemma merge_chunk_total: "demand_total (merge_chunk cs sz n) = demand_total cs + n * sz"
  by (induction cs) (auto simp: demand_total_def algebra_simps)

definition wf_chunks :: "Chunk list \<Rightarrow> bool" where
  "wf_chunks cs \<longleftrightarrow> distinct (map ch_Size cs) \<and> (\<forall>c \<in> set cs. ch_Size c \<noteq> 0 \<and> 0 < ch_Count c)"

lemma wf_chunks_merge: "wf_chunks cs \<Longrightarrow> sz \<noteq> 0 \<Longrightarrow> 0 < n \<Longrightarrow> wf_chunks (merge_chunk cs sz n)"
proof -
  assume a: "wf_chunks cs" "sz \<noteq> 0" "0 < n"
  then have "\<forall>c \<in> set (merge_chunk cs sz n). ch_Size c \<noteq> 0 \<and> 0 < ch_Count c"
    unfolding wf_chunks_def by (induction cs) auto
  with a show ?thesis by (simp add: wf_chunks_def merge_chunk_distinct)
qed

lemma wf_chunks_append: "wf_chunks cs \<Longrightarrow> wf_chunks (appendChunk cs sz n)"
  by (simp add: appendChunk_def wf_chunks_merge)

lemma wf_chunks_Demand: "wf_chunks (Demand wl gpu)"
proof -
  have "wf_chunks (foldl (demand_step gpu) cs pss)" if "wf_chunks cs" for cs pss
    using that
  proof (induction pss arbitrary: cs)
    case (Cons ps pss)
    then have "wf_chunks (demand_step gpu cs ps)"
      by (auto simp: demand_step_def wf_chunks_append split: option.splits)
    with Cons show ?case by simp
  qed simp
  moreover have "wf_chunks []" by (simp add: wf_chunks_def)
  ultimately show ?thesis unfolding Demand_def by blast
qed

text \<open>Without \<open>int32\<close> overflow the slice cnt is the ceiling of pods over slice size.\<close>

lemma slice_count_ceil:
  assumes "0 < sint sz" "0 \<le> sint cnt" "sint cnt + sint sz \<le> 2 ^ 31"
  shows "slice_count cnt sz = (sint cnt + sint sz - 1) div sint sz"
proof -
  have "sint (cnt + sz - 1) = sint cnt + sint sz - 1"
    using assms sint_int32_of_int[of "sint cnt + sint sz - 1"] by simp
  with assms show ?thesis by (simp add: slice_count_def go_quot_nonneg)
qed

end
