(* ===== verification/Victims.thy ===== *)
theory Victims
  imports Taint_Laws Hero
begin

text \<open>
  Packages \<open>pkg/victims\<close> and \<open>pkg/index\<close>. The suspend marker on victim workloads, \<open>Reactivate\<close> which
  clears it and \<open>SweepFor\<close> which hands back every victim of a drain; the field indexes the controllers
  list by, as functions from an object to its index values.

  Lemmas: each index selects exactly the objects its comment names, a sweep in an undisturbed cluster
  reactivates exactly the workloads marked for the drain, and neither operation touches a node.
\<close>

subsection \<open>pkg/victims: the marker\<close>

definition DeactivatedForAnnotation :: string where
  "DeactivatedForAnnotation = ''hero.coreweave.com/deactivated-for''"
definition EventReactivated :: string where
  "EventReactivated = ''ReactivatedAfterHeroDrain''"

definition OwnerRef :: "namespaced_name \<Rightarrow> string" where
  "OwnerRef owner = Namespace owner @ ''/'' @ Name owner"

lemma OwnerRef_owner_ref: "OwnerRef k = owner_ref k"
  by (simp add: OwnerRef_def owner_ref_def)

subsection \<open>pkg/index\<close>

definition index_true :: string where
  "index_true = ''true''"

definition MatchingFields :: "('a \<Rightarrow> string list) \<Rightarrow> string \<Rightarrow> 'a \<Rightarrow> bool" where
  "MatchingFields field v obj \<longleftrightarrow> v \<in> set (field obj)"

definition NodeDrainTainted :: "Config \<Rightarrow> node \<Rightarrow> string list" where
  "NodeDrainTainted cfg n = (case Owner n (cfg_TaintKey cfg) of None \<Rightarrow> [] | Some _ \<Rightarrow> [index_true])"

definition NodeDrainOwner :: "Config \<Rightarrow> node \<Rightarrow> string list" where
  "NodeDrainOwner cfg n = (case Owner n (cfg_TaintKey cfg) of None \<Rightarrow> [] | Some k \<Rightarrow> [OwnerRef k])"

definition PodNode :: "pod \<Rightarrow> string list" where
  "PodNode p = (if pod_NodeName p = [] then [] else [pod_NodeName p])"

definition PodWorkload :: "pod \<Rightarrow> string list" where
  "PodWorkload p = (case pod_Annotations p WorkloadAnnotation of None \<Rightarrow> [] | Some wl \<Rightarrow> [wl])"

definition WorkloadStuck :: "Config \<Rightarrow> workload \<Rightarrow> string list" where
  "WorkloadStuck cfg wl = (if \<not> IsStuckTASNoFit wl (cfg_StuckDetection cfg) then [] else [index_true])"

definition WorkloadDeactivatedFor :: "workload \<Rightarrow> string list" where
  "WorkloadDeactivatedFor wl =
     (case wl_Annotations wl DeactivatedForAnnotation of None \<Rightarrow> [] | Some owner \<Rightarrow> [owner])"

lemma singleton_index: "v \<in> set (case x of None \<Rightarrow> [] | Some _ \<Rightarrow> [v]) \<longleftrightarrow> x \<noteq> None"
  by (cases x) simp_all

lemma index_selects [simp]:
  "MatchingFields (NodeDrainTainted cfg) index_true = (\<lambda>n. Owner n (cfg_TaintKey cfg) \<noteq> None)"
  "MatchingFields PodNode nm = (\<lambda>p. nm \<noteq> [] \<and> pod_NodeName p = nm)"
  "MatchingFields PodWorkload nm = (\<lambda>p. pod_Annotations p WorkloadAnnotation = Some nm)"
  "MatchingFields (WorkloadStuck cfg) index_true = (\<lambda>wl. IsStuckTASNoFit wl (cfg_StuckDetection cfg))"
  "MatchingFields WorkloadDeactivatedFor r = (\<lambda>wl. wl_Annotations wl DeactivatedForAnnotation = Some r)"
  unfolding fun_eq_iff MatchingFields_def NodeDrainTainted_def PodNode_def PodWorkload_def
    WorkloadStuck_def WorkloadDeactivatedFor_def
  by (simp only: singleton_index simp_thms) (auto split: option.split)

lemma index_drain_owner:
  assumes "wf_key k"
  shows "MatchingFields (NodeDrainOwner cfg) (OwnerRef k) = (\<lambda>n. Owner n (cfg_TaintKey cfg) = Some k)"
proof
  fix n
  show "MatchingFields (NodeDrainOwner cfg) (OwnerRef k) n = (Owner n (cfg_TaintKey cfg) = Some k)"
  proof (cases "Owner n (cfg_TaintKey cfg)")
    case (Some k')
    then have "wf_key k'" by (simp add: Owner_Some)
    with assms Some show ?thesis
      by (auto simp: MatchingFields_def NodeDrainOwner_def OwnerRef_owner_ref owner_ref_inj)
  qed (simp add: MatchingFields_def NodeDrainOwner_def)
qed

subsection \<open>pkg/victims: Reactivate and SweepFor\<close>

definition reactivated :: "workload \<Rightarrow> workload" where
  "reactivated v =
     v\<lparr>wl_Active := Some True, wl_Annotations := (wl_Annotations v)(DeactivatedForAnnotation := None)\<rparr>"

definition Reactivate :: "workload \<Rightarrow> unit api" where
  "Reactivate v =
     seq (patch_workload v (reactivated v))
       (seq (count_metric inc_reactivated)
         (emit (wl_Key v) EventTypeNormal EventReactivated []))"

definition SweepFor :: "namespaced_name \<Rightarrow> int api" where
  "SweepFor owner =
     andthen (list_workloads (MatchingFields WorkloadDeactivatedFor (OwnerRef owner))) (\<lambda>ours.
       loop_over ours 0 (\<lambda>swept v. seq (Reactivate v) (ret (swept + 1))))"

lemma reactivated_key [simp]: "wl_Key (reactivated v) = wl_Key v"
  by (simp add: reactivated_def)

lemma merge_reactivated:
  "wl_Active v \<noteq> Some True \<or> v = cur \<Longrightarrow>
     wl_Active (merge_workload v (reactivated v) cur) = Some True"
  by (auto simp: merge_workload_def reactivated_def)

lemma merge_reactivated_same [simp]: "merge_workload v (reactivated v) v = reactivated v"
proof -
  have "merge_map m (m(k := None)) m = m(k := None)" for m :: smap and k
    by (auto simp: merge_map_def)
  then show ?thesis by (simp add: merge_workload_def reactivated_def)
qed

lemma owners_Reactivate [keeps_intro]: "keeps (owners_in key T S) (Reactivate v)"
  unfolding Reactivate_def by (intro keeps_intro)

lemma owners_SweepFor [keeps_intro]: "keeps (owners_in key T S) (SweepFor owner)"
  unfolding SweepFor_def by (intro keeps_intro)

lemma versioned_Reactivate:
  assumes "\<And>cur. wl_Key cur = wl_Key v \<Longrightarrow> G (WorkloadPatched v cur (merge_workload v (reactivated v) cur))"
  shows "keeps (versioned G) (Reactivate v)"
  unfolding Reactivate_def by (intro keeps_intro versioned_patch_workload) (simp add: assms)

lemma versioned_SweepFor:
  assumes "\<And>v cur. wl_Key cur = wl_Key v \<Longrightarrow> G (WorkloadPatched v cur (merge_workload v (reactivated v) cur))"
  shows "keeps (versioned G) (SweepFor owner)"
  unfolding SweepFor_def by (intro keeps_intro versioned_Reactivate) (simp add: assms)

subsection \<open>A sweep in an undisturbed cluster\<close>

lemma find_workload_member:
  "distinct (map wl_Key wls) \<Longrightarrow> v \<in> set wls \<Longrightarrow> find_workload (wl_Key v) wls = Some v"
  by (simp add: find_workload_def find_unique)

definition same_but_workloads :: "world \<Rightarrow> world \<Rightarrow> bool" where
  "same_but_workloads w w' \<longleftrightarrow>
     w_Nodes w' = w_Nodes w \<and> w_Pods w' = w_Pods w \<and> w_Now w' = w_Now w \<and>
     w_Script w' = w_Script w \<and> w_Revision w' = w_Revision w \<and> w_NudgeChan w' = w_NudgeChan w \<and>
     DrainsCompleted (w_Metrics w') = DrainsCompleted (w_Metrics w) \<and>
     DrainsTimedOut (w_Metrics w') = DrainsTimedOut (w_Metrics w)"

lemma same_but_workloads_trans:
  "same_but_workloads u v \<Longrightarrow> same_but_workloads v w \<Longrightarrow> same_but_workloads u w"
  by (simp add: same_but_workloads_def)

lemma quiet_Reactivate:
  assumes "quiet w" "distinct (map wl_Key (w_Workloads w))" "v \<in> set (w_Workloads w)"
  shows "\<exists>w'. Reactivate v w = (Inr (), w') \<and> same_but_workloads w w' \<and>
     w_Workloads w' = map (\<lambda>x. if x = v then reactivated v else x) (w_Workloads w) \<and>
     VictimsReactivated (w_Metrics w') = Suc (VictimsReactivated (w_Metrics w))"
proof -
  have "find_workload (wl_Key v) (w_Workloads w) = Some v"
    using assms find_workload_member by blast
  moreover have "map (\<lambda>x. if wl_Key x = wl_Key v then reactivated v else x) (w_Workloads w)
      = map (\<lambda>x. if x = v then reactivated v else x) (w_Workloads w)"
    using assms(2,3) by (auto simp: distinct_map inj_on_def)
  ultimately show ?thesis
    using assms(1)
    by (simp add: Reactivate_def quiet_simps Let_def count_metric_def emit_def inc_reactivated_def
        log_write_def put_workload_def same_but_workloads_def)
qed

lemma quiet_sweep_loop:
  assumes "quiet w" "distinct (map wl_Key (w_Workloads w))" "set vs \<subseteq> set (w_Workloads w)" "distinct vs"
  shows "\<exists>w'. loop_over vs s (\<lambda>swept v. seq (Reactivate v) (ret (swept + 1))) w = (Inr (s + int (length vs)), w') \<and>
     same_but_workloads w w' \<and>
     w_Workloads w' = map (\<lambda>x. if x \<in> set vs then reactivated x else x) (w_Workloads w)"
  using assms
proof (induction vs arbitrary: s w)
  case Nil
  then show ?case by (simp add: ret_def same_but_workloads_def)
next
  case (Cons v vs)
  then obtain w1 where w1: "Reactivate v w = (Inr (), w1)" "same_but_workloads w w1"
    "w_Workloads w1 = map (\<lambda>x. if x = v then reactivated v else x) (w_Workloads w)"
    using quiet_Reactivate[of w v] by auto
  have keys: "map wl_Key (w_Workloads w1) = map wl_Key (w_Workloads w)"
    by (simp add: w1)
  have "set vs \<subseteq> set (w_Workloads w1)"
    using Cons.prems by (auto simp: w1)
  with Cons.IH[of w1 "s + 1"] Cons.prems w1(2) obtain w2 where w2:
    "loop_over vs (s + 1) (\<lambda>swept v. seq (Reactivate v) (ret (swept + 1))) w1
       = (Inr (s + 1 + int (length vs)), w2)" "same_but_workloads w1 w2"
    "w_Workloads w2 = map (\<lambda>x. if x \<in> set vs then reactivated x else x) (w_Workloads w1)"
    unfolding keys by (auto simp: quiet_def same_but_workloads_def)
  have "reactivated v \<notin> set vs"
  proof
    assume "reactivated v \<in> set vs"
    moreover from this have "reactivated v \<in> set (w_Workloads w)" "v \<in> set (w_Workloads w)"
      using Cons.prems by auto
    then have "reactivated v = v"
      using Cons.prems(2) by (metis distinct_map inj_on_def reactivated_key)
    ultimately show False using Cons.prems(4) by simp
  qed
  then have "w_Workloads w2 = map (\<lambda>x. if x \<in> set (v # vs) then reactivated x else x) (w_Workloads w)"
    using Cons.prems(4) by (auto simp: w2 w1)
  moreover have "seq (Reactivate v) (ret (s + 1)) w = (Inr (s + 1), w1)"
    by (simp add: run_simps w1)
  then have "loop_over (v # vs) s (\<lambda>swept v. seq (Reactivate v) (ret (swept + 1))) w
      = (Inr (s + int (length (v # vs))), w2)"
    using w2(1) by (simp add: andthen_def)
  ultimately show ?case
    using same_but_workloads_trans[OF w1(2) w2(2)] by blast
qed

lemma quiet_SweepFor:
  assumes "quiet w" "distinct (map wl_Key (w_Workloads w))"
  shows "\<exists>w'. SweepFor owner w = (Inr (int (length (filter (\<lambda>x. wl_Annotations x DeactivatedForAnnotation
        = Some (OwnerRef owner)) (w_Workloads w)))), w') \<and> same_but_workloads w w' \<and>
     w_Workloads w' = map (\<lambda>x. if wl_Annotations x DeactivatedForAnnotation = Some (OwnerRef owner)
        then reactivated x else x) (w_Workloads w)"
proof -
  let ?vs = "filter (\<lambda>x. wl_Annotations x DeactivatedForAnnotation = Some (OwnerRef owner)) (w_Workloads w)"
  have "distinct ?vs" using assms(2) by (auto simp: distinct_map)
  then obtain w' where w': "loop_over ?vs (0::int) (\<lambda>swept v. seq (Reactivate v) (ret (swept + 1))) w
       = (Inr (int (length ?vs)), w')" "same_but_workloads w w'"
    "w_Workloads w' = map (\<lambda>x. if x \<in> set ?vs then reactivated x else x) (w_Workloads w)"
    using quiet_sweep_loop[OF assms, of ?vs 0] by auto
  then have "SweepFor owner w = (Inr (int (length ?vs)), w')"
    using assms(1) by (simp add: SweepFor_def run_simps quiet_reads)
  moreover have "w_Workloads w' = map (\<lambda>x. if wl_Annotations x DeactivatedForAnnotation = Some (OwnerRef owner)
        then reactivated x else x) (w_Workloads w)"
    by (auto simp: w'(3))
  ultimately show ?thesis using w'(2) by blast
qed

end
