(* ===== verification/Snapshot.thy ===== *)
theory Snapshot
  imports Taint
begin

text \<open>
  Package \<open>pkg/snapshot\<close>: node, pod and hero state sliced at one topology level into domains with
  capacity, victims and hero occupancy. The \<open>map[string]*Domain\<close> is an association list in order of
  insertion. Indexing into a decoded domain's values may panic in Go; \<open>Build\<close> is then \<open>None\<close>.

  Lemmas: \<open>Build\<close> never panics on decoded assignments with one value per level, and what it returns
  is described domain by domain; the declarative specification is in \<open>Snapshot_Spec\<close>.
\<close>

subsection \<open>classify.go\<close>

datatype podClass = podVictim | podNonReclaimable | podNonBlocking

definition classify :: "pod \<Rightarrow> Config \<Rightarrow> podClass" where
  "classify p cfg =
     (if pod_Annotations p WorkloadAnnotation \<noteq> None then podVictim
      else if list_ex (\<lambda>(k, v). mget (pod_Labels p) k = v) (cfg_NonBlockingPodLabels cfg)
      then podNonBlocking
      else podNonReclaimable)"

subsection \<open>snapshot.go: data\<close>

record Victim =
  vic_Pod :: namespaced_name
  vic_Node :: string
  vic_Workload :: namespaced_name
  vic_GPURequest :: quantity

record Domain =
  d_ID :: string
  d_Group :: string
  d_Nodes :: "string list"
  d_AllocatableGPU :: quantity
  d_NonReclaimableGPU :: quantity
  d_Victims :: "Victim list"
  d_HasOtherHero :: bool

record Snapshot =
  s_Level :: string
  s_Domains :: "(string \<times> Domain) list"

record Input =
  in_Level :: string
  in_GroupLevel :: string
  in_Nodes :: "node list"
  in_Pods :: "pod list"
  in_OtherHeroes :: "workload list"
  in_Self :: namespaced_name
  in_Cfg :: Config

definition new_domain :: "string \<Rightarrow> Domain" where
  "new_domain did =
     \<lparr>d_ID = did, d_Group = [], d_Nodes = [], d_AllocatableGPU = 0, d_NonReclaimableGPU = 0,
      d_Victims = [], d_HasOtherHero = False\<rparr>"

text \<open>\<open>s.domain(did)\<close> followed by an update through the pointer.\<close>

definition update_domain :: "string \<Rightarrow> (Domain \<Rightarrow> Domain) \<Rightarrow> (string \<times> Domain) list \<Rightarrow> (string \<times> Domain) list" where
  "update_domain did f doms = assoc_update did f (new_domain did) doms"

subsection \<open>snapshot.go: usability\<close>

text \<open>The loop keeps the last Ready condition.\<close>

fun ready_loop :: "bool \<Rightarrow> condition list \<Rightarrow> bool" where
  "ready_loop ready [] = ready"
| "ready_loop ready (c # cs) =
     ready_loop (if cond_Type c = NodeReady then cond_Status c = ConditionTrue else ready) cs"

definition nodeIsReady :: "node \<Rightarrow> bool" where
  "nodeIsReady n = ready_loop False (node_Conditions n)"

definition zero_name :: namespaced_name where
  "zero_name = NamespacedName [] []"

fun usable_loop :: "node \<Rightarrow> string \<Rightarrow> namespaced_name \<Rightarrow> taint list \<Rightarrow> bool" where
  "usable_loop n taintKey self [] = nodeIsReady n"
| "usable_loop n taintKey self (t # ts) =
     (if taint_Effect t \<noteq> NoSchedule \<and> taint_Effect t \<noteq> NoExecute then usable_loop n taintKey self ts
      else if taint_Key t = taintKey \<and> self \<noteq> zero_name \<and> Owner n taintKey = Some self
      then usable_loop n taintKey self ts
      else False)"

definition NodeUsable :: "node \<Rightarrow> string \<Rightarrow> namespaced_name \<Rightarrow> bool" where
  "NodeUsable n taintKey self =
     (if node_Unschedulable n then False else usable_loop n taintKey self (node_Taints n))"

subsection \<open>snapshot.go: Build\<close>

definition ctr_gpu :: "string \<Rightarrow> container \<Rightarrow> quantity" where
  "ctr_gpu gpu c =
     (case ctr_Requests c gpu of
        Some q \<Rightarrow> q
      | None \<Rightarrow> (case ctr_Limits c gpu of Some q \<Rightarrow> q | None \<Rightarrow> 0))"

definition podGPURequest :: "pod \<Rightarrow> string \<Rightarrow> quantity" where
  "podGPURequest p gpu = foldl (\<lambda>acc c. acc + ctr_gpu gpu c) 0 (pod_Containers p)"

type_synonym node_maps = "(string \<rightharpoonup> string) \<times> (string \<rightharpoonup> bool)"

text \<open>What the node loop adds to the node's domain.\<close>

definition add_node_to :: "Input \<Rightarrow> node \<Rightarrow> bool \<Rightarrow> Domain \<Rightarrow> Domain" where
  "add_node_to inp n usable d =
     d\<lparr>d_Nodes := d_Nodes d @ [node_Name n],
       d_Group := (if in_GroupLevel inp \<noteq> [] \<and> d_Group d = []
                   then mget (node_Labels n) (in_GroupLevel inp) else d_Group d),
       d_AllocatableGPU :=
         (if usable
          then (case node_Allocatable n (cfg_GPUResourceName (in_Cfg inp)) of
                  Some q \<Rightarrow> d_AllocatableGPU d + q | None \<Rightarrow> d_AllocatableGPU d)
          else d_AllocatableGPU d)\<rparr>"

definition build_node :: "Input \<Rightarrow> (string \<times> Domain) list \<times> node_maps \<Rightarrow> node
    \<Rightarrow> (string \<times> Domain) list \<times> node_maps" where
  "build_node inp st n =
     (case st of (doms, nodeDomain, nodeUsable) \<Rightarrow>
        let domainID = mget (node_Labels n) (in_Level inp) in
        if domainID = [] then (doms, nodeDomain, nodeUsable)
        else let usable = NodeUsable n (cfg_TaintKey (in_Cfg inp)) (in_Self inp) in
          (update_domain domainID (add_node_to inp n usable) doms,
           nodeDomain(node_Name n \<mapsto> domainID), nodeUsable(node_Name n \<mapsto> usable)))"

definition victim_of :: "pod \<Rightarrow> quantity \<Rightarrow> Victim" where
  "victim_of p gpu =
     \<lparr>vic_Pod = pod_Key p, vic_Node = pod_NodeName p,
      vic_Workload = NamespacedName (Namespace (pod_Key p)) (mget (pod_Annotations p) WorkloadAnnotation),
      vic_GPURequest = gpu\<rparr>"

definition add_pod_to :: "Config \<Rightarrow> pod \<Rightarrow> quantity \<Rightarrow> bool \<Rightarrow> Domain \<Rightarrow> Domain" where
  "add_pod_to cfg p gpu usable d =
     (case classify p cfg of
        podVictim \<Rightarrow> d\<lparr>d_Victims := d_Victims d @ [victim_of p gpu]\<rparr>
      | podNonReclaimable \<Rightarrow>
          if usable then d\<lparr>d_NonReclaimableGPU := d_NonReclaimableGPU d + gpu\<rparr> else d
      | podNonBlocking \<Rightarrow> d)"

definition build_pod :: "Config \<Rightarrow> node_maps \<Rightarrow> (string \<times> Domain) list \<Rightarrow> pod \<Rightarrow> (string \<times> Domain) list" where
  "build_pod cfg maps doms p =
     (case fst maps (pod_NodeName p) of
        None \<Rightarrow> doms
      | Some domainID \<Rightarrow>
          if pod_terminal p then doms
          else if pod_DeletionTimestamp p \<noteq> None then doms
          else let gpu = podGPURequest p (cfg_GPUResourceName cfg) in
            if gpu = 0 then doms
            else update_domain domainID
                   (add_pod_to cfg p gpu (case snd maps (pod_NodeName p) of None \<Rightarrow> False | Some b \<Rightarrow> b)) doms)"

text \<open>\<open>markHeroDomains\<close>; a slice index out of range is \<open>None\<close>.\<close>

definition index_at :: "'a list \<Rightarrow> nat \<Rightarrow> 'a option" where
  "index_at xs i = (if i < length xs then Some (xs ! i) else None)"

definition hero_domain_id :: "string \<Rightarrow> (string \<rightharpoonup> string) \<Rightarrow> topology_assignment \<Rightarrow> tas_domain \<Rightarrow> string option" where
  "hero_domain_id level nodeDomain ta d =
     (case slices_Index (ta_Levels ta) level of
        Some levelIdx \<Rightarrow> index_at (dom_Values d) levelIdx
      | None \<Rightarrow>
          if ta_Levels ta \<noteq> [] \<and> last (ta_Levels ta) = LabelHostname
          then map_option (mget nodeDomain) (index_at (dom_Values d) (length (dom_Values d) - 1))
          else Some [])"

definition mark_domain :: "string \<Rightarrow> (string \<times> Domain) list \<Rightarrow> (string \<times> Domain) list" where
  "mark_domain did doms =
     (if did = [] then doms
      else map (\<lambda>(k, d). (k, if k = did then d\<lparr>d_HasOtherHero := True\<rparr> else d)) doms)"

fun mark_assigned :: "string \<Rightarrow> (string \<rightharpoonup> string) \<Rightarrow> topology_assignment \<Rightarrow> tas_domain list
    \<Rightarrow> (string \<times> Domain) list \<Rightarrow> (string \<times> Domain) list option" where
  "mark_assigned level nd ta [] doms = Some doms"
| "mark_assigned level nd ta (d # ds) doms =
     (case hero_domain_id level nd ta d of
        None \<Rightarrow> None
      | Some did \<Rightarrow> mark_assigned level nd ta ds (mark_domain did doms))"

fun mark_podsets :: "kueue_lib \<Rightarrow> string \<Rightarrow> (string \<rightharpoonup> string) \<Rightarrow> pod_set_assignment list
    \<Rightarrow> (string \<times> Domain) list \<Rightarrow> (string \<times> Domain) list option" where
  "mark_podsets L level nd [] doms = Some doms"
| "mark_podsets L level nd (p # ps) doms =
     (case psa_TopologyAssignment p of
        None \<Rightarrow> mark_podsets L level nd ps doms
      | Some ta \<Rightarrow>
          (case mark_assigned level nd ta (InternalSeqFrom L ta) doms of
             None \<Rightarrow> None
           | Some doms' \<Rightarrow> mark_podsets L level nd ps doms'))"

fun markHeroDomains :: "kueue_lib \<Rightarrow> string \<Rightarrow> (string \<rightharpoonup> string) \<Rightarrow> workload list
    \<Rightarrow> (string \<times> Domain) list \<Rightarrow> (string \<times> Domain) list option" where
  "markHeroDomains L level nd [] doms = Some doms"
| "markHeroDomains L level nd (h # hs) doms =
     (case wl_Admission h of
        None \<Rightarrow> markHeroDomains L level nd hs doms
      | Some adm \<Rightarrow>
          (case mark_podsets L level nd (adm_PodSetAssignments adm) doms of
             None \<Rightarrow> None
           | Some doms' \<Rightarrow> markHeroDomains L level nd hs doms'))"

definition build_nodes :: "Input \<Rightarrow> (string \<times> Domain) list \<times> node_maps" where
  "build_nodes inp = foldl (build_node inp) ([], Map.empty, Map.empty) (in_Nodes inp)"

definition build_pods :: "Input \<Rightarrow> (string \<times> Domain) list" where
  "build_pods inp =
     (let (doms, maps) = build_nodes inp in foldl (build_pod (in_Cfg inp) maps) doms (in_Pods inp))"

definition Build :: "kueue_lib \<Rightarrow> Input \<Rightarrow> Snapshot option" where
  "Build L inp =
     map_option (\<lambda>doms. \<lparr>s_Level = in_Level inp, s_Domains = doms\<rparr>)
       (markHeroDomains L (in_Level inp) (fst (snd (build_nodes inp))) (in_OtherHeroes inp) (build_pods inp))"

subsection \<open>What a domain is\<close>

definition node_in :: "Input \<Rightarrow> string \<Rightarrow> node \<Rightarrow> bool" where
  "node_in inp did n \<longleftrightarrow> did \<noteq> [] \<and> mget (node_Labels n) (in_Level inp) = did"

definition usable_in :: "Input \<Rightarrow> node \<Rightarrow> bool" where
  "usable_in inp n = NodeUsable n (cfg_TaintKey (in_Cfg inp)) (in_Self inp)"

definition node_gpu :: "Input \<Rightarrow> node \<Rightarrow> quantity" where
  "node_gpu inp n = (case node_Allocatable n (cfg_GPUResourceName (in_Cfg inp)) of None \<Rightarrow> 0 | Some q \<Rightarrow> q)"

definition group_of :: "Input \<Rightarrow> node list \<Rightarrow> string" where
  "group_of inp ns =
     (if in_GroupLevel inp = [] then []
      else case find (\<lambda>n. mget (node_Labels n) (in_GroupLevel inp) \<noteq> []) ns of
             None \<Rightarrow> [] | Some n \<Rightarrow> mget (node_Labels n) (in_GroupLevel inp))"

definition capacity_spec :: "Input \<Rightarrow> node list \<Rightarrow> string \<Rightarrow> Domain" where
  "capacity_spec inp ns did =
     (new_domain did)\<lparr>d_Group := group_of inp (filter (node_in inp did) ns),
       d_Nodes := map node_Name (filter (node_in inp did) ns),
       d_AllocatableGPU :=
         sum_list (map (node_gpu inp) (filter (\<lambda>n. node_in inp did n \<and> usable_in inp n) ns))\<rparr>"

lemma group_of_snoc:
  "group_of inp (ns @ [n]) =
     (if in_GroupLevel inp \<noteq> [] \<and> group_of inp ns = [] then mget (node_Labels n) (in_GroupLevel inp)
      else group_of inp ns)"
proof -
  have "find P (xs @ [x]) = (case find P xs of None \<Rightarrow> if P x then Some x else None | Some y \<Rightarrow> Some y)"
    for P and xs :: "node list" and x
    by (induction xs) auto
  then show ?thesis
    by (cases "find (\<lambda>n. mget (node_Labels n) (in_GroupLevel inp) \<noteq> []) ns")
      (auto simp: group_of_def dest: find_mem)
qed

lemma add_node_spec:
  "node_in inp did n \<Longrightarrow>
     add_node_to inp n (usable_in inp n) (capacity_spec inp ns did) = capacity_spec inp (ns @ [n]) did"
  by (auto simp: add_node_to_def capacity_spec_def new_domain_def group_of_snoc node_gpu_def
      split: option.splits)

lemma capacity_spec_Nil: "capacity_spec inp [] did = new_domain did"
  by (simp add: capacity_spec_def group_of_def new_domain_def)

lemma capacity_spec_none:
  "\<forall>n \<in> set ns. \<not> node_in inp did n \<Longrightarrow> capacity_spec inp ns did = new_domain did"
proof -
  assume "\<forall>n \<in> set ns. \<not> node_in inp did n"
  then have "filter (node_in inp did) ns = []"
    "filter (\<lambda>n. node_in inp did n \<and> usable_in inp n) ns = []" by (auto simp: filter_empty_conv)
  then show ?thesis by (simp add: capacity_spec_def group_of_def new_domain_def)
qed

lemma capacity_spec_other:
  "\<not> node_in inp did n \<Longrightarrow> capacity_spec inp (ns @ [n]) did = capacity_spec inp ns did"
  by (simp add: capacity_spec_def)

definition nodes_loop :: "Input \<Rightarrow> node list \<Rightarrow> (string \<times> Domain) list \<times> node_maps" where
  "nodes_loop inp ns = foldl (build_node inp) ([], Map.empty, Map.empty) ns"

lemma nodes_loop_snoc: "nodes_loop inp (ns @ [n]) = build_node inp (nodes_loop inp ns) n"
  by (simp add: nodes_loop_def)

lemma nodes_loop_domains:
  "map_of (fst (nodes_loop inp ns)) did =
     (if \<exists>n \<in> set ns. node_in inp did n then Some (capacity_spec inp ns did) else None)"
proof (induction ns rule: rev_induct)
  case Nil
  then show ?case by (simp add: nodes_loop_def)
next
  case (snoc n ns)
  obtain doms nd nu where st: "nodes_loop inp ns = (doms, nd, nu)" by (cases "nodes_loop inp ns") auto
  with snoc have IH: "map_of doms did =
     (if \<exists>n \<in> set ns. node_in inp did n then Some (capacity_spec inp ns did) else None)" by simp
  show ?case
  proof (cases "mget (node_Labels n) (in_Level inp) = did \<and> did \<noteq> []")
    case True
    then have "node_in inp did n" by (simp add: node_in_def)
    with True IH show ?thesis
      using add_node_spec[of inp did n ns]
      by (auto simp: nodes_loop_snoc st build_node_def Let_def update_domain_def map_of_assoc_update
          usable_in_def capacity_spec_none)
  next
    case False
    then have "\<not> node_in inp did n" by (auto simp: node_in_def)
    with False IH show ?thesis
      by (auto simp: nodes_loop_snoc st build_node_def Let_def update_domain_def map_of_assoc_update
          capacity_spec_other)
  qed
qed

lemma nodes_loop_distinct: "distinct (map fst (fst (nodes_loop inp ns)))"
  by (induction ns rule: rev_induct)
    (auto simp: nodes_loop_snoc build_node_def Let_def update_domain_def distinct_assoc_update
      split: prod.splits, simp add: nodes_loop_def)

text \<open>The node maps are read back by name; names are unique in a cluster.\<close>

definition node_named :: "node list \<Rightarrow> string \<Rightarrow> node option" where
  "node_named ns nm = find (\<lambda>n. node_Name n = nm) ns"

lemma nodes_loop_named: "nm \<notin> node_Name ` set xs \<Longrightarrow> fst (snd (nodes_loop inp xs)) nm = None"
proof (induction xs rule: rev_induct)
  case (snoc x xs)
  then show ?case
    by (cases "nodes_loop inp xs") (auto simp: nodes_loop_snoc build_node_def Let_def split: if_splits)
qed (simp add: nodes_loop_def)

lemma nodes_loop_maps:
  assumes "distinct (map node_Name ns)"
  shows "fst (snd (nodes_loop inp ns)) nm = Some did \<longleftrightarrow>
           (\<exists>n \<in> set ns. node_Name n = nm \<and> node_in inp did n)"
    and "n \<in> set ns \<Longrightarrow> node_in inp did n \<Longrightarrow> snd (snd (nodes_loop inp ns)) (node_Name n) = Some (usable_in inp n)"
proof -
  have "(fst (snd (nodes_loop inp ns)) nm = Some did \<longleftrightarrow>
           (\<exists>n \<in> set ns. node_Name n = nm \<and> node_in inp did n)) \<and>
        (\<forall>n \<in> set ns. node_in inp did n \<longrightarrow> snd (snd (nodes_loop inp ns)) (node_Name n) = Some (usable_in inp n))"
    using assms
  proof (induction ns rule: rev_induct)
    case Nil
    then show ?case by (simp add: nodes_loop_def)
  next
    case (snoc m ns)
    obtain doms nd nu where st: "nodes_loop inp ns = (doms, nd, nu)" by (cases "nodes_loop inp ns") auto
    from snoc have new: "node_Name m \<notin> node_Name ` set ns" by simp
    have "nd (node_Name m) = None"
      using nodes_loop_named[OF new, of inp] by (simp add: st)
    with snoc st new show ?case
      by (auto simp: nodes_loop_snoc build_node_def Let_def node_in_def usable_in_def rev_image_eqI)
  qed
  then show "fst (snd (nodes_loop inp ns)) nm = Some did \<longleftrightarrow>
           (\<exists>n \<in> set ns. node_Name n = nm \<and> node_in inp did n)"
    and "n \<in> set ns \<Longrightarrow> node_in inp did n \<Longrightarrow> snd (snd (nodes_loop inp ns)) (node_Name n) = Some (usable_in inp n)"
    by blast+
qed

definition counted :: "Config \<Rightarrow> pod \<Rightarrow> bool" where
  "counted cfg p \<longleftrightarrow> \<not> pod_terminal p \<and> pod_DeletionTimestamp p = None \<and>
     podGPURequest p (cfg_GPUResourceName cfg) \<noteq> 0"

definition pods_spec :: "Config \<Rightarrow> node_maps \<Rightarrow> string \<Rightarrow> pod list \<Rightarrow> Domain \<Rightarrow> Domain" where
  "pods_spec cfg maps did ps d =
     (let here = filter (\<lambda>p. fst maps (pod_NodeName p) = Some did \<and> counted cfg p) ps;
          gpu = (\<lambda>p. podGPURequest p (cfg_GPUResourceName cfg)) in
      d\<lparr>d_Victims := d_Victims d @ map (\<lambda>p. victim_of p (gpu p)) (filter (\<lambda>p. classify p cfg = podVictim) here),
        d_NonReclaimableGPU := d_NonReclaimableGPU d + sum_list (map gpu
          (filter (\<lambda>p. classify p cfg = podNonReclaimable \<and> snd maps (pod_NodeName p) = Some True) here))\<rparr>)"

lemma pods_spec_snoc_other:
  "\<not> (fst maps (pod_NodeName p) = Some did \<and> counted cfg p) \<Longrightarrow>
     pods_spec cfg maps did (ps @ [p]) d = pods_spec cfg maps did ps d"
  by (auto simp: pods_spec_def Let_def)

lemma pods_spec_snoc:
  "fst maps (pod_NodeName p) = Some did \<Longrightarrow> counted cfg p \<Longrightarrow>
     pods_spec cfg maps did (ps @ [p]) d =
       add_pod_to cfg p (podGPURequest p (cfg_GPUResourceName cfg))
         (case snd maps (pod_NodeName p) of None \<Rightarrow> False | Some b \<Rightarrow> b) (pods_spec cfg maps did ps d)"
  by (cases "classify p cfg")
    (auto simp: pods_spec_def Let_def add_pod_to_def split: option.splits)

lemma build_pod_domain:
  assumes "\<forall>nm i. fst maps nm = Some i \<longrightarrow> i \<in> fst ` set doms"
  shows "map_of (build_pod cfg maps doms p) did =
     (if fst maps (pod_NodeName p) = Some did \<and> counted cfg p
      then map_option (add_pod_to cfg p (podGPURequest p (cfg_GPUResourceName cfg))
         (case snd maps (pod_NodeName p) of None \<Rightarrow> False | Some b \<Rightarrow> b)) (map_of doms did)
      else map_of doms did)"
proof (cases "fst maps (pod_NodeName p)")
  case (Some i)
  with assms have i: "i \<in> fst ` set doms" by blast
  then obtain d where "map_of doms i = Some d" by (metis domD dom_map_of_conv_image_fst)
  with Some show ?thesis
    by (auto simp: build_pod_def counted_def Let_def update_domain_def map_of_assoc_update)
qed (simp add: build_pod_def)

lemma build_pod_keys:
  assumes "\<forall>nm i. fst maps nm = Some i \<longrightarrow> i \<in> fst ` set doms"
  shows "map fst (build_pod cfg maps doms p) = map fst doms"
  using assms by (auto simp: build_pod_def Let_def update_domain_def fst_assoc_update split: option.splits)

lemma pods_loop:
  assumes "\<forall>nm i. fst maps nm = Some i \<longrightarrow> i \<in> fst ` set doms"
  shows "map_of (foldl (build_pod cfg maps) doms ps) did = map_option (pods_spec cfg maps did ps) (map_of doms did)
     \<and> map fst (foldl (build_pod cfg maps) doms ps) = map fst doms"
proof (induction ps rule: rev_induct)
  case Nil
  show ?case by (cases "map_of doms did") (simp_all add: pods_spec_def)
next
  case (snoc p ps)
  let ?l = "foldl (build_pod cfg maps) doms ps"
  have "fst ` set ?l = fst ` set doms" using snoc by (metis list.set_map)
  with assms have dom: "\<forall>nm i. fst maps nm = Some i \<longrightarrow> i \<in> fst ` set ?l" by blast
  show ?case
  proof (cases "fst maps (pod_NodeName p) = Some did \<and> counted cfg p")
    case True
    then have step: "pods_spec cfg maps did (ps @ [p]) = (\<lambda>d. add_pod_to cfg p
        (podGPURequest p (cfg_GPUResourceName cfg))
         (case snd maps (pod_NodeName p) of None \<Rightarrow> False | Some b \<Rightarrow> b) (pods_spec cfg maps did ps d))"
      by (intro ext pods_spec_snoc) simp_all
    show ?thesis
      using True snoc build_pod_domain[OF dom, of cfg p did] build_pod_keys[OF dom, of cfg p]
      by (simp add: option.map_comp comp_def step)
  next
    case False
    then have "pods_spec cfg maps did (ps @ [p]) = pods_spec cfg maps did ps"
      by (intro ext pods_spec_snoc_other)
    with False show ?thesis
      using snoc build_pod_domain[OF dom, of cfg p did] build_pod_keys[OF dom, of cfg p] by auto
  qed
qed

subsection \<open>Hero occupancy\<close>

definition occupies :: "kueue_lib \<Rightarrow> string \<Rightarrow> (string \<rightharpoonup> string) \<Rightarrow> workload list \<Rightarrow> string \<Rightarrow> bool" where
  "occupies L level nd heroes did \<longleftrightarrow> did \<noteq> [] \<and>
     (\<exists>h \<in> set heroes. \<exists>adm. wl_Admission h = Some adm \<and>
       (\<exists>p \<in> set (adm_PodSetAssignments adm). \<exists>ta. psa_TopologyAssignment p = Some ta \<and>
         (\<exists>d \<in> set (InternalSeqFrom L ta). hero_domain_id level nd ta d = Some did)))"

definition marked :: "(string \<Rightarrow> bool) \<Rightarrow> (string \<times> Domain) list \<Rightarrow> (string \<times> Domain) list" where
  "marked P doms = map (\<lambda>(k, d). (k, if P k then d\<lparr>d_HasOtherHero := True\<rparr> else d)) doms"

lemma marked_marked: "marked P (marked Q doms) = marked (\<lambda>k. Q k \<or> P k) doms"
  by (auto simp: marked_def)

lemma marked_False [simp]: "marked (\<lambda>_. False) doms = doms"
  by (induction doms) (auto simp: marked_def)

lemma mark_domain_marked: "mark_domain i doms = marked (\<lambda>k. k = i \<and> i \<noteq> []) doms"
  by (induction doms) (auto simp: mark_domain_def marked_def)

lemma mark_assigned_Some:
  assumes "\<forall>d \<in> set ds. hero_domain_id level nd ta d \<noteq> None"
  shows "mark_assigned level nd ta ds doms =
     Some (marked (\<lambda>k. k \<noteq> [] \<and> (\<exists>d \<in> set ds. hero_domain_id level nd ta d = Some k)) doms)"
  using assms
proof (induction ds arbitrary: doms)
  case (Cons d ds)
  then obtain i where i: "hero_domain_id level nd ta d = Some i" by auto
  have "(\<lambda>k. k = i \<and> i \<noteq> [] \<or> k \<noteq> [] \<and> (\<exists>d \<in> set ds. hero_domain_id level nd ta d = Some k))
      = (\<lambda>k. k \<noteq> [] \<and> (\<exists>d \<in> set (d # ds). hero_domain_id level nd ta d = Some k))"
    using i by auto
  with Cons i show ?case by (simp add: mark_domain_marked marked_marked)
qed simp

lemma hero_domain_id_Some:
  assumes "decodes_levels L ta" "d \<in> set (InternalSeqFrom L ta)"
  shows "hero_domain_id level nd ta d \<noteq> None"
proof -
  have len: "length (dom_Values d) = length (ta_Levels ta)"
    using assms by (simp add: decodes_levels_def)
  show ?thesis
  proof (cases "slices_Index (ta_Levels ta) level")
    case None
    with len show ?thesis
      by (auto simp: hero_domain_id_def index_at_def simp del: slices_Index_None)
  next
    case (Some i)
    with slices_Index_Some[OF this] len show ?thesis by (simp add: hero_domain_id_def index_at_def)
  qed
qed

definition decodable :: "kueue_lib \<Rightarrow> workload list \<Rightarrow> bool" where
  "decodable L heroes \<longleftrightarrow>
     (\<forall>h \<in> set heroes. \<forall>adm. wl_Admission h = Some adm \<longrightarrow>
       (\<forall>p \<in> set (adm_PodSetAssignments adm). \<forall>ta. psa_TopologyAssignment p = Some ta \<longrightarrow> decodes_levels L ta))"

lemma mark_podsets_Some:
  assumes "\<forall>p \<in> set ps. \<forall>ta. psa_TopologyAssignment p = Some ta \<longrightarrow> decodes_levels L ta"
  shows "mark_podsets L level nd ps doms = Some (marked (\<lambda>k. k \<noteq> [] \<and>
     (\<exists>p \<in> set ps. \<exists>ta. psa_TopologyAssignment p = Some ta \<and>
         (\<exists>d \<in> set (InternalSeqFrom L ta). hero_domain_id level nd ta d = Some k))) doms)"
  using assms
proof (induction ps arbitrary: doms)
  case (Cons p ps)
  show ?case
  proof (cases "psa_TopologyAssignment p")
    case (Some ta)
    with Cons have "\<forall>d \<in> set (InternalSeqFrom L ta). hero_domain_id level nd ta d \<noteq> None"
      using hero_domain_id_Some by auto
    from mark_assigned_Some[OF this] Cons Some show ?thesis
      by (simp add: marked_marked) (rule arg_cong[where f = "\<lambda>P. marked P doms"], auto)
  next
    case None
    with Cons show ?thesis by simp
  qed
qed simp

lemma markHeroDomains_Some:
  "decodable L heroes \<Longrightarrow> markHeroDomains L level nd heroes doms = Some (marked (occupies L level nd heroes) doms)"
proof (induction heroes arbitrary: doms)
  case Nil
  have "occupies L level nd [] = (\<lambda>_. False)" by (auto simp: occupies_def)
  then show ?case by simp
next
  case (Cons h hs)
  then have IH: "\<And>doms. markHeroDomains L level nd hs doms = Some (marked (occupies L level nd hs) doms)"
    by (simp add: decodable_def)
  show ?case
  proof (cases "wl_Admission h")
    case None
    then have "occupies L level nd (h # hs) = occupies L level nd hs"
      by (auto simp: occupies_def)
    with None IH show ?thesis by simp
  next
    case (Some adm)
    with Cons.prems have "\<forall>p \<in> set (adm_PodSetAssignments adm). \<forall>ta. psa_TopologyAssignment p = Some ta
        \<longrightarrow> decodes_levels L ta" by (simp add: decodable_def)
    from mark_podsets_Some[OF this] Some IH show ?thesis
      by (simp add: marked_marked)
        (rule arg_cong[where f = "\<lambda>P. marked P doms"], auto simp: occupies_def fun_eq_iff Some)
  qed
qed

subsection \<open>Build, domain by domain\<close>

definition domain_fold :: "kueue_lib \<Rightarrow> Input \<Rightarrow> string \<Rightarrow> Domain" where
  "domain_fold L inp did =
     (let maps = snd (nodes_loop inp (in_Nodes inp));
          d = pods_spec (in_Cfg inp) maps did (in_Pods inp) (capacity_spec inp (in_Nodes inp) did) in
      if occupies L (in_Level inp) (fst maps) (in_OtherHeroes inp) did
      then d\<lparr>d_HasOtherHero := True\<rparr> else d)"

lemma map_of_marked: "map_of (marked P doms) k =
    map_option (\<lambda>d. if P k then d\<lparr>d_HasOtherHero := True\<rparr> else d) (map_of doms k)"
  by (induction doms) (auto simp: marked_def)

lemma fst_marked [simp]: "map fst (marked P doms) = map fst doms"
  by (induction doms) (auto simp: marked_def)

lemma nodes_loop_range:
  "fst (snd (nodes_loop inp ns)) nm = Some i \<Longrightarrow> i \<in> fst ` set (fst (nodes_loop inp ns))"
proof (induction ns arbitrary: i rule: rev_induct)
  case Nil
  then show ?case by (simp add: nodes_loop_def)
next
  case (snoc n ns)
  obtain doms nd nu where st: "nodes_loop inp ns = (doms, nd, nu)" by (cases "nodes_loop inp ns") auto
  have "i \<in> fst ` set (update_domain k f ds) \<longleftrightarrow> i = k \<or> i \<in> fst ` set ds" for k f ds
    using fst_assoc_update[of k f "new_domain k" ds]
    by (metis (no_types, lifting) Un_insert_right image_set insert_iff list.set(2) list.simps(15) set_append
        sup_bot.right_neutral empty_set update_domain_def)
  with snoc st show ?case
    by (auto simp: nodes_loop_snoc build_node_def Let_def split: if_splits)
qed

lemma Build_folds:
  assumes "decodable L (in_OtherHeroes inp)"
  shows "\<exists>s. Build L inp = Some s \<and> s_Level s = in_Level inp \<and> distinct (map fst (s_Domains s)) \<and>
     map_of (s_Domains s) = (\<lambda>did. if \<exists>n \<in> set (in_Nodes inp). node_in inp did n
       then Some (domain_fold L inp did) else None)"
proof -
  obtain doms maps where st: "nodes_loop inp (in_Nodes inp) = (doms, maps)"
    by (rule prod.exhaust)
  have range: "\<forall>nm i. fst maps nm = Some i \<longrightarrow> i \<in> fst ` set doms"
    using nodes_loop_range[of inp "in_Nodes inp"] by (simp add: st)
  let ?ds = "foldl (build_pod (in_Cfg inp) maps) doms (in_Pods inp)"
  have pods: "build_pods inp = ?ds" "build_nodes inp = (doms, maps)"
    using st by (simp_all add: build_pods_def build_nodes_def nodes_loop_def)
  have keys: "map fst ?ds = map fst doms" and
    ds: "\<And>did. map_of ?ds did = map_option (pods_spec (in_Cfg inp) maps did (in_Pods inp)) (map_of doms did)"
    using pods_loop[OF range, of "in_Cfg inp" "in_Pods inp"] by auto
  have "distinct (map fst doms)" using nodes_loop_distinct[of inp "in_Nodes inp"] by (simp add: st)
  moreover have "map_of doms did = (if \<exists>n \<in> set (in_Nodes inp). node_in inp did n
      then Some (capacity_spec inp (in_Nodes inp) did) else None)" for did
    using nodes_loop_domains[of inp "in_Nodes inp" did] by (simp add: st)
  ultimately show ?thesis
    using markHeroDomains_Some[OF assms] keys ds
    by (simp add: Build_def pods map_of_marked fun_eq_iff domain_fold_def st Let_def)
qed

end
