(* ===== verification/Selection.thy ===== *)
theory Selection
  imports Snapshot Hero Float64
begin

text \<open>
  Package \<open>pkg/selection\<close>: the disruption cost of a victim (\<open>cost.go\<close>), the victims of a domain
  (\<open>victims.go\<close>) and the greedy choice of the domains to drain (\<open>select.go\<close>). Costs are doubles: every
  \<open>+\<close>, \<open>*\<close> and \<open>/\<close> of the source is the rounded operation of \<open>Float64\<close>, in the source's order.
  The slice of \<open>*candidate\<close> is a list updated by index.
\<close>

subsection \<open>Data\<close>

record VictimWorkload =
  vw_Key :: namespaced_name
  vw_ClusterQueue :: string
  vw_Priority :: int32
  vw_PodCount :: int32
  vw_RunningFor :: duration

record HeroSpec =
  hs_Key :: namespaced_name
  hs_Priority :: int32
  hs_PodCount :: int32
  hs_ClusterQueue :: string
  hs_Demand :: "Chunk list"

datatype InfeasibleReason = NoFeasibleDomains | AllFeasibleHeroOccupied

record DrainPlan =
  dp_DomainIDs :: "string list"
  dp_Nodes :: "string list"
  dp_TotalCost :: rat
  dp_Victims :: "VictimWorkload list"

record candidate =
  c_domain :: Domain
  c_victims :: "VictimWorkload list"
  c_cost :: rat
  c_remaining :: quantity
  c_selected :: bool

subsection \<open>cost.go\<close>

text \<open>\<open>time.Duration.Seconds\<close>: whole seconds plus the fraction, as doubles.\<close>

definition Seconds :: "duration \<Rightarrow> rat" where
  "Seconds d = fadd (of_int (go_quot d second)) (fdiv (of_int (go_rem d second)) (10 ^ 9))"

definition priority_share :: "VictimWorkload \<Rightarrow> HeroSpec \<Rightarrow> rat" where
  "priority_share v hero =
     (if 0 < sint (hs_Priority hero) \<and> 0 < sint (vw_Priority v)
      then min (fdiv (of_int (sint (vw_Priority v))) (of_int (sint (hs_Priority hero)))) 1 else 0)"

definition size_share :: "VictimWorkload \<Rightarrow> HeroSpec \<Rightarrow> rat" where
  "size_share v hero =
     (if 0 < sint (vw_PodCount v)
      then fdiv (of_int (sint (vw_PodCount v))) (of_int (sint (vw_PodCount v + hs_PodCount hero))) else 0)"

definition runtime_share :: "VictimWorkload \<Rightarrow> Config \<Rightarrow> rat" where
  "runtime_share v cfg =
     (if 0 < vw_RunningFor v
      then let half = Seconds (cfg_RuntimeHalfLife cfg); run = Seconds (vw_RunningFor v)
           in fdiv run (fadd run half) else 0)"

definition Cost :: "VictimWorkload \<Rightarrow> HeroSpec \<Rightarrow> Config \<Rightarrow> rat" where
  "Cost v hero cfg =
     (let mRel = (if vw_ClusterQueue v \<noteq> hs_ClusterQueue hero then cfg_CrossCQMultiplier cfg else 1);
          w = cfg_Weights cfg in
      fmul mRel (fadd (fadd (fmul (w_Priority w) (priority_share v hero))
                            (fmul (w_PodCount w) (size_share v hero)))
                      (fmul (w_Runtime w) (runtime_share v cfg))))"

subsection \<open>victims.go\<close>

definition admittedClusterQueue :: "workload \<Rightarrow> string" where
  "admittedClusterQueue wl = (case wl_Admission wl of Some adm \<Rightarrow> adm_ClusterQueue adm | None \<Rightarrow> [])"

definition specPriority :: "workload \<Rightarrow> int32" where
  "specPriority wl = (case wl_Priority wl of Some p \<Rightarrow> p | None \<Rightarrow> 0)"

definition admitted_total :: "workload \<Rightarrow> int32" where
  "admitted_total wl =
     (case wl_Admission wl of
        None \<Rightarrow> 0
      | Some adm \<Rightarrow>
          foldl (\<lambda>t psa. case psa_Count psa of None \<Rightarrow> t | Some c \<Rightarrow> t + c) 0 (adm_PodSetAssignments adm))"

definition admittedPodCount :: "workload \<Rightarrow> int32" where
  "admittedPodCount wl =
     (let t = admitted_total wl in
      if 0 < sint t then t else foldl (\<lambda>t ps. t + ps_Count ps) t (wl_PodSets wl))"

fun running_since :: "workload \<Rightarrow> string list \<Rightarrow> time" where
  "running_since wl [] = wl_CreationTimestamp wl"
| "running_since wl (ty # tys) =
     (case FindStatusCondition (wl_Conditions wl) ty of
        None \<Rightarrow> running_since wl tys
      | Some c \<Rightarrow> if cond_Status c = ConditionTrue then cond_LastTransitionTime c else running_since wl tys)"

definition runningFor :: "workload \<Rightarrow> time \<Rightarrow> duration" where
  "runningFor wl now = time_Sub now (running_since wl [WorkloadAdmitted, WorkloadQuotaReserved])"

definition victim_workload :: "namespaced_name \<Rightarrow> workload \<Rightarrow> time \<Rightarrow> VictimWorkload" where
  "victim_workload key wl now =
     \<lparr>vw_Key = key, vw_ClusterQueue = admittedClusterQueue wl, vw_Priority = specPriority wl,
      vw_PodCount = admittedPodCount wl, vw_RunningFor = runningFor wl now\<rparr>"

fun group_victims_loop :: "(namespaced_name \<rightharpoonup> workload) \<Rightarrow> time \<Rightarrow> namespaced_name list \<Rightarrow> Victim list
    \<Rightarrow> VictimWorkload list" where
  "group_victims_loop workloads now seen [] = []"
| "group_victims_loop workloads now seen (v # vs) =
     (let key = vic_Workload v in
      if key \<in> set seen then group_victims_loop workloads now seen vs
      else case workloads key of
             None \<Rightarrow> group_victims_loop workloads now (key # seen) vs
           | Some wl \<Rightarrow> victim_workload key wl now # group_victims_loop workloads now (key # seen) vs)"

definition GroupVictims :: "Domain \<Rightarrow> (namespaced_name \<rightharpoonup> workload) \<Rightarrow> time \<Rightarrow> VictimWorkload list" where
  "GroupVictims d workloads now = group_victims_loop workloads now [] (d_Victims d)"

subsection \<open>select.go\<close>

definition reclaimable :: "Domain \<Rightarrow> quantity" where
  "reclaimable d =
     (let r = d_AllocatableGPU d - d_NonReclaimableGPU d in if r < 0 then 0 else r)"

fun victimsBelowHero :: "VictimWorkload list \<Rightarrow> int32 \<Rightarrow> bool" where
  "victimsBelowHero [] heroPriority = True"
| "victimsBelowHero (v # vs) heroPriority =
     (if sint heroPriority \<le> sint (vw_Priority v) then False else victimsBelowHero vs heroPriority)"

definition marginalCost :: "candidate \<Rightarrow> rat" where
  "marginalCost c = (if c_selected c then 0 else c_cost c)"

definition packBetter :: "candidate \<Rightarrow> candidate \<Rightarrow> bool" where
  "packBetter a b =
     (if marginalCost a \<noteq> marginalCost b then marginalCost a < marginalCost b
      else if c_selected a \<noteq> c_selected b then c_selected a
      else if c_remaining a \<noteq> c_remaining b then c_remaining b < c_remaining a
      else d_ID (c_domain a) < d_ID (c_domain b))"

text \<open>One unit of demand: the best candidate that still holds it; \<open>None\<close> when there is none.\<close>

definition place_unit :: "candidate list \<Rightarrow> quantity \<Rightarrow> candidate list option" where
  "place_unit cs unit =
     (case pick (\<lambda>i j. packBetter (cs ! i) (cs ! j))
             (filter (\<lambda>i. \<not> c_remaining (cs ! i) < unit) [0..<length cs]) of
        None \<Rightarrow> None
      | Some i \<Rightarrow>
          Some (cs[i := (cs ! i)\<lparr>c_remaining := c_remaining (cs ! i) - unit, c_selected := True\<rparr>]))"

fun place_units :: "candidate list \<Rightarrow> quantity list \<Rightarrow> candidate list option" where
  "place_units cs [] = Some cs"
| "place_units cs (u # us) = (case place_unit cs u of None \<Rightarrow> None | Some cs' \<Rightarrow> place_units cs' us)"

fun add_victims :: "HeroSpec \<Rightarrow> Config \<Rightarrow> VictimWorkload list \<Rightarrow> DrainPlan \<Rightarrow> DrainPlan" where
  "add_victims hero cfg [] plan = plan"
| "add_victims hero cfg (v # vs) plan =
     (if vw_Key v \<in> vw_Key ` set (dp_Victims plan) then add_victims hero cfg vs plan
      else add_victims hero cfg vs
        (plan\<lparr>dp_Victims := dp_Victims plan @ [v],
              dp_TotalCost := fadd (dp_TotalCost plan) (Cost v hero cfg)\<rparr>))"

fun build_plan :: "HeroSpec \<Rightarrow> Config \<Rightarrow> candidate list \<Rightarrow> DrainPlan \<Rightarrow> DrainPlan" where
  "build_plan hero cfg [] plan = plan"
| "build_plan hero cfg (c # cs) plan =
     (if \<not> c_selected c then build_plan hero cfg cs plan
      else build_plan hero cfg cs (add_victims hero cfg (c_victims c)
        (plan\<lparr>dp_DomainIDs := dp_DomainIDs plan @ [d_ID (c_domain c)],
              dp_Nodes := dp_Nodes plan @ d_Nodes (c_domain c)\<rparr>)))"

definition empty_plan :: DrainPlan where
  "empty_plan = \<lparr>dp_DomainIDs = [], dp_Nodes = [], dp_TotalCost = 0, dp_Victims = []\<rparr>"

definition reset_candidate :: "candidate \<Rightarrow> candidate" where
  "reset_candidate c = c\<lparr>c_remaining := reclaimable (c_domain c), c_selected := False\<rparr>"

definition packWithinGroup :: "candidate list \<Rightarrow> quantity list \<Rightarrow> HeroSpec \<Rightarrow> Config \<Rightarrow> DrainPlan option" where
  "packWithinGroup cands units hero cfg =
     map_option (\<lambda>cs. build_plan hero cfg cs empty_plan)
       (place_units (map reset_candidate cands) units)"

text \<open>The filter over the domains in order of their IDs, grouping the candidates.\<close>

definition candidate_of :: "HeroSpec \<Rightarrow> Config \<Rightarrow> VictimWorkload list \<Rightarrow> Domain \<Rightarrow> candidate" where
  "candidate_of hero cfg victims d =
     \<lparr>c_domain = d, c_victims = victims,
      c_cost = foldl (\<lambda>cost v. fadd cost (Cost v hero cfg)) 0 victims,
      c_remaining = reclaimable d, c_selected = False\<rparr>"

definition consider_domain :: "HeroSpec \<Rightarrow> (namespaced_name \<rightharpoonup> workload) \<Rightarrow> Config \<Rightarrow> time
    \<Rightarrow> (string \<times> candidate list) list \<times> bool \<Rightarrow> Domain \<Rightarrow> (string \<times> candidate list) list \<times> bool" where
  "consider_domain hero workloads cfg now st d =
     (case st of (byGroup, heroBlocked) \<Rightarrow>
        if d_HasOtherHero d then (byGroup, True)
        else let victims = GroupVictims d workloads now in
          if reclaimable d \<le> 0 \<or> \<not> victimsBelowHero victims (hs_Priority hero) then (byGroup, heroBlocked)
          else (assoc_update (d_Group d) (\<lambda>cs. cs @ [candidate_of hero cfg victims d]) [] byGroup,
                heroBlocked))"

definition sorted_domains :: "Snapshot \<Rightarrow> Domain list" where
  "sorted_domains s = map (\<lambda>i. the (map_of (s_Domains s) i)) (sort (map fst (s_Domains s)))"

definition demand_units :: "Chunk list \<Rightarrow> quantity list" where
  "demand_units demand = rev (sort (concat (map (\<lambda>c. replicate (go_range (ch_Count c)) (ch_Size c)) demand)))"

fun best_plan :: "DrainPlan option \<Rightarrow> DrainPlan option list \<Rightarrow> DrainPlan option" where
  "best_plan best [] = best"
| "best_plan best (None # ps) = best_plan best ps"
| "best_plan best (Some p # ps) =
     best_plan (case best of
        None \<Rightarrow> Some p
      | Some b \<Rightarrow> if dp_TotalCost p < dp_TotalCost b then Some p else Some b) ps"

definition SelectDomains :: "Snapshot \<Rightarrow> HeroSpec \<Rightarrow> (namespaced_name \<rightharpoonup> workload) \<Rightarrow> Config \<Rightarrow> time
    \<Rightarrow> InfeasibleReason + DrainPlan" where
  "SelectDomains s hero workloads cfg now =
     (let (byGroup, heroBlocked) =
            foldl (consider_domain hero workloads cfg now) ([], False) (sorted_domains s);
          units = demand_units (hs_Demand hero) in
      if units = [] then Inl NoFeasibleDomains
      else let groups = sort (map fst byGroup) in
        case best_plan None
               (map (\<lambda>g. packWithinGroup (the (map_of byGroup g)) units hero cfg) groups) of
          Some plan \<Rightarrow> Inr plan
        | None \<Rightarrow> if heroBlocked then Inl AllFeasibleHeroOccupied else Inl NoFeasibleDomains)"

end
