(* ===== verification/Order.thy ===== *)
theory Order
  imports Taint_Laws Hero
begin

text \<open>
  Package \<open>pkg/drain\<close>: which stuck hero drains next, and which drain in flight blocks it. Both are the
  argmin loop of the prelude over a comparison; both comparisons are instances of its contract
  \<open>preference\<close>, so that the choice does not depend on the order of the list or of Go's map.
\<close>

definition heroBefore :: "kueue_lib \<Rightarrow> workload \<Rightarrow> workload \<Rightarrow> bool" where
  "heroBefore L a b =
     (if Priority a \<noteq> Priority b then sint (Priority b) < sint (Priority a)
      else let ta = GetQueueOrderTimestamp L a; tb = GetQueueOrderTimestamp L b in
        if ta \<noteq> tb then ta < tb
        else if Namespace (wl_Key a) \<noteq> Namespace (wl_Key b)
        then Namespace (wl_Key a) < Namespace (wl_Key b)
        else Name (wl_Key a) < Name (wl_Key b))"

definition NextHero :: "kueue_lib \<Rightarrow> workload list \<Rightarrow> workload option" where
  "NextHero L stuck = pick (heroBefore L) stuck"

definition ownerBefore :: "namespaced_name \<Rightarrow> namespaced_name \<Rightarrow> bool" where
  "ownerBefore a b =
     (if Namespace a \<noteq> Namespace b then Namespace a < Namespace b else Name a < Name b)"

definition BlockingDrain :: "(namespaced_name \<times> Drain) list \<Rightarrow> namespaced_name \<Rightarrow> Drain option" where
  "BlockingDrain drains self =
     map_option snd
       (pick (\<lambda>x y. ownerBefore (fst x) (drain_Owner (snd y))) (filter (\<lambda>x. fst x \<noteq> self) drains))"

lemma heroBefore_lex:
  "heroBefore L a b \<longleftrightarrow>
     sint (Priority b) < sint (Priority a) \<or> sint (Priority a) = sint (Priority b) \<and>
     (GetQueueOrderTimestamp L a < GetQueueOrderTimestamp L b \<or>
      GetQueueOrderTimestamp L a = GetQueueOrderTimestamp L b \<and> wl_Key a < wl_Key b)"
proof -
  have "Priority a = Priority b \<longleftrightarrow> sint (Priority a) = sint (Priority b)"
    by (auto intro: signed_word_eqI)
  then show ?thesis by (auto simp: heroBefore_def Let_def less_namespaced_name_def)
qed

interpretation hero_order: preference "heroBefore L" wl_Key for L
  by unfold_locales (auto simp: heroBefore_lex)

lemma ownerBefore_less: "ownerBefore a b \<longleftrightarrow> a < b"
  by (auto simp: ownerBefore_def less_namespaced_name_def)

interpretation owner_order: preference ownerBefore "\<lambda>k :: namespaced_name. k"
  by unfold_locales (auto simp: ownerBefore_less)

text \<open>In a list of drains keyed by owner the comparison is the order of the keys.\<close>

lemma BlockingDrain_keys:
  assumes "wf_drains drains"
  shows "BlockingDrain drains self = map_option snd
     (pick (\<lambda>x y. ownerBefore (fst x) (fst y)) (filter (\<lambda>x. fst x \<noteq> self) drains))"
proof -
  have cong: "pick_loop b best xs = pick_loop b' best xs"
    if "\<And>x y. x \<in> set xs \<Longrightarrow> y \<in> set xs \<or> best = Some y \<Longrightarrow> b x y = b' x y"
    for b b' :: "namespaced_name \<times> Drain \<Rightarrow> namespaced_name \<times> Drain \<Rightarrow> bool" and best xs
    using that
  proof (induction xs arbitrary: best)
    case (Cons x xs)
    have "(case best of None \<Rightarrow> Some x | Some c \<Rightarrow> if b x c then Some x else Some c)
        = (case best of None \<Rightarrow> Some x | Some c \<Rightarrow> if b' x c then Some x else Some c)"
      using Cons.prems by (auto split: option.splits)
    moreover have "pick_loop b best' xs = pick_loop b' best' xs"
      if "best' = Some x \<or> best' = best" for best'
      using that Cons.prems by (intro Cons.IH) auto
    ultimately show ?case by (auto split: option.splits)
  qed simp
  show ?thesis
    unfolding BlockingDrain_def
    by (rule arg_cong[where f = "map_option snd"], rule cong)
      (use assms in \<open>auto simp: wf_drains_def\<close>)
qed

lemma drain_order: "preference (\<lambda>x y :: namespaced_name \<times> Drain. ownerBefore (fst x) (fst y)) fst"
  by unfold_locales (auto simp: ownerBefore_less)

lemma BlockingDrain_None:
  "wf_drains drains \<Longrightarrow> BlockingDrain drains self = None \<longleftrightarrow> fst ` set drains \<subseteq> {self}"
  by (auto simp: BlockingDrain_keys filter_empty_conv)

lemma BlockingDrain_Some:
  assumes "wf_drains drains" "BlockingDrain drains self = Some d"
  shows "(drain_Owner d, d) \<in> set drains" "drain_Owner d \<noteq> self"
    "\<And>k d'. (k, d') \<in> set drains \<Longrightarrow> k \<noteq> self \<Longrightarrow> drain_Owner d \<le> k"
proof -
  from assms(2) obtain k where k:
    "pick (\<lambda>x y. ownerBefore (fst x) (fst y)) (filter (\<lambda>x. fst x \<noteq> self) drains) = Some (k, d)"
    unfolding BlockingDrain_keys[OF assms(1)] by auto
  from pick_mem[OF k] have m: "(k, d) \<in> set drains" "k \<noteq> self" by auto
  with assms(1) have "drain_Owner d = k" by (auto simp: wf_drains_def)
  with m show "(drain_Owner d, d) \<in> set drains" "drain_Owner d \<noteq> self" by simp_all
  show "drain_Owner d \<le> k'" if "(k', d') \<in> set drains" "k' \<noteq> self" for k' d'
    using preference.pick_best[OF drain_order k, of "(k', d')"] that \<open>drain_Owner d = k\<close>
    by (simp add: ownerBefore_less not_less)
qed

lemma BlockingDrain_order:
  assumes "wf_drains drains" "wf_drains drains'" "set drains = set drains'"
  shows "BlockingDrain drains self = BlockingDrain drains' self"
proof -
  have "x = y" if "x \<in> set (filter (\<lambda>x. fst x \<noteq> self) drains)" "y \<in> set (filter (\<lambda>x. fst x \<noteq> self) drains)"
    "fst x = fst y" for x y
    using that assms(1) by (auto simp: wf_drains_def distinct_map inj_on_def)
  moreover have "set (filter (\<lambda>x. fst x \<noteq> self) drains) = set (filter (\<lambda>x. fst x \<noteq> self) drains')"
    using assms(3) by simp
  ultimately show ?thesis
    unfolding BlockingDrain_keys[OF assms(1)] BlockingDrain_keys[OF assms(2)]
    by (intro arg_cong[where f = "map_option snd"] preference.pick_unique[OF drain_order])
qed

lemma NextHero_order:
  assumes "distinct (map wl_Key hs)" "set hs = set hs'"
  shows "NextHero L hs = NextHero L hs'"
  unfolding NextHero_def
  using assms by (intro hero_order.pick_unique) (auto simp: distinct_map inj_on_def)

lemma NextHero_first:
  assumes "NextHero L hs = Some h"
  shows "h \<in> set hs" "\<And>x. x \<in> set hs \<Longrightarrow> wl_Key x \<noteq> wl_Key h \<Longrightarrow> heroBefore L h x"
  using assms pick_mem[of "heroBefore L"] hero_order.pick_before[of L] by (auto simp: NextHero_def)

end
