(* ===== verification/Drain_Ctrl.thy ===== *)
theory Drain_Ctrl
  imports Victims Selection Order
begin

text \<open>
  Package \<open>pkg/controller/drain\<close>: the drain controller. \<open>Reconcile\<close> handles one workload event: it
  finishes a victim's suspend cycle, or, for a stuck hero whose turn it is, selects domains, taints all
  their nodes, suspends the workloads on them, reactivates the ones Kueue has evicted and nudges Kueue.
  The source's early returns are the branches below; logging is left out.
\<close>

subsection \<open>Constants\<close>

definition EventHeroExceedsQuota :: string where "EventHeroExceedsQuota = ''HeroExceedsQuota''"
definition EventDrainQueued :: string where "EventDrainQueued = ''DrainQueued''"
definition EventNoFeasibleDomains :: string where "EventNoFeasibleDomains = ''NoFeasibleDomains''"
definition EventAllFeasibleHeroOccupied :: string where
  "EventAllFeasibleHeroOccupied = ''AllFeasibleDomainsHeroOccupied''"
definition EventDrainPlannedDryRun :: string where "EventDrainPlannedDryRun = ''DrainPlannedDryRun''"
definition EventDomainsTainted :: string where "EventDomainsTainted = ''DomainsTainted''"
definition EventTopologyLevelUnknown :: string where "EventTopologyLevelUnknown = ''TopologyLevelUnknown''"
definition EventVictimsSuspended :: string where "EventVictimsSuspended = ''VictimsSuspended''"
definition EventDrainAborted :: string where "EventDrainAborted = ''DrainAborted''"
definition EventSuspendedForHero :: string where "EventSuspendedForHero = ''SuspendedForHeroDrain''"

definition requeueWhileQueued :: duration where "requeueWhileQueued = 30 * second"
definition requeueNoFeasible :: duration where "requeueNoFeasible = minute"
definition requeueVictimCycling :: duration where "requeueVictimCycling = 15 * second"

lemmas requeue_intervals = requeueWhileQueued_def requeueNoFeasible_def requeueVictimCycling_def

subsection \<open>Lookups\<close>

definition clusterQueueFor :: "workload \<Rightarrow> cluster_queue option api" where
  "clusterQueueFor wl =
     andthen
       (case wl_Admission wl of
          Some adm \<Rightarrow> ret (Some (adm_ClusterQueue adm))
        | None \<Rightarrow>
            if wl_QueueName wl \<noteq> []
            then andthen (or_none (get_local_queue (NamespacedName (Namespace (wl_Key wl)) (wl_QueueName wl))))
                   (\<lambda>lq. ret (map_option lq_ClusterQueue lq))
            else ret (Some []))
       (\<lambda>name.
         case name of
           None \<Rightarrow> ret None
         | Some cqName \<Rightarrow> if cqName = [] then ret None else or_none (get_cluster_queue cqName))"

definition drainsInFlight :: "Config \<Rightarrow> (namespaced_name \<times> Drain) list api" where
  "drainsInFlight cfg =
     andthen (list_nodes (MatchingFields (NodeDrainTainted cfg) index_true))
       (\<lambda>tainted. ret (FindDrains tainted (cfg_TaintKey cfg)))"

text \<open>The first topology reached through the queue's flavors, in order; lookups that fail are skipped.\<close>

fun topology_loop :: "flavor_quotas list \<Rightarrow> string list api" where
  "topology_loop [] = ret []"
| "topology_loop (fq # rest) =
     andthen (attempt (get_flavor (fq_Name fq))) (\<lambda>r.
       case r of
         Inl _ \<Rightarrow> topology_loop rest
       | Inr rf \<Rightarrow>
           (case rf_TopologyName rf of
              None \<Rightarrow> topology_loop rest
            | Some t \<Rightarrow>
                andthen (attempt (get_topology t)) (\<lambda>r'.
                  case r' of Inl _ \<Rightarrow> topology_loop rest | Inr topo \<Rightarrow> ret (topo_Levels topo))))"

definition topologyLevels :: "cluster_queue \<Rightarrow> string list api" where
  "topologyLevels cq = topology_loop (concat (cq_ResourceGroups cq))"

definition drainLevel :: "workload \<Rightarrow> cluster_queue \<Rightarrow> (string \<times> string) option api" where
  "drainLevel wl cq =
     (let required = RequiredTopologyLevels wl;
          unknown = (\<lambda>args. seq (emit (wl_Key wl) EventTypeWarning EventTopologyLevelUnknown args) (ret None)) in
      if required = [] then unknown []
      else andthen (topologyLevels cq) (\<lambda>topoLevels.
        if topoLevels = [] then unknown []
        else case CoarsestLevel required topoLevels of
               None \<Rightarrow> unknown [ArgStrings required, ArgStrings topoLevels]
             | Some level \<Rightarrow>
                 (case GroupingLevel wl topoLevels level of
                    None \<Rightarrow> unknown [ArgStrings topoLevels]
                  | Some groupingLevel \<Rightarrow> ret (Some (level, groupingLevel)))))"

definition hero_here :: "Config \<Rightarrow> workload \<Rightarrow> bool api" where
  "hero_here cfg wl = andthen (clusterQueueFor wl) (\<lambda>cq. ret (IsHero wl cq cfg = ReasonIsHero))"

definition stuckHeroes :: "Config \<Rightarrow> workload list \<Rightarrow> workload list api" where
  "stuckHeroes cfg all =
     loop_over all [] (\<lambda>stuck wl.
       if deactivated wl then ret stuck
       else if \<not> IsStuckTASNoFit wl (cfg_StuckDetection cfg) then ret stuck
       else andthen (hero_here cfg wl) (\<lambda>ok. ret (if ok then stuck @ [wl] else stuck)))"

definition otherAdmittedHeroes :: "Config \<Rightarrow> workload list \<Rightarrow> namespaced_name \<Rightarrow> workload list api" where
  "otherAdmittedHeroes cfg all self =
     loop_over all [] (\<lambda>out wl.
       if wl_Key wl = self \<or> wl_Admission wl = None then ret out
       else if IsStatusConditionTrue (wl_Conditions wl) WorkloadFinished then ret out
       else andthen (hero_here cfg wl) (\<lambda>ok. ret (if ok then out @ [wl] else out)))"

definition gpuNominalQuota :: "cluster_queue \<Rightarrow> string \<Rightarrow> quantity" where
  "gpuNominalQuota cq gpu =
     foldl (\<lambda>t fq. foldl (\<lambda>t rq. if fst rq = gpu then t + snd rq else t) t (fq_Resources fq)) 0
       (concat (cq_ResourceGroups cq))"

definition buildSnapshot :: "kueue_lib \<Rightarrow> Config \<Rightarrow> string \<Rightarrow> string \<Rightarrow> namespaced_name \<Rightarrow> workload list
    \<Rightarrow> Snapshot api" where
  "buildSnapshot L cfg level groupingLevel self allWorkloads =
     andthen (list_nodes (\<lambda>_. True)) (\<lambda>nodes.
     andthen (list_pods (\<lambda>_. True)) (\<lambda>pods.
     andthen (otherAdmittedHeroes cfg allWorkloads self) (\<lambda>otherHeroes.
       case Build L \<lparr>in_Level = level, in_GroupLevel = groupingLevel, in_Nodes = nodes, in_Pods = pods,
                     in_OtherHeroes = otherHeroes, in_Self = self, in_Cfg = cfg\<rparr> of
         None \<Rightarrow> fail RuntimePanic
       | Some snap \<Rightarrow> ret snap)))"

subsection \<open>Victims\<close>

definition occupant_step :: "namespaced_name \<Rightarrow> namespaced_name list \<Rightarrow> pod \<Rightarrow> namespaced_name list" where
  "occupant_step self occupants p =
     (if pod_terminal p then occupants
      else case pod_Annotations p WorkloadAnnotation of
             None \<Rightarrow> occupants
           | Some wlName \<Rightarrow>
               let key = NamespacedName (Namespace (pod_Key p)) wlName in
               if key \<in> set occupants then occupants
               else if key = self then occupants
               else occupants @ [key])"

definition victimWorkloadsOn :: "string list \<Rightarrow> workload \<Rightarrow> namespaced_name list api" where
  "victimWorkloadsOn nodes heroWL =
     loop_over nodes [] (\<lambda>occupants nodeName.
       andthen (list_pods (MatchingFields PodNode nodeName)) (\<lambda>pods.
         ret (foldl (occupant_step (wl_Key heroWL)) occupants pods)))"

definition suspended :: "string \<Rightarrow> workload \<Rightarrow> workload" where
  "suspended ownerRef v =
     v\<lparr>wl_Active := Some False, wl_Annotations := (wl_Annotations v)(DeactivatedForAnnotation \<mapsto> ownerRef)\<rparr>"

definition deactivateVictim :: "workload \<Rightarrow> workload \<Rightarrow> string \<Rightarrow> unit api" where
  "deactivateVictim victim heroWL ownerRef =
     seq (patch_workload victim (suspended ownerRef victim))
       (seq (count_metric inc_suspended)
         (emit (wl_Key victim) EventTypeNormal EventSuspendedForHero [ArgString (wl_UID heroWL)]))"

definition evictedByDeactivation :: "workload \<Rightarrow> bool" where
  "evictedByDeactivation wl =
     (case FindStatusCondition (wl_Conditions wl) WorkloadEvicted of
        None \<Rightarrow> False
      | Some c \<Rightarrow>
          cond_Status c = ConditionTrue \<and>
          (cond_Reason c = WorkloadDeactivated \<or>
           length WorkloadDeactivated < length (cond_Reason c) \<and>
           take (length WorkloadDeactivated) (cond_Reason c) = WorkloadDeactivated))"

definition hero_classed :: "Config \<Rightarrow> workload \<Rightarrow> bool" where
  "hero_classed cfg wl =
     (case wl_PriorityClassRef wl of None \<Rightarrow> False | Some ref \<Rightarrow> pcr_Name ref = cfg_HeroPriorityClassName cfg)"

text \<open>One occupant of the tainted nodes; the counts are \<open>pending\<close> and \<open>suspended\<close>.\<close>

definition cycle_occupant :: "Config \<Rightarrow> workload \<Rightarrow> string \<Rightarrow> int \<times> int \<Rightarrow> namespaced_name \<Rightarrow> (int \<times> int) api" where
  "cycle_occupant cfg heroWL ownerRef counts key =
     (case counts of (pending, suspendedCount) \<Rightarrow>
       andthen (attempt (get_workload key)) (\<lambda>r.
         case r of
           Inl _ \<Rightarrow> ret (pending, suspendedCount)
         | Inr victim \<Rightarrow>
             if hero_classed cfg victim then ret (pending, suspendedCount)
             else if deactivated victim then ret (pending + 1, suspendedCount)
             else seq (deactivateVictim victim heroWL ownerRef) (ret (pending + 1, suspendedCount + 1))))"

definition slices_Min :: "string list \<Rightarrow> string" where
  "slices_Min xs = foldl min (hd xs) (tl xs)"

definition nudgeWhilePending :: "Config \<Rightarrow> workload \<Rightarrow> string list \<Rightarrow> Result api" where
  "nudgeWhilePending cfg heroWL taintedNodes =
     (if wl_Admission heroWL \<noteq> None \<or> taintedNodes = [] then ret no_requeue
      else andthen Now (\<lambda>now.
        andthen (NudgeKueue (slices_Min taintedNodes) now (cfg_NudgeInterval cfg)) (\<lambda>bumped.
          ret (requeue_after (cfg_NudgeInterval cfg)))))"

definition cycleVictims :: "Config \<Rightarrow> workload \<Rightarrow> string list \<Rightarrow> Result api" where
  "cycleVictims cfg heroWL taintedNodes =
     (let ownerRef = Namespace (wl_Key heroWL) @ ''/'' @ Name (wl_Key heroWL) in
      andthen (victimWorkloadsOn taintedNodes heroWL) (\<lambda>occupants.
      andthen (loop_over occupants (0, 0) (cycle_occupant cfg heroWL ownerRef)) (\<lambda>(pending, suspendedCount).
      seq (if 0 < suspendedCount
           then emit (wl_Key heroWL) EventTypeNormal EventVictimsSuspended [ArgInt suspendedCount] else ret ())
      (andthen (list_workloads (MatchingFields WorkloadDeactivatedFor ownerRef)) (\<lambda>ours.
      seq (for_each ours (\<lambda>victim.
             if deactivated victim \<and> evictedByDeactivation victim then Reactivate victim else ret ()))
      (if 0 < pending then ret (requeue_after requeueVictimCycling)
       else nudgeWhilePending cfg heroWL taintedNodes))))))"

definition reconcileVictimEvent :: "workload \<Rightarrow> string \<Rightarrow> Result api" where
  "reconcileVictimEvent victim ownerRef =
     (let finish = (if evictedByDeactivation victim then seq (Reactivate victim) (ret no_requeue)
                    else ret no_requeue) in
      if \<not> deactivated victim then ret no_requeue
      else case strings_Cut ownerRef CHR ''/'' of
             None \<Rightarrow> finish
           | Some (ns, name) \<Rightarrow>
               andthen (or_none (get_workload (NamespacedName ns name))) (\<lambda>heroWL.
                 case heroWL of None \<Rightarrow> seq (Reactivate victim) (ret no_requeue) | Some _ \<Rightarrow> finish))"

subsection \<open>Ending a drain early\<close>

definition abortDrain :: "kueue_lib \<Rightarrow> Config \<Rightarrow> workload \<Rightarrow> Drain \<Rightarrow> string \<Rightarrow> Result api" where
  "abortDrain L cfg heroWL own reason =
     seq (SweepFor (wl_Key heroWL))
     (seq (for_each (drain_Nodes own) (\<lambda>nodeName.
             seq (RemoveOwnedTaint L nodeName (cfg_TaintKey cfg) (wl_Key heroWL)) (ret ())))
     (seq (count_metric (inc_completed OutcomeAborted))
     (seq (emit (wl_Key heroWL) EventTypeWarning EventDrainAborted [ArgString reason])
       (ret (requeue_after requeueWhileQueued)))))"

definition reason_text :: "NotHeroReason \<Rightarrow> string" where
  "reason_text r =
     (case r of
        ReasonIsHero \<Rightarrow> []
      | ReasonCQNotHero \<Rightarrow> ''ClusterQueueNotHeroEnabled''
      | ReasonWrongPriorityClass \<Rightarrow> ''NotHeroPriorityClass''
      | ReasonMissingToleration \<Rightarrow> ''MissingHeroTaintToleration''
      | ReasonNoPriorityClassRef \<Rightarrow> ''NoPriorityClassRef''
      | ReasonNoSliceTopology \<Rightarrow> ''NoPodSetRequiringSliceTopology'')"

definition handleNonHero :: "kueue_lib \<Rightarrow> Config \<Rightarrow> workload \<Rightarrow> NotHeroReason \<Rightarrow> Result api" where
  "handleNonHero L cfg wl reason =
     andthen (drainsInFlight cfg) (\<lambda>drains.
       case map_of drains (wl_Key wl) of
         Some own \<Rightarrow> abortDrain L cfg wl own (''workload is no longer a hero: '' @ reason_text reason)
       | None \<Rightarrow> ret no_requeue)"

definition refuseOverQuota :: "kueue_lib \<Rightarrow> Config \<Rightarrow> workload \<Rightarrow> cluster_queue \<Rightarrow> Drain option \<Rightarrow> Result option api" where
  "refuseOverQuota L cfg wl cq own =
     (let heroGPU = GPURequest wl (cfg_GPUResourceName cfg);
          nominal = gpuNominalQuota cq (cfg_GPUResourceName cfg) in
      if heroGPU \<le> nominal then ret None
      else seq (emit (wl_Key wl) EventTypeWarning EventHeroExceedsQuota
                 [ArgQuantity heroGPU, ArgString (cfg_GPUResourceName cfg), ArgString (cq_Name cq), ArgQuantity nominal])
        (case own of
           Some d \<Rightarrow> andthen (abortDrain L cfg wl d ''hero exceeds nominal quota'') (\<lambda>res. ret (Some res))
         | None \<Rightarrow> ret (Some no_requeue)))"

definition reportDrainQueued :: "workload \<Rightarrow> Drain \<Rightarrow> unit api" where
  "reportDrainQueued wl blocking =
     andthen (attempt (get_workload (drain_Owner blocking))) (\<lambda>r.
       emit (wl_Key wl) EventTypeNormal EventDrainQueued
         [ArgString (case r of Inl _ \<Rightarrow> ''UNKNOWN'' | Inr blockingWL \<Rightarrow> wl_UID blockingWL),
          ArgInt (int (length (drain_Nodes blocking)))])"

subsection \<open>Selection outcome\<close>

definition selectionOutcomeLabel :: "InfeasibleReason + DrainPlan \<Rightarrow> selection_outcome" where
  "selectionOutcomeLabel r =
     (case r of
        Inr plan \<Rightarrow> SelectionPlanned
      | Inl AllFeasibleHeroOccupied \<Rightarrow> SelectionAllFeasibleOccupied
      | Inl NoFeasibleDomains \<Rightarrow> SelectionNoFeasibleDomains)"

definition infeasibleResponse :: "InfeasibleReason \<Rightarrow> event_type \<times> string \<times> Result" where
  "infeasibleResponse reason =
     (case reason of
        AllFeasibleHeroOccupied \<Rightarrow>
          (EventTypeNormal, EventAllFeasibleHeroOccupied, requeue_after requeueWhileQueued)
      | NoFeasibleDomains \<Rightarrow>
          (EventTypeWarning, EventNoFeasibleDomains, requeue_after requeueNoFeasible))"

definition infeasible_text :: "InfeasibleReason \<Rightarrow> string" where
  "infeasible_text reason =
     (case reason of NoFeasibleDomains \<Rightarrow> ''NoFeasibleDomains'' | AllFeasibleHeroOccupied \<Rightarrow> ''AllFeasibleHeroOccupied'')"

subsection \<open>Reconcile\<close>

definition taint_node :: "kueue_lib \<Rightarrow> Config \<Rightarrow> namespaced_name \<Rightarrow> cluster_queue \<Rightarrow> string \<Rightarrow> unit api" where
  "taint_node L cfg req cq nodeName =
     andthen Now (\<lambda>now.
     andthen (attempt (EnsureTaint L nodeName (cfg_TaintKey cfg) req (cq_Name cq) now)) (\<lambda>r.
       case r of Inl e \<Rightarrow> fail (TaintingFailed nodeName e) | Inr _ \<Rightarrow> ret ()))"

text \<open>Phase 2: taint every node of the plan, then cycle the victims.\<close>

definition execute_plan :: "kueue_lib \<Rightarrow> Config \<Rightarrow> namespaced_name \<Rightarrow> workload \<Rightarrow> cluster_queue \<Rightarrow> Drain option
    \<Rightarrow> DrainPlan \<Rightarrow> Result api" where
  "execute_plan L cfg req wl cq own plan =
     (if cfg_DryRun cfg then
        seq (emit (wl_Key wl) EventTypeNormal EventDrainPlannedDryRun
               [ArgStrings (dp_DomainIDs plan), ArgInt (int (length (dp_Nodes plan))),
                ArgInt (int (length (dp_Victims plan))), ArgCost (dp_TotalCost plan)])
          (ret no_requeue)
      else
        seq (for_each (dp_Nodes plan) (taint_node L cfg req cq))
        (seq (if own = None then count_metric inc_started else ret ())
        (seq (emit (wl_Key wl) EventTypeNormal EventDomainsTainted
               [ArgStrings (dp_DomainIDs plan), ArgInt (int (length (dp_Nodes plan))),
                ArgInt (int (length (dp_Victims plan)))])
          (cycleVictims cfg wl (dp_Nodes plan)))))"

definition workload_map :: "workload list \<Rightarrow> namespaced_name \<rightharpoonup> workload" where
  "workload_map all = map_of (rev (map (\<lambda>w. (wl_Key w, w)) all))"

definition hero_spec :: "Config \<Rightarrow> namespaced_name \<Rightarrow> workload \<Rightarrow> cluster_queue \<Rightarrow> HeroSpec" where
  "hero_spec cfg req wl cq =
     \<lparr>hs_Key = req, hs_Priority = Priority wl, hs_PodCount = PodCount wl, hs_ClusterQueue = cq_Name cq,
      hs_Demand = Demand wl (cfg_GPUResourceName cfg)\<rparr>"

text \<open>Phase 1: the snapshot and the selection.\<close>

definition plan_drain :: "kueue_lib \<Rightarrow> Config \<Rightarrow> namespaced_name \<Rightarrow> workload \<Rightarrow> cluster_queue \<Rightarrow> Drain option
    \<Rightarrow> workload list \<Rightarrow> Result api" where
  "plan_drain L cfg req wl cq own all =
     andthen (drainLevel wl cq) (\<lambda>levels.
       case levels of
         None \<Rightarrow> ret no_requeue
       | Some (level, groupingLevel) \<Rightarrow>
           andthen (buildSnapshot L cfg level groupingLevel req all) (\<lambda>snap.
           andthen Now (\<lambda>now.
             let sel = SelectDomains snap (hero_spec cfg req wl cq) (workload_map all) cfg now in
             seq (count_metric (inc_selection (selectionOutcomeLabel sel)))
               (case sel of
                  Inl reason \<Rightarrow>
                    (case own of
                       Some d \<Rightarrow> abortDrain L cfg wl d (infeasible_text reason)
                     | None \<Rightarrow>
                         (case infeasibleResponse reason of (ty, eventReason, res) \<Rightarrow>
                            seq (emit (wl_Key wl) ty eventReason [ArgString level]) (ret res)))
                | Inr plan \<Rightarrow> execute_plan L cfg req wl cq own plan))))"

definition next_in_line :: "kueue_lib \<Rightarrow> workload list \<Rightarrow> workload \<Rightarrow> bool" where
  "next_in_line L stuck wl = (case NextHero L stuck of None \<Rightarrow> False | Some h \<Rightarrow> wl_Key h = wl_Key wl)"

text \<open>Phase 0 for a stuck hero: quota, one drain at a time, the line of stuck heroes.\<close>

definition take_turn :: "kueue_lib \<Rightarrow> Config \<Rightarrow> namespaced_name \<Rightarrow> workload \<Rightarrow> cluster_queue
    \<Rightarrow> (namespaced_name \<times> Drain) list \<Rightarrow> Result api" where
  "take_turn L cfg req wl cq drains =
     (let own = map_of drains req in
      andthen (refuseOverQuota L cfg wl cq own) (\<lambda>refused.
        case refused of
          Some res \<Rightarrow> ret res
        | None \<Rightarrow>
            (case BlockingDrain drains req of
               Some blocking \<Rightarrow> seq (reportDrainQueued wl blocking) (ret (requeue_after requeueWhileQueued))
             | None \<Rightarrow>
                 andthen (list_workloads (\<lambda>_. True)) (\<lambda>all.
                 andthen (stuckHeroes cfg all) (\<lambda>stuck.
                   if own = None \<and> \<not> next_in_line L stuck wl then ret (requeue_after requeueWhileQueued)
                   else plan_drain L cfg req wl cq own all)))))"

definition reconcile_hero :: "kueue_lib \<Rightarrow> Config \<Rightarrow> namespaced_name \<Rightarrow> workload \<Rightarrow> cluster_queue \<Rightarrow> Result api" where
  "reconcile_hero L cfg req wl cq =
     andthen (drainsInFlight cfg) (\<lambda>drains.
     seq (count_metric (set_in_flight (length drains)))
       (if \<not> IsStuckTASNoFit wl (cfg_StuckDetection cfg) then
          (case map_of drains req of
             Some own \<Rightarrow> cycleVictims cfg wl (drain_Nodes own)
           | None \<Rightarrow> ret no_requeue)
        else take_turn L cfg req wl cq drains))"

definition reconcile_workload :: "kueue_lib \<Rightarrow> Config \<Rightarrow> namespaced_name \<Rightarrow> workload \<Rightarrow> Result api" where
  "reconcile_workload L cfg req wl =
     (case wl_Annotations wl DeactivatedForAnnotation of
        Some ownerRef \<Rightarrow> reconcileVictimEvent wl ownerRef
      | None \<Rightarrow>
          if deactivated wl then ret no_requeue
          else andthen (clusterQueueFor wl) (\<lambda>cqo.
            let reason = IsHero wl cqo cfg in
            case cqo of
              None \<Rightarrow> handleNonHero L cfg wl reason
            | Some cq \<Rightarrow>
                if reason \<noteq> ReasonIsHero then handleNonHero L cfg wl reason
                else reconcile_hero L cfg req wl cq))"

definition Reconcile :: "kueue_lib \<Rightarrow> Config \<Rightarrow> namespaced_name \<Rightarrow> Result api" where
  "Reconcile L cfg req =
     andthen (or_none (get_workload req)) (\<lambda>wl.
       case wl of None \<Rightarrow> ret no_requeue | Some wl \<Rightarrow> reconcile_workload L cfg req wl)"

subsection \<open>Events\<close>

record nodeView =
  nv_usable :: bool
  nv_gpu :: int
  nv_owner :: namespaced_name
  nv_startedAt :: string
  nv_nudge :: string

definition nodeView_of :: "Config \<Rightarrow> node \<Rightarrow> nodeView" where
  "nodeView_of cfg n =
     (let owner = (case Owner n (cfg_TaintKey cfg) of None \<Rightarrow> zero_name | Some k \<Rightarrow> k) in
      \<lparr>nv_usable = NodeUsable n (cfg_TaintKey cfg) owner,
       nv_gpu = quantity_Value (case node_Allocatable n (cfg_GPUResourceName cfg) of None \<Rightarrow> 0 | Some q \<Rightarrow> q),
       nv_owner = owner,
       nv_startedAt = mget (node_Annotations n) StartedAtAnnotation,
       nv_nudge = mget (node_Annotations n) NudgeAnnotation\<rparr>)"

text \<open>\<open>maps.Equal\<close> on labels is equality of the finite maps.\<close>

definition nodeAffectsPlacement :: "Config \<Rightarrow> node \<Rightarrow> node \<Rightarrow> bool" where
  "nodeAffectsPlacement cfg old new \<longleftrightarrow>
     node_Labels old \<noteq> node_Labels new \<or> nodeView_of cfg old \<noteq> nodeView_of cfg new"

definition stuckRequests :: "Config \<Rightarrow> namespaced_name list api" where
  "stuckRequests cfg =
     andthen (attempt (list_workloads (MatchingFields (WorkloadStuck cfg) index_true))) (\<lambda>r.
       case r of Inl _ \<Rightarrow> ret [] | Inr stuck \<Rightarrow> ret (map wl_Key stuck))"

definition mapNodeToOwner :: "Config \<Rightarrow> node \<Rightarrow> namespaced_name list api" where
  "mapNodeToOwner cfg n =
     (case Owner n (cfg_TaintKey cfg) of Some owner \<Rightarrow> ret [owner] | None \<Rightarrow> stuckRequests cfg)"

definition mapHeroEventToStuck :: "Config \<Rightarrow> workload \<Rightarrow> namespaced_name list api" where
  "mapHeroEventToStuck cfg wl =
     (case wl_PriorityClassRef wl of
        None \<Rightarrow> ret []
      | Some ref \<Rightarrow> if pcr_Name ref \<noteq> cfg_HeroPriorityClassName cfg then ret [] else stuckRequests cfg)"

end
