(* ===== verification/Drain_Laws.thy ===== *)
theory Drain_Laws
  imports Drain_Ctrl
begin

text \<open>
  What a reconcile of the drain controller keeps true of the cluster, under any interference by other
  actors and any failing call. Who owns a drain: after a reconcile of \<open>req\<close> either no new owner
  appeared or \<open>req\<close> is the only one. What is written: every write in the log is one of the few
  \<open>drain_write\<close> allows the hero \<open>req\<close>.
\<close>

subsection \<open>Reads\<close>

context world_invariant
begin

lemma keeps_drain_reads:
  "keeps I (clusterQueueFor wl)"
  "keeps I (drainsInFlight cfg)"
  "keeps I (topology_loop fqs)"
  "keeps I (drainLevel wl cq)"
  "keeps I (stuckHeroes cfg all)"
  "keeps I (otherAdmittedHeroes cfg all k)"
  "keeps I (victimWorkloadsOn ns wl)"
  "keeps I (reportDrainQueued wl d)"
proof -
  show cq: "keeps I (clusterQueueFor v)" for v
    unfolding clusterQueueFor_def by (intro keeps_intro)
  show "keeps I (drainsInFlight cfg)"
    unfolding drainsInFlight_def by (intro keeps_intro)
  show tl: "keeps I (topology_loop fqs)" for fqs
    by (induction fqs) (auto intro!: keeps_intro)
  show "keeps I (drainLevel wl cq)"
    unfolding drainLevel_def topologyLevels_def Let_def by (intro keeps_intro tl)
  show "keeps I (stuckHeroes cfg all)"
    unfolding stuckHeroes_def hero_here_def by (intro keeps_intro cq)
  show "keeps I (otherAdmittedHeroes cfg all k)"
    unfolding otherAdmittedHeroes_def hero_here_def by (intro keeps_intro cq)
  show "keeps I (victimWorkloadsOn ns wl)"
    unfolding victimWorkloadsOn_def by (intro keeps_intro)
  show "keeps I (reportDrainQueued wl d)"
    unfolding reportDrainQueued_def by (intro keeps_intro)
qed

lemma keeps_buildSnapshot: "keeps I (buildSnapshot L cfg l g k all)"
  unfolding buildSnapshot_def by (intro keeps_intro keeps_drain_reads)

end

lemmas drain_reads_keep [keeps_intro] =
  owners.keeps_drain_reads owners.keeps_buildSnapshot versions.keeps_drain_reads versions.keeps_buildSnapshot

subsection \<open>The owners of drains\<close>

lemma owners_in_mono: "owners_in key T S w \<Longrightarrow> S \<subseteq> S' \<Longrightarrow> owners_in key T S' w"
  by (auto simp: owners_in_def)

text \<open>
  Reading the drains in flight bounds the owners from then on, however far the cache lags behind changes
  made since the reconcile began.
\<close>

lemma owners_shown:
  fixes l :: "kind \<Rightarrow> nat"
  assumes "shows_owners key T n w" "l KNode \<le> n" "node_owners key (w_Nodes w) \<subseteq> S"
  shows "node_owners key (w_Nodes w) \<subseteq> S \<inter> (node_owners key (w_Nodes (as_of l w)) \<union> T)"
proof (cases "l KNode = 0 \<or> w_Past w = []")
  case False
  then have i: "l KNode - 1 < n" "l KNode - 1 < length (w_Past w)" "min (l KNode) (length (w_Past w)) = l KNode"
    using assms(1,2) by (auto simp: shows_owners_def min_def)
  then have "take n (w_Past w) ! (l KNode - 1) \<in> set (take n (w_Past w))" by (intro nth_mem) simp
  with i have "w_Past w ! (min (l KNode) (length (w_Past w)) - 1) \<in> set (take n (w_Past w))" by simp
  with False assms(1,3) show ?thesis by (auto simp: shows_owners_def as_of_def behind_def)
qed (use assms(3) in \<open>auto simp: as_of_def behind_def\<close>)

lemma triple_drainsInFlight:
  "triple (owners_in (cfg_TaintKey cfg) T S) (drainsInFlight cfg)
     (\<lambda>drains. owners_in (cfg_TaintKey cfg) T (S \<inter> (fst ` set drains \<union> T))) (owners_in (cfg_TaintKey cfg) T S)"
proof -
  let ?I = "owners_in (cfg_TaintKey cfg) T"
    and ?sel = "MatchingFields (NodeDrainTainted cfg) index_true"
  have shown: "?I (S \<inter> (fst ` set (FindDrains (filter ?sel (w_Nodes (as_of l w))) (cfg_TaintKey cfg)) \<union> T)) w"
    if "?I S w" "shows_owners (cfg_TaintKey cfg) T n w" "l KNode \<le> n" for l n w
  proof -
    have "fst ` set (FindDrains (filter ?sel ns) key) = node_owners key ns" if "key = cfg_TaintKey cfg" for ns key
      unfolding index_selects that FindDrains_filter by (simp add: FindDrains_keys node_owners_def)
    then show ?thesis
      using owners_shown[where l = l, OF \<open>shows_owners _ T n w\<close> \<open>l KNode \<le> n\<close>, of S] \<open>?I S w\<close>
      by (simp add: owners_in_def)
  qed
  have "triple (?I S) (list_nodes ?sel)
     (\<lambda>ns. ?I (S \<inter> (fst ` set (FindDrains ns (cfg_TaintKey cfg)) \<union> T))) (?I S)"
    unfolding triple_def
  proof (intro allI impI)
    fix w assume w: "?I S w"
    show "case list_nodes ?sel w of (Inl e, w') \<Rightarrow> ?I S w'
      | (Inr ns, w') \<Rightarrow> ?I (S \<inter> (fst ` set (FindDrains ns (cfg_TaintKey cfg)) \<union> T)) w'"
    proof (cases "w_Script w")
      case Nil
      with shown[OF w shows_owners_0, of "\<lambda>_. 0"] show ?thesis
        by (simp add: list_nodes_def read_def call_def lag_def)
    next
      case (Cons e rest)
      obtain acts fault where e: "w_Script w = (acts, fault) # rest" using Cons by (cases e) simp
      from w e obtain n where n: "?I S (interfere acts (w\<lparr>w_Script := rest\<rparr>))"
        "shows_owners (cfg_TaintKey cfg) T n (interfere acts (w\<lparr>w_Script := rest\<rparr>))"
        "\<And>l. fault = Some (Lagging l) \<Longrightarrow> l KNode \<le> n"
        by (rule owners_in_call) blast
      show ?thesis
        using e n(1,3) shown[OF n(1,2)] shown[OF n(1) shows_owners_0, of "\<lambda>_. 0"]
        by (auto simp: list_nodes_def read_def call_def lag_def Let_def split: option.split fault.split)
    qed
  qed
  then show ?thesis
    unfolding drainsInFlight_def by (rule triple_bind) (simp add: triple_def ret_def)
qed

lemma owners_cycleVictims [keeps_intro]: "keeps (owners_in key T S) (cycleVictims cfg wl ns)"
  unfolding cycleVictims_def cycle_occupant_def deactivateVictim_def nudgeWhilePending_def Let_def
  by (intro keeps_intro)

lemma owners_abortDrain [keeps_intro]: "keeps (owners_in (cfg_TaintKey cfg) T S) (abortDrain L cfg wl d reason)"
  unfolding abortDrain_def by (intro keeps_intro)

lemma owners_refuseOverQuota [keeps_intro]: "keeps (owners_in (cfg_TaintKey cfg) T S) (refuseOverQuota L cfg wl cq own)"
  unfolding refuseOverQuota_def Let_def by (intro keeps_intro)

lemma owners_take_turn:
  assumes "wf_key req" "req \<in> S" "req \<in> T"
  shows "keeps (owners_in (cfg_TaintKey cfg) T S) (take_turn L cfg req wl cq drains)"
  unfolding take_turn_def plan_drain_def execute_plan_def taint_node_def Let_def
  by (intro keeps_intro assms)

lemma owners_take_turn_blocked:
  assumes "BlockingDrain drains req \<noteq> None"
  shows "keeps (owners_in (cfg_TaintKey cfg) T S) (take_turn L cfg req wl cq drains)"
  unfolding take_turn_def Let_def using assms by (intro keeps_intro) simp_all

text \<open>A hero that is not blocked is the only owner there can be.\<close>

lemma not_blocked_owners:
  assumes "BlockingDrain drains req = None"
  shows "fst ` set drains \<subseteq> {req}"
  using assms by (auto simp: BlockingDrain_def filter_empty_conv)

text \<open>The owners after a reconcile of \<open>req\<close>: those there were, or \<open>req\<close> alone.\<close>

definition owners_after :: "string \<Rightarrow> namespaced_name set \<Rightarrow> namespaced_name \<Rightarrow> world \<Rightarrow> bool" where
  "owners_after key S req w \<longleftrightarrow> owners_in key {req} S w \<or> owners_in key {req} {req} w"

lemma owners_after_triple:
  assumes "keeps (owners_in key {req} T) m" "T \<subseteq> S \<or> T \<subseteq> {req}"
  shows "triple (owners_in key {req} T) m (\<lambda>_. owners_after key S req) (owners_after key S req)"
  using assms(1) unfolding keeps_triple
  by (rule triple_weaken) (use assms(2) in \<open>auto simp: owners_after_def intro: owners_in_mono\<close>)

lemma owners_reconcile_hero:
  assumes "wf_key req"
  shows "triple (owners_in (cfg_TaintKey cfg) {req} S) (reconcile_hero L cfg req wl cq)
     (\<lambda>_. owners_after (cfg_TaintKey cfg) S req) (owners_after (cfg_TaintKey cfg) S req)"
  unfolding reconcile_hero_def
proof (rule triple_bind)
  show "triple (owners_in (cfg_TaintKey cfg) {req} S) (drainsInFlight cfg)
     (\<lambda>drains. owners_in (cfg_TaintKey cfg) {req} (S \<inter> (fst ` set drains \<union> {req}))) (owners_after (cfg_TaintKey cfg) S req)"
    by (rule triple_weaken[OF triple_drainsInFlight[of cfg "{req}" S]]) (simp_all add: owners_after_def)
  fix drains :: "(namespaced_name \<times> Drain) list"
  let ?act = "seq (count_metric (set_in_flight (length drains)))
     (if \<not> IsStuckTASNoFit wl (cfg_StuckDetection cfg)
      then case map_of drains req of None \<Rightarrow> ret no_requeue | Some own \<Rightarrow> cycleVictims cfg wl (drain_Nodes own)
      else take_turn L cfg req wl cq drains)"
  show "triple (owners_in (cfg_TaintKey cfg) {req} (S \<inter> (fst ` set drains \<union> {req}))) ?act
     (\<lambda>_. owners_after (cfg_TaintKey cfg) S req) (owners_after (cfg_TaintKey cfg) S req)"
  proof (cases "BlockingDrain drains req")
    case None
    then have sub: "S \<inter> (fst ` set drains \<union> {req}) \<subseteq> {req}" using not_blocked_owners by blast
    have "keeps (owners_in (cfg_TaintKey cfg) {req} {req}) ?act"
      by (intro keeps_intro owners_take_turn assms) simp_all
    then have "triple (owners_in (cfg_TaintKey cfg) {req} {req}) ?act
       (\<lambda>_. owners_after (cfg_TaintKey cfg) S req) (owners_after (cfg_TaintKey cfg) S req)"
      by (rule owners_after_triple) simp
    then show ?thesis
      by (rule triple_weaken) (auto intro: owners_in_mono[OF _ sub])
  next
    case (Some d)
    then have "keeps (owners_in (cfg_TaintKey cfg) {req} (S \<inter> (fst ` set drains \<union> {req}))) ?act"
      by (intro keeps_intro owners_take_turn_blocked) simp
    then show ?thesis by (rule owners_after_triple) simp
  qed
qed

lemma owners_reconcileVictimEvent [keeps_intro]: "keeps (owners_in key T S) (reconcileVictimEvent wl ref)"
  unfolding reconcileVictimEvent_def Let_def by (intro keeps_intro)

lemma owners_handleNonHero [keeps_intro]: "keeps (owners_in (cfg_TaintKey cfg) {req} S) (handleNonHero L cfg wl reason)"
  unfolding handleNonHero_def by (intro keeps_intro)

lemma owners_Reconcile:
  assumes "wf_key req" "owners_in (cfg_TaintKey cfg) {req} S w"
  shows "owners_after (cfg_TaintKey cfg) S req (snd (Reconcile L cfg req w))"
proof -
  let ?P = "owners_in (cfg_TaintKey cfg) {req} S" and ?E = "owners_after (cfg_TaintKey cfg) S req"
  have same: "triple ?P m (\<lambda>_. ?E) ?E" if "keeps ?P m" for m :: "Result api"
    using that by (rule owners_after_triple) simp
  have first: "triple ?P m (\<lambda>_. ?P) ?E" if "keeps ?P m" for m :: "'a api"
    using that unfolding keeps_triple by (rule triple_weaken) (simp_all add: owners_after_def)
  have wl: "triple ?P (reconcile_workload L cfg req wl) (\<lambda>_. ?E) ?E" for wl
  proof -
    have "triple ?P (let reason = IsHero wl cqo cfg in case cqo of
        None \<Rightarrow> handleNonHero L cfg wl reason
      | Some cq \<Rightarrow> if reason \<noteq> ReasonIsHero then handleNonHero L cfg wl reason
          else reconcile_hero L cfg req wl cq) (\<lambda>_. ?E) ?E" for cqo
      using owners_reconcile_hero[OF assms(1)] same[OF owners_handleNonHero]
      by (simp add: Let_def split: option.split)
    then have "triple ?P (andthen (clusterQueueFor wl) (\<lambda>cqo. let reason = IsHero wl cqo cfg in case cqo of
        None \<Rightarrow> handleNonHero L cfg wl reason
      | Some cq \<Rightarrow> if reason \<noteq> ReasonIsHero then handleNonHero L cfg wl reason
          else reconcile_hero L cfg req wl cq)) (\<lambda>_. ?E) ?E"
      by (rule triple_bind[OF first[OF owners.keeps_drain_reads(1)]])
    then show ?thesis
      unfolding reconcile_workload_def
      using same[OF owners_reconcileVictimEvent] same[OF keeps_ret] by (simp split: option.split)
  qed
  have "triple ?P (or_none (get_workload req)) (\<lambda>_. ?P) ?E"
    by (intro first keeps_intro)
  then have "triple ?P (Reconcile L cfg req) (\<lambda>_. ?E) ?E"
    unfolding Reconcile_def
    by (rule triple_bind) (use wl same[OF keeps_ret] in \<open>simp split: option.split\<close>)
  then show ?thesis using assms(2) by (rule triple_snd)
qed

subsection \<open>What is written\<close>

text \<open>A workload write is framed by \<open>spec.active\<close> and the marker; it suspends for \<open>req\<close> or hands back.\<close>

definition workload_frame :: "workload \<Rightarrow> workload \<Rightarrow> bool" where
  "workload_frame cur new \<longleftrightarrow>
     new = cur\<lparr>wl_Active := wl_Active new, wl_Annotations := wl_Annotations new\<rparr> \<and>
     (\<forall>a. a \<noteq> DeactivatedForAnnotation \<longrightarrow> wl_Annotations new a = wl_Annotations cur a)"

definition marked_for :: "namespaced_name \<Rightarrow> workload \<Rightarrow> bool" where
  "marked_for k wl \<longleftrightarrow> wl_Annotations wl DeactivatedForAnnotation = Some (OwnerRef k)"

definition suspends :: "Config \<Rightarrow> namespaced_name \<Rightarrow> workload \<Rightarrow> workload \<Rightarrow> bool" where
  "suspends cfg req old new \<longleftrightarrow>
     wl_Key old \<noteq> req \<and> \<not> hero_classed cfg old \<and> \<not> deactivated old \<and>
     wl_Active new = Some False \<and> (marked_for req old \<or> marked_for req new)"

definition hands_back :: "namespaced_name \<Rightarrow> workload \<Rightarrow> workload \<Rightarrow> workload \<Rightarrow> bool" where
  "hands_back req old cur new \<longleftrightarrow>
     (marked_for req old \<or> wl_Key old = req \<and> deactivated old) \<and>
     (wl_Annotations old DeactivatedForAnnotation \<noteq> None \<longrightarrow> wl_Annotations new DeactivatedForAnnotation = None) \<and>
     wl_Active new = (if wl_Active old = Some True then wl_Active cur else Some True)"

text \<open>A node update is a function of the node it replaces; a workload patch is the difference between what was
  read and what was decided, applied to the live workload.\<close>

definition taints_for :: "Config \<Rightarrow> namespaced_name \<Rightarrow> node \<Rightarrow> node \<Rightarrow> bool" where
  "taints_for cfg req cur new \<longleftrightarrow>
     (\<forall>t \<in> set (node_Taints cur). taint_Key t \<noteq> cfg_TaintKey cfg) \<and> Owner new (cfg_TaintKey cfg) = Some req \<and>
     (\<exists>rv cq now. new = persist_node rv cur (add_drain_taint (cfg_TaintKey cfg) req cq now cur))"

definition untaints_for :: "Config \<Rightarrow> namespaced_name \<Rightarrow> node \<Rightarrow> node \<Rightarrow> bool" where
  "untaints_for cfg req cur new \<longleftrightarrow>
     node_Annotations cur OwnerAnnotation = Some (OwnerRef req) \<and> Owner new (cfg_TaintKey cfg) = None \<and>
     (\<exists>rv. new = persist_node rv cur (strip_drain_taint (cfg_TaintKey cfg) cur))"

fun drain_write :: "Config \<Rightarrow> namespaced_name \<Rightarrow> api_write \<Rightarrow> bool" where
  "drain_write cfg req (NodeUpdated cur new) \<longleftrightarrow>
     marks_only (cfg_TaintKey cfg) cur new \<and> (taints_for cfg req cur new \<or> untaints_for cfg req cur new)"
| "drain_write cfg req (NodePatched old cur new) \<longleftrightarrow>
     marks_only (cfg_TaintKey cfg) cur new \<and> Owner new (cfg_TaintKey cfg) = Owner cur (cfg_TaintKey cfg)"
| "drain_write cfg req (WorkloadPatched old cur new) \<longleftrightarrow>
     wl_Key cur = wl_Key old \<and> workload_frame cur new \<and>
     (suspends cfg req old new \<and> new = merge_workload old (suspended (OwnerRef req) old) cur \<or>
      hands_back req old cur new \<and> new = merge_workload old (reactivated old) cur)"

lemma workload_frame_merge:
  "(\<And>a. a \<noteq> DeactivatedForAnnotation \<Longrightarrow> wl_Annotations new a = wl_Annotations old a) \<Longrightarrow>
     workload_frame cur (merge_workload old new cur)"
  by (auto simp: workload_frame_def merge_workload_def merge_map_def)

lemma hands_back_merge:
  "marked_for k v \<or> wl_Key v = k \<and> deactivated v \<Longrightarrow> hands_back k v cur (merge_workload v (reactivated v) cur)"
  by (auto simp: hands_back_def merge_workload_def merge_map_def reactivated_def)

lemma reactivated_frame: "workload_frame cur (merge_workload v (reactivated v) cur)"
  by (rule workload_frame_merge) (simp add: reactivated_def)

lemma write_hand_back:
  assumes "marked_for req v \<or> wl_Key v = req \<and> deactivated v" "wl_Key cur = wl_Key v"
  shows "drain_write cfg req (WorkloadPatched v cur (merge_workload v (reactivated v) cur))"
  using assms by (simp add: reactivated_frame hands_back_merge)

lemma write_suspend:
  assumes "wl_Key v \<noteq> req" "\<not> hero_classed cfg v" "\<not> deactivated v" "wl_Key cur = wl_Key v"
  shows "drain_write cfg req (WorkloadPatched v cur (merge_workload v (suspended (OwnerRef req) v) cur))"
proof -
  have "workload_frame cur (merge_workload v (suspended (OwnerRef req) v) cur)"
    by (rule workload_frame_merge) (simp add: suspended_def)
  moreover have "suspends cfg req v (merge_workload v (suspended (OwnerRef req) v) cur)"
    using assms by (auto simp: suspends_def marked_for_def deactivated_def merge_workload_def
        merge_map_def suspended_def)
  ultimately show ?thesis using assms(4) by simp
qed

lemma write_taint:
  assumes "wf_key req" "\<forall>t \<in> set (node_Taints n). taint_Key t \<noteq> cfg_TaintKey cfg"
  shows "drain_write cfg req (NodeUpdated n (persist_node rv n (add_drain_taint (cfg_TaintKey cfg) req cq now n)))"
  using assms by (auto simp: marks_only_add Owner_add_drain_taint taints_for_def)

lemma write_untaint:
  assumes "mget (node_Annotations n) OwnerAnnotation = owner_ref req"
  shows "drain_write cfg req (NodeUpdated n (persist_node rv n (strip_drain_taint (cfg_TaintKey cfg) n)))"
proof -
  have "node_Annotations n OwnerAnnotation = Some (OwnerRef req)"
    using assms owner_ref_nonempty[of req, symmetric]
    by (auto simp: mget_def OwnerRef_owner_ref split: option.splits)
  then show ?thesis by (auto simp: marks_only_strip untaints_for_def)
qed

lemma write_nudge:
  "drain_write cfg req (NodePatched n cur (merge_node rv n (bump_nudge now n) cur))"
  by (simp add: marks_only_nudge)

text \<open>The occupants never include the hero itself.\<close>

lemma occupant_step_fold:
  "self \<notin> set occ \<Longrightarrow> self \<notin> set (foldl (occupant_step self) occ ps)"
  by (induction ps arbitrary: occ) (auto simp: occupant_step_def Let_def split: option.split)

lemma returns_victimWorkloadsOn:
  "returns (versioned G) (victimWorkloadsOn ns wl) (\<lambda>occ. wl_Key wl \<notin> set occ)"
  unfolding victimWorkloadsOn_def
proof (rule returns_loop_over)
  fix occ nm
  assume "wl_Key wl \<notin> set occ"
  then show "returns (versioned G) (andthen (list_pods (MatchingFields PodNode nm)) (\<lambda>pods.
      ret (foldl (occupant_step (wl_Key wl)) occ pods))) (\<lambda>occ. wl_Key wl \<notin> set occ)"
    by (intro returns_andthen[where R = "\<lambda>_. True"] returns_ret occupant_step_fold)
      (simp_all add: returns_keeps keeps_intro)
qed simp

text \<open>A log policy that admits the writes of \<open>drain_write\<close> is kept by every operation for \<open>req\<close>.\<close>

locale drain_policy =
  fixes cfg :: Config and req :: namespaced_name and G :: "api_write \<Rightarrow> bool"
  assumes G_allows: "drain_write cfg req x \<Longrightarrow> G x"
begin

lemma versioned_cycle_occupant:
  assumes "key \<noteq> req"
  shows "keeps (versioned G) (cycle_occupant cfg heroWL (OwnerRef req) counts key)"
proof -
  have "keeps (versioned G) (deactivateVictim v heroWL (OwnerRef req))"
    if "wl_Key v = key" "\<not> hero_classed cfg v" "\<not> deactivated v" for v
    unfolding deactivateVictim_def
    by (intro keeps_intro versioned_patch_workload G_allows write_suspend)
      (use that assms in \<open>simp_all add: suspended_def\<close>)
  then have "keeps (versioned G)
      (if hero_classed cfg v then ret (p, n) else if deactivated v then ret (p + 1, n)
       else seq (deactivateVictim v heroWL (OwnerRef req)) (ret (p + 1, n + 1)))"
    if "wl_Key v = key" for v and p n :: int
    using that by (intro keeps_intro) simp_all
  then show ?thesis
    unfolding cycle_occupant_def
    by (intro keeps_prod, intro keeps_andthen_returns[OF returns_attempt[OF versions.returns_gets(2)]])
      (intro keeps_sum keeps_ret; simp)
qed

lemma versioned_hand_back:
  assumes "marked_for req v \<or> wl_Key v = req \<and> deactivated v"
  shows "keeps (versioned G) (Reactivate v)"
  by (rule versioned_Reactivate) (rule G_allows[OF write_hand_back[OF assms]])

lemma versioned_SweepFor_own [keeps_intro]: "keeps (versioned G) (SweepFor req)"
  unfolding SweepFor_def
  by (intro keeps_andthen_returns[OF versions.returns_lists(1)] keeps_intro versioned_hand_back)
    (simp add: marked_for_def)

lemma versioned_nudge [keeps_intro]:
  "keeps (versioned G) (nudgeWhilePending cfg' wl ns)"
  unfolding nudgeWhilePending_def
  by (intro keeps_intro versioned_NudgeKueue G_allows write_nudge)

lemma versioned_cycleVictims:
  assumes "wl_Key wl = req"
  shows "keeps (versioned G) (cycleVictims cfg wl ns)"
proof -
  have "Namespace (wl_Key wl) @ ''/'' @ Name (wl_Key wl) = OwnerRef req"
    by (simp add: OwnerRef_def assms)
  moreover have "keeps (versioned G)
      (loop_over occ (0, 0) (cycle_occupant cfg wl (OwnerRef req)))" if "req \<notin> set occ" for occ
    using that by (intro keeps_loop_over versioned_cycle_occupant) blast
  moreover have "keeps (versioned G)
      (for_each vs (\<lambda>v. if deactivated v \<and> evictedByDeactivation v then Reactivate v else ret ()))"
    if "\<forall>v \<in> set vs. marked_for req v" for vs
    using that by (intro keeps_for_each keeps_if keeps_ret versioned_hand_back) blast
  ultimately show ?thesis
    unfolding cycleVictims_def Let_def
    by (intro keeps_andthen_returns[OF returns_victimWorkloadsOn], intro keeps_andthen keeps_prod keeps_seq
        keeps_andthen_returns[OF versions.returns_lists(1)])
      (auto simp: assms marked_for_def intro!: keeps_intro)
qed

lemma versioned_abortDrain:
  assumes "wl_Key wl = req"
  shows "keeps (versioned G) (abortDrain L cfg wl d reason)"
  unfolding abortDrain_def assms
  by (intro keeps_intro versioned_RemoveOwnedTaint G_allows write_untaint)

lemma versioned_reconcileVictimEvent:
  assumes "wl_Key wl = req"
  shows "keeps (versioned G) (reconcileVictimEvent wl ref)"
proof (cases "deactivated wl")
  case True
  with assms show ?thesis
    unfolding reconcileVictimEvent_def Let_def by (intro keeps_intro versioned_hand_back) simp_all
qed (simp add: reconcileVictimEvent_def Let_def keeps_intro)

lemma versioned_execute_plan:
  assumes "wf_key req" "wl_Key wl = req"
  shows "keeps (versioned G) (execute_plan L cfg req wl cq own plan)"
  unfolding execute_plan_def taint_node_def
  by (intro keeps_intro versioned_EnsureTaint G_allows write_taint versioned_cycleVictims assms)

lemma versioned_take_turn:
  assumes "wf_key req" "wl_Key wl = req"
  shows "keeps (versioned G) (take_turn L cfg req wl cq drains)"
  unfolding take_turn_def plan_drain_def refuseOverQuota_def Let_def
  by (intro keeps_intro versioned_execute_plan versioned_abortDrain assms)

lemma versioned_reconcile_workload:
  assumes "wf_key req" "wl_Key wl = req"
  shows "keeps (versioned G) (reconcile_workload L cfg req wl)"
  unfolding reconcile_workload_def handleNonHero_def reconcile_hero_def Let_def
  by (intro keeps_intro versioned_reconcileVictimEvent versioned_abortDrain versioned_cycleVictims
      versioned_take_turn assms)

lemma versioned_Reconcile:
  assumes "wf_key req"
  shows "keeps (versioned G) (Reconcile L cfg req)"
  unfolding Reconcile_def
  by (intro keeps_andthen_returns[OF returns_or_none[OF versions.returns_gets(2)]] keeps_option keeps_ret
      versioned_reconcile_workload assms) blast

end

interpretation drain_log: drain_policy cfg req "\<lambda>x. x \<in> H \<or> drain_write cfg req x" for cfg req H
  by unfold_locales simp

end
