(* ===== verification/Janitor.thy ===== *)
theory Janitor
  imports Victims
begin

text \<open>
  Package \<open>pkg/controller/janitor\<close>: the janitor. \<open>Reconcile\<close> looks at one tainted node and decides by the
  first matching rung of a ladder whether the taint still serves its hero; \<open>teardown\<close> removes the taint
  and hands the drain's victims back.
\<close>

definition EventDrainTimedOut :: string where "EventDrainTimedOut = ''DrainTimedOut''"

definition drainStartedAt :: "node \<Rightarrow> time option" where
  "drainStartedAt n =
     (case node_Annotations n StartedAtAnnotation of None \<Rightarrow> None | Some raw \<Rightarrow> parse_RFC3339 raw)"

definition restart_clock_on :: "time \<Rightarrow> node \<Rightarrow> node" where
  "restart_clock_on now n =
     n\<lparr>node_Annotations := (node_Annotations n)(StartedAtAnnotation \<mapsto> format_RFC3339 now)\<rparr>"

definition restartClock :: "string \<Rightarrow> unit api" where
  "restartClock nodeName =
     andthen (or_none (get_node nodeName)) (\<lambda>n.
       case n of
         None \<Rightarrow> ret ()
       | Some n \<Rightarrow> andthen Now (\<lambda>now. patch_node n (restart_clock_on now n)))"

definition lowest_value_matches :: "kueue_lib \<Rightarrow> node \<Rightarrow> topology_assignment \<Rightarrow> bool" where
  "lowest_value_matches L n ta =
     (if ta_Levels ta = [] \<or> IsLowestLevelHostname L (ta_Levels ta) then False
      else case node_Labels n (last (ta_Levels ta)) of
             None \<Rightarrow> False
           | Some nodeValue \<Rightarrow>
               list_ex (\<lambda>d. dom_Values d \<noteq> [] \<and> last (dom_Values d) = nodeValue \<and> 0 < sint (dom_Count d))
                 (InternalSeqFrom L ta))"

definition assignmentTouchesNode :: "kueue_lib \<Rightarrow> admission \<Rightarrow> node \<Rightarrow> bool" where
  "assignmentTouchesNode L adm n =
     (if HasTASAssignmentOnNode L adm (node_Name n) then True
      else list_ex (\<lambda>psa. case psa_TopologyAssignment psa of None \<Rightarrow> False | Some ta \<Rightarrow> lowest_value_matches L n ta)
             (adm_PodSetAssignments adm))"

definition runningHeroPods :: "workload \<Rightarrow> int32 api" where
  "runningHeroPods hero =
     andthen (list_pods (\<lambda>p. Namespace (pod_Key p) = Namespace (wl_Key hero) \<and>
                             MatchingFields PodWorkload (Name (wl_Key hero)) p))
       (\<lambda>pods. ret (foldl (\<lambda>running p. if pod_Phase p = PodRunning then running + 1 else running) 0 pods))"

definition admittedPodCount :: "workload \<Rightarrow> int32" where
  "admittedPodCount hero =
     (let t = (case wl_Admission hero of
                 None \<Rightarrow> 0
               | Some adm \<Rightarrow>
                   foldl (\<lambda>t psa. case psa_Count psa of None \<Rightarrow> t | Some c \<Rightarrow> t + c) 0 (adm_PodSetAssignments adm))
      in if 0 < sint t then t else foldl (\<lambda>t ps. t + ps_Count ps) t (wl_PodSets hero))"

definition last_node_of :: "Drain option \<Rightarrow> string \<Rightarrow> bool" where
  "last_node_of own nodeName = (case own of None \<Rightarrow> False | Some d \<Rightarrow> drain_Nodes d = [nodeName])"

definition teardown :: "kueue_lib \<Rightarrow> Config \<Rightarrow> string \<Rightarrow> namespaced_name \<Rightarrow> outcome \<Rightarrow> Result api" where
  "teardown L cfg nodeName owner oc =
     andthen (list_nodes (MatchingFields (NodeDrainTainted cfg) index_true)) (\<lambda>tainted.
       let drains = FindDrains tainted (cfg_TaintKey cfg);
           final = last_node_of (map_of drains owner) nodeName in
       seq (if final then
              seq (count_metric (inc_completed oc))
                (if oc = OutcomeTimedOut then count_metric inc_timed_out else ret ())
            else ret ())
       (seq (count_metric (set_in_flight (if final then length drains - 1 else length drains)))
       (seq (RemoveOwnedTaint L nodeName (cfg_TaintKey cfg) owner)
       (seq (SweepFor owner)
       (seq send_nudge (ret no_requeue))))))"

text \<open>Rung 4: the deadline.\<close>

definition check_deadline :: "kueue_lib \<Rightarrow> Config \<Rightarrow> node \<Rightarrow> namespaced_name \<Rightarrow> workload \<Rightarrow> Result api" where
  "check_deadline L cfg n owner hero =
     (case drainStartedAt n of
        None \<Rightarrow> seq (restartClock (node_Name n)) (ret (requeue_after (cfg_DrainTimeout cfg)))
      | Some startedAt \<Rightarrow>
          andthen Now (\<lambda>now.
            let remaining = dur_minus (cfg_DrainTimeout cfg) (time_Sub now startedAt) in
            if 0 < remaining then ret (requeue_after remaining)
            else seq (emit (wl_Key hero) EventTypeWarning EventDrainTimedOut [ArgInt (cfg_DrainTimeout cfg)])
                   (teardown L cfg (node_Name n) owner OutcomeTimedOut)))"

text \<open>Rungs 2b to 4, for an existing hero.\<close>

definition check_hero :: "kueue_lib \<Rightarrow> Config \<Rightarrow> node \<Rightarrow> namespaced_name \<Rightarrow> workload \<Rightarrow> Result api" where
  "check_hero L cfg n owner hero =
     (if deactivated hero then teardown L cfg (node_Name n) owner OutcomeDeactivated
      else if IsStatusConditionTrue (wl_Conditions hero) WorkloadFinished
      then teardown L cfg (node_Name n) owner OutcomeFinished
      else case wl_Admission hero of
             None \<Rightarrow> check_deadline L cfg n owner hero
           | Some adm \<Rightarrow>
               if \<not> assignmentTouchesNode L adm n
               then teardown L cfg (node_Name n) owner OutcomePlacedElsewhere
               else andthen (runningHeroPods hero) (\<lambda>running.
                 if sint (admittedPodCount hero) \<le> sint running
                 then teardown L cfg (node_Name n) owner OutcomePlaced
                 else check_deadline L cfg n owner hero))"

definition Reconcile :: "kueue_lib \<Rightarrow> Config \<Rightarrow> string \<Rightarrow> Result api" where
  "Reconcile L cfg nodeName =
     andthen (or_none (get_node nodeName)) (\<lambda>no.
       case no of
         None \<Rightarrow> ret no_requeue
       | Some n \<Rightarrow>
           (case Owner n (cfg_TaintKey cfg) of
              None \<Rightarrow> ret no_requeue
            | Some owner \<Rightarrow>
                andthen (or_none (get_workload owner)) (\<lambda>h.
                  case h of
                    None \<Rightarrow> teardown L cfg (node_Name n) owner OutcomeAbandoned
                  | Some hero \<Rightarrow> check_hero L cfg n owner hero)))"

subsection \<open>Events\<close>

definition hasDrainTaint :: "Config \<Rightarrow> node \<Rightarrow> bool" where
  "hasDrainTaint cfg n =
     list_ex (\<lambda>t. taint_Key t = cfg_TaintKey cfg \<and> taint_Effect t = NoSchedule) (node_Taints n)"

definition kueueManagedPod :: "pod \<Rightarrow> bool" where
  "kueueManagedPod p \<longleftrightarrow> pod_Annotations p WorkloadAnnotation \<noteq> None"

definition podMoved :: "pod \<Rightarrow> pod \<Rightarrow> bool" where
  "podMoved old new \<longleftrightarrow> pod_Phase old \<noteq> pod_Phase new \<or> pod_NodeName old \<noteq> pod_NodeName new"

definition taintedNodesOfKey :: "Config \<Rightarrow> namespaced_name \<Rightarrow> string list api" where
  "taintedNodesOfKey cfg self =
     andthen (attempt (list_nodes (MatchingFields (NodeDrainOwner cfg) (OwnerRef self)))) (\<lambda>r.
       case r of Inl _ \<Rightarrow> ret [] | Inr nodes \<Rightarrow> ret (map node_Name nodes))"

definition taintedNodesOf :: "Config \<Rightarrow> workload \<Rightarrow> string list api" where
  "taintedNodesOf cfg wl = taintedNodesOfKey cfg (wl_Key wl)"

definition mapPodToTaintedNodes :: "Config \<Rightarrow> pod \<Rightarrow> string list api" where
  "mapPodToTaintedNodes cfg p =
     (case pod_Annotations p WorkloadAnnotation of
        None \<Rightarrow> ret []
      | Some wlName \<Rightarrow> taintedNodesOfKey cfg (NamespacedName (Namespace (pod_Key p)) wlName))"

end
