(* ===== verification/Janitor_Laws.thy ===== *)
theory Janitor_Laws
  imports Drain_Laws Janitor
begin

text \<open>
  What a reconcile of the janitor keeps true of the cluster under any interference and any failing call:
  it adds no owner, and it writes only what \<open>janitor_write\<close> allows on its one node.
\<close>

subsection \<open>Owners\<close>

context world_invariant
begin

lemma keeps_runningHeroPods: "keeps I (runningHeroPods hero)"
  unfolding runningHeroPods_def by (intro keeps_intro)

end

lemmas janitor_reads_keep [keeps_intro] = owners.keeps_runningHeroPods versions.keeps_runningHeroPods

lemma owners_teardown [keeps_intro]: "keeps (owners_in (cfg_TaintKey cfg) T S) (teardown L cfg nm owner oc)"
  unfolding teardown_def Let_def by (intro keeps_intro)

lemma owners_restartClock [keeps_intro]: "keeps (owners_in key T S) (restartClock nm)"
  unfolding restartClock_def
  by (intro keeps_intro owners_patch_node) (simp add: restart_clock_on_def)

lemma owners_check_hero [keeps_intro]: "keeps (owners_in (cfg_TaintKey cfg) T S) (check_hero L cfg n owner hero)"
  unfolding check_hero_def check_deadline_def Let_def by (intro keeps_intro)

lemma owners_janitor [keeps_intro]: "keeps (owners_in (cfg_TaintKey cfg) T S) (Janitor.Reconcile L cfg nm)"
  unfolding Janitor.Reconcile_def by (intro keeps_intro)

subsection \<open>What is written\<close>

fun janitor_write :: "Config \<Rightarrow> string \<Rightarrow> api_write \<Rightarrow> bool" where
  "janitor_write cfg nm (NodeUpdated cur new) \<longleftrightarrow>
     node_Name cur = nm \<and> marks_only (cfg_TaintKey cfg) cur new \<and>
     Owner cur (cfg_TaintKey cfg) \<noteq> None \<and> Owner new (cfg_TaintKey cfg) = None"
| "janitor_write cfg nm (NodePatched old cur new) \<longleftrightarrow>
     node_Name cur = nm \<and> marks_only (cfg_TaintKey cfg) cur new \<and>
     Owner new (cfg_TaintKey cfg) = Owner cur (cfg_TaintKey cfg)"
| "janitor_write cfg nm (WorkloadPatched old cur new) \<longleftrightarrow>
     wl_Key cur = wl_Key old \<and> workload_frame cur new \<and> (\<exists>k. marked_for k old \<and> hands_back k old cur new)"

lemma janitor_write_hand_back:
  assumes "marked_for k v" "wl_Key cur = wl_Key v"
  shows "janitor_write cfg nm (WorkloadPatched v cur (merge_workload v (reactivated v) cur))"
  using assms by (auto simp: reactivated_frame intro: hands_back_merge)

lemma write_clock:
  "marks_only key cur (merge_node rv n (restart_clock_on now n) cur) \<and>
   Owner (merge_node rv n (restart_clock_on now n) cur) key = Owner cur key"
  by (rule conjI, force simp: marks_only_def merge_node_def merge_map_def restart_clock_on_def drain_annotations_def,
      rule Owner_cong, simp_all add: merge_node_def merge_map_def restart_clock_on_def)

lemma restart_clock_on_name: "node_Name (restart_clock_on now n) = node_Name n"
  by (simp add: restart_clock_on_def)

locale janitor_policy =
  fixes cfg :: Config and nm :: string and G :: "api_write \<Rightarrow> bool"
  assumes G_allows: "janitor_write cfg nm x \<Longrightarrow> G x"
begin

lemma versioned_teardown_sweep [keeps_intro]: "keeps (versioned G) (SweepFor k)"
proof -
  have "keeps (versioned G) (Reactivate v)" if "marked_for k v" for v
    using that by (intro versioned_Reactivate G_allows janitor_write_hand_back)
  then show ?thesis
    unfolding SweepFor_def
    by (intro keeps_andthen_returns[OF versions.returns_lists(1)] keeps_loop_over keeps_seq keeps_ret)
      (simp add: marked_for_def)
qed

lemma versioned_restartClock [keeps_intro]: "keeps (versioned G) (restartClock nm)"
  unfolding restartClock_def
proof (rule keeps_andthen_returns[OF returns_or_none[OF versions.returns_gets(1)]])
  fix x :: "node option"
  assume "\<forall>n. x = Some n \<longrightarrow> node_Name n = nm"
  then show "keeps (versioned G)
      (case x of None \<Rightarrow> ret () | Some n \<Rightarrow> andthen Now (\<lambda>now. patch_node n (restart_clock_on now n)))"
    by (intro keeps_intro versioned_patch_node G_allows) (simp_all add: write_clock restart_clock_on_name)
qed

lemma versioned_teardown [keeps_intro]:
  assumes "wf_key owner"
  shows "keeps (versioned G) (teardown L cfg nm owner oc)"
proof -
  have "G (NodeUpdated n (persist_node rv n (strip_drain_taint (cfg_TaintKey cfg) n)))"
    if "node_Name n = nm" "list_ex (is_drain_taint (cfg_TaintKey cfg)) (node_Taints n)"
      "mget (node_Annotations n) OwnerAnnotation = owner_ref owner" for n rv
  proof -
    have "Owner n (cfg_TaintKey cfg) = Some owner"
      using that assms owner_ref_nonempty[of owner, symmetric]
      by (auto simp: Owner_Some list_ex_iff mget_def split: option.splits)
    with that show ?thesis by (intro G_allows) (simp add: marks_only_strip)
  qed
  then show ?thesis
    unfolding teardown_def Let_def by (intro keeps_intro versioned_RemoveOwnedTaint)
qed

lemma versioned_check_hero:
  assumes "wf_key owner" "node_Name n = nm"
  shows "keeps (versioned G) (check_hero L cfg n owner hero)"
  unfolding check_hero_def check_deadline_def Let_def assms(2)
  by (intro keeps_intro assms(1))

lemma versioned_janitor_node:
  assumes "node_Name n = nm"
  shows "keeps (versioned G)
      (case Owner n (cfg_TaintKey cfg) of None \<Rightarrow> ret no_requeue
       | Some owner \<Rightarrow> andthen (or_none (get_workload owner)) (\<lambda>h. case h of
           None \<Rightarrow> teardown L cfg (node_Name n) owner OutcomeAbandoned
         | Some hero \<Rightarrow> check_hero L cfg n owner hero))"
proof (cases "Owner n (cfg_TaintKey cfg)")
  case (Some owner)
  then have "wf_key owner" by (simp add: Owner_Some)
  with Some assms show ?thesis
    by (simp add: keeps_intro versioned_teardown versioned_check_hero)
qed (simp add: keeps_ret)

lemma versioned_janitor: "keeps (versioned G) (Janitor.Reconcile L cfg nm)"
  unfolding Janitor.Reconcile_def
  by (rule keeps_andthen_returns[OF returns_or_none[OF versions.returns_gets(1)]], rule keeps_option,
      rule keeps_ret, rule versioned_janitor_node, blast)

end

interpretation janitor_log: janitor_policy cfg nm "\<lambda>x. x \<in> H \<or> janitor_write cfg nm x" for cfg nm H
  by unfold_locales simp

end
