(* ===== verification/Core_Properties.thy ===== *)
theory Core_Properties
  imports Victims
begin

text \<open>
  Properties of the configuration, the hero identification, the demand arithmetic, the clock and the
  taint operations, each with a concrete instance.
\<close>

subsection \<open>A small cluster for the concrete instances\<close>

definition ex_config :: Config where
  "ex_config = Default\<lparr>cfg_Weights := \<lparr>w_Priority = 1 / 2, w_PodCount = 1 / 4, w_Runtime = 1 / 4\<rparr>,
     cfg_TaintKey := ''k''\<rparr>"

definition ex_queue :: cluster_queue where
  "ex_queue = \<lparr>cq_Name = ''hq'', cq_Labels = [''hero.coreweave.com/enabled'' \<mapsto> ''true''],
     cq_ResourceGroups = [[\<lparr>fq_Name = ''f'', fq_Resources = [(''nvidia.com/gpu'', 64 * 10 ^ 9)]\<rparr>]]\<rparr>"

definition ex_podset :: pod_set where
  "ex_podset = \<lparr>ps_Name = ''main'', ps_Count = 3,
     ps_TopologyRequest = Some \<lparr>tr_Required = None, tr_PodSetSliceRequiredTopology = Some ''block'',
       tr_PodSetSliceSize = Some 2\<rparr>,
     ps_Containers = [\<lparr>ctr_Requests = [''nvidia.com/gpu'' \<mapsto> 8 * 10 ^ 9], ctr_Limits = Map.empty, ctr_rest = []\<rparr>],
     ps_Tolerations = [\<lparr>tol_Key = ''k'', tol_Operator = TolerationOpEqual, tol_Value = ''hq'',
       tol_Effect = NoSchedule\<rparr>],
     ps_template_rest = []\<rparr>"

definition ex_hero_key :: namespaced_name where
  "ex_hero_key = NamespacedName ''a'' ''hero''"

definition ex_hero :: workload where
  "ex_hero = \<lparr>wl_Key = ex_hero_key, wl_UID = ''u1'', wl_CreationTimestamp = 5 * hour, wl_Annotations = Map.empty,
     wl_ManagedFields = [], wl_OwnerReferences = [], wl_Active = None, wl_QueueName = ''lq'',
     wl_Priority = Some 100,
     wl_PriorityClassRef = Some \<lparr>pcr_Group = ''kueue.x-k8s.io'', pcr_Kind = ''WorkloadPriorityClass'',
       pcr_Name = ''hero-critical''\<rparr>,
     wl_PodSets = [ex_podset],
     wl_Conditions = [\<lparr>cond_Type = ''QuotaReserved'', cond_Status = ConditionFalse,
       cond_Reason = ''TopologyPlacementFailed'', cond_Message = [], cond_LastTransitionTime = 6 * hour\<rparr>],
     wl_Admission = None\<rparr>"

definition ex_node :: "string \<Rightarrow> string \<Rightarrow> node" where
  "ex_node nm block = \<lparr>node_Name = nm, node_ResourceVersion = 1, node_Labels = [''block'' \<mapsto> block],
     node_Annotations = Map.empty, node_ManagedFields = [], node_Taints = [], node_Unschedulable = False,
     node_Allocatable = [''nvidia.com/gpu'' \<mapsto> 32 * 10 ^ 9],
     node_Conditions = [\<lparr>cond_Type = ''Ready'', cond_Status = ConditionTrue, cond_Reason = [],
       cond_Message = [], cond_LastTransitionTime = 0\<rparr>],
     node_Images = []\<rparr>"

definition ex_metrics :: metrics where
  "ex_metrics = \<lparr>DrainsStarted = 0, DrainsCompleted = (\<lambda>_. 0), DrainsTimedOut = 0, DrainsInFlight = 0,
     SelectionOutcomes = (\<lambda>_. 0), VictimsSuspended = 0, VictimsReactivated = 0\<rparr>"

definition ex_world :: "node list \<Rightarrow> workload list \<Rightarrow> pod list \<Rightarrow> world" where
  "ex_world ns wls ps = \<lparr>w_Nodes = ns, w_Pods = ps, w_Workloads = wls,
     w_ClusterQueues = [ex_queue], w_LocalQueues = [\<lparr>lq_Key = NamespacedName ''a'' ''lq'', lq_ClusterQueue = ''hq''\<rparr>],
     w_Flavors = [\<lparr>rf_Name = ''f'', rf_TopologyName = Some ''topo''\<rparr>],
     w_Topologies = [\<lparr>topo_Name = ''topo'', topo_Levels = [''block'', ''kubernetes.io/hostname'']\<rparr>],
     w_Revision = 1, w_Now = 10 * hour, w_Script = [], w_Log = [], w_Events = [], w_Metrics = ex_metrics,
     w_NudgeChan = 0, w_Past = []\<rparr>"

definition ex_lib :: kueue_lib where
  "ex_lib = \<lparr>InternalSeqFrom =
       (\<lambda>ta. [\<lparr>dom_Values = replicate (length (ta_Levels ta)) ''b1'', dom_Count = 1\<rparr>]), HasTASAssignmentOnNode = (\<lambda>_ _. False),
     IsLowestLevelHostname = (\<lambda>ls. ls \<noteq> [] \<and> last ls = LabelHostname),
     GetQueueOrderTimestamp = wl_CreationTimestamp, RetrySteps = 5\<rparr>"

lemmas ex_defs = ex_config_def ex_queue_def ex_podset_def ex_hero_key_def ex_hero_def ex_node_def
  ex_metrics_def ex_world_def ex_lib_def Default_def

lemma ex_lib_decodes: "decodes_levels ex_lib ta"
  by (simp add: decodes_levels_def ex_lib_def)

subsection \<open>Configuration\<close>

text \<open>C36: \<open>Validate\<close> accepts a configuration exactly when every name passes the Kubernetes validators,
  every duration is positive, the weights are nonnegative and sum to 1 within 1e-9, the cross-queue
  multiplier is at least 1 and the detection mode is one of the three known ones.\<close>

theorem Validate_accepts:
  "Validate qn lv c = Inr () \<longleftrightarrow>
     wf_config c \<and> qn (cfg_TaintKey c) = [] \<and> qn (cfg_HeroCQLabelKey c) = [] \<and> qn (cfg_GPUResourceName c) = [] \<and>
     \<bar>fadd (weights_sum (cfg_Weights c)) (- 1)\<bar> \<le> fl (1 / 10 ^ 9) \<and>
     (\<forall>(k, v) \<in> set (cfg_NonBlockingPodLabels c). qn k = [] \<and> lv v = [])"
  unfolding Validate_def validation_errors_def wf_config_def Let_def label_errors_def
  by (auto simp: not_less split: if_splits DetectionMode.splits)

theorem Validate_accepts_witness: "Validate (\<lambda>_. []) (\<lambda>_. []) ex_config = Inr ()"
proof -
  have "weights_sum (cfg_Weights ex_config) = 1" by code_simp
  then have "\<bar>fadd (weights_sum (cfg_Weights ex_config)) (- 1)\<bar> \<le> fl (1 / 10 ^ 9)"
    using fl_mono[of 0 "1 / 10 ^ 9"] by (simp add: fadd_def)
  then show ?thesis
    by (simp add: Validate_accepts wf_config_def) (simp add: ex_defs duration_units)
qed

subsection \<open>Hero identification\<close>

text \<open>C5: A workload is a hero exactly when its ClusterQueue exists and carries the hero label with value
  true, its priority class reference is the configured WorkloadPriorityClass, some podset carries a full
  slice pair, and every podset that does tolerates the drain taint of its own ClusterQueue.\<close>

theorem IsHero_iff:
  "IsHero wl cqo cfg = ReasonIsHero \<longleftrightarrow>
     (\<exists>cq ref. cqo = Some cq \<and> mget (cq_Labels cq) (cfg_HeroCQLabelKey cfg) = ''true'' \<and>
        wl_PriorityClassRef wl = Some ref \<and> pcr_Kind ref = WorkloadPriorityClassKind \<and>
        pcr_Group ref = WorkloadPriorityClassGroup \<and> pcr_Name ref = cfg_HeroPriorityClassName cfg \<and>
        (\<exists>ps \<in> set (wl_PodSets wl). RequiresSliceTopology ps) \<and>
        (\<forall>ps \<in> set (wl_PodSets wl). RequiresSliceTopology ps \<longrightarrow>
           (\<exists>t \<in> set (ps_Tolerations ps).
              tolerates t \<lparr>taint_Key = cfg_TaintKey cfg, taint_Value = cq_Name cq,
                taint_Effect = NoSchedule, taint_TimeAdded = None\<rparr>)))"
  by (cases cqo; cases "wl_PriorityClassRef wl")
    (auto simp: IsHero_def check_podsets_hero toleratesTaint_iff hero_taint_def)

theorem IsHero_iff_witness: "IsHero ex_hero (Some ex_queue) ex_config = ReasonIsHero"
  unfolding IsHero_iff
  by (simp add: ex_defs RequiresSliceTopology_def tolerates_def WorkloadPriorityClassKind_def
      WorkloadPriorityClassGroup_def)

text \<open>The automatic detection mode fires exactly when the reason mode or the message mode does, and no
  mode ever reports a finished workload or one whose quota is reserved as stuck.\<close>

theorem IsStuck_modes:
  "(IsStuckTASNoFit wl DetectionAuto \<longleftrightarrow>
      IsStuckTASNoFit wl DetectionReason \<or> IsStuckTASNoFit wl DetectionMessage) \<and>
   (IsStuckTASNoFit wl mode \<longrightarrow>
      \<not> IsStatusConditionTrue (wl_Conditions wl) WorkloadFinished \<and>
      (\<exists>c. FindStatusCondition (wl_Conditions wl) WorkloadQuotaReserved = Some c \<and>
         cond_Status c = ConditionFalse \<and>
         (cond_Reason c = reasonTopologyPlacementFailed \<or>
          cond_Reason c = reasonPending \<and> messageIsTASNoFit (cond_Message c))))"
  by (cases mode) (auto simp: IsStuckTASNoFit_def Let_def split: option.splits if_splits)

theorem IsStuck_modes_witness:
  "IsStuckTASNoFit ex_hero DetectionAuto \<and>
   \<not> IsStatusConditionTrue (wl_Conditions ex_hero) WorkloadFinished"
proof -
  have "IsStuckTASNoFit ex_hero DetectionAuto"
    by (simp add: IsStuckTASNoFit_def ex_defs FindStatusCondition_def IsStatusConditionTrue_def
        condition_types stuck_messages)
  with IsStuck_modes[of ex_hero DetectionAuto] show ?thesis by blast
qed

text \<open>The drain level is the slice level of one of the workload's slice podsets, every such level is
  in the topology, and none of them is coarser.\<close>

theorem drain_level_coarsest:
  assumes "CoarsestLevel (RequiredTopologyLevels wl) topo = Some l"
  shows "(\<exists>ps \<in> set (wl_PodSets wl). RequiresSliceTopology ps \<and> slice_level ps = l) \<and>
     (\<forall>ps \<in> set (wl_PodSets wl). RequiresSliceTopology ps \<longrightarrow>
        slice_level ps \<in> set topo \<and>
        the (slices_Index topo l) \<le> the (slices_Index topo (slice_level ps)))"
  using CoarsestLevel_Some[OF assms] by (auto simp: set_RequiredTopologyLevels)

theorem drain_level_coarsest_witness:
  "\<exists>ps \<in> set (wl_PodSets ex_hero). RequiresSliceTopology ps \<and> slice_level ps = ''block''"
proof -
  have "CoarsestLevel (RequiredTopologyLevels ex_hero) [''block'', ''rack''] = Some ''block''"
    by (simp add: CoarsestLevel_def RequiredTopologyLevels_def ex_defs RequiresSliceTopology_def
        slice_level_def add_level_def)
  from drain_level_coarsest[OF this] show ?thesis by blast
qed

end
