(* ===== verification/System.thy ===== *)
theory System
  imports Janitor_Laws Core_Properties
begin

text \<open>
  Both controllers over one cluster. A run interleaves reconciles of either controller with changes by
  other actors; inside a reconcile its script interleaves them at every call, fails calls at will and lets
  the caches lag. A run starts in a cluster with at most one drain in flight, so it may be a restart. The
  invariants hold in every reachable cluster.
\<close>

datatype request = DrainRequest namespaced_name | JanitorRequest string

fun wf_request :: "request \<Rightarrow> bool" where
  "wf_request (DrainRequest k) = wf_key k"
| "wf_request (JanitorRequest nm) = True"

fun handle :: "kueue_lib \<Rightarrow> Config \<Rightarrow> request \<Rightarrow> world \<Rightarrow> world" where
  "handle L cfg (DrainRequest k) w = snd (Drain_Ctrl.Reconcile L cfg k w)"
| "handle L cfg (JanitorRequest nm) w = snd (Janitor.Reconcile L cfg nm w)"

text \<open>
  The caches of the kinds in \<open>K\<close> may lag at will. Those of the other kinds have caught up with the cluster
  each reconcile starts in, and may lag behind what changes while it runs.
\<close>

inductive reachable :: "kind set \<Rightarrow> kueue_lib \<Rightarrow> Config \<Rightarrow> world \<Rightarrow> bool" for K L cfg where
  fresh: "w_Log w = [] \<Longrightarrow> versions_ok w \<Longrightarrow> node_owners (cfg_TaintKey cfg) (w_Nodes w) \<subseteq> {k} \<Longrightarrow>
     reachable K L cfg w"
| others: "reachable K L cfg w \<Longrightarrow> \<forall>a \<in> set acts. honest1 (cfg_TaintKey cfg) a \<Longrightarrow>
     reachable K L cfg (interfere acts w)"
| reconcile: "reachable K L cfg w \<Longrightarrow> wf_request r \<Longrightarrow>
     honest_script (cfg_TaintKey cfg) (w\<lparr>w_Script := s\<rparr>) \<Longrightarrow> caught_up K 0 s \<Longrightarrow>
     reachable K L cfg (handle L cfg r (w\<lparr>w_Script := s\<rparr>))"

inductive_cases reachable_cases: "reachable K L cfg w"

lemma reachable_quiet:
  assumes "reachable K L cfg w" "quiet w" "wf_request r"
  shows "reachable K L cfg (handle L cfg r w)"
proof -
  have "honest_script (cfg_TaintKey cfg) (w\<lparr>w_Script := []\<rparr>)" by (simp add: honest_script_def)
  with reachable.reconcile[OF assms(1,3)] have "reachable K L cfg (handle L cfg r (w\<lparr>w_Script := []\<rparr>))" by simp
  moreover have "w\<lparr>w_Script := []\<rparr> = w" using assms(2) by (simp add: quiet_def)
  ultimately show ?thesis by (simp only:)
qed

definition one_owner :: "string \<Rightarrow> world \<Rightarrow> bool" where
  "one_owner key w \<longleftrightarrow> (\<exists>k. node_owners key (w_Nodes w) \<subseteq> {k})"

lemma one_owner_handle:
  assumes "one_owner (cfg_TaintKey cfg) w" "wf_request r"
    and "honest_script (cfg_TaintKey cfg) w" "caught_up (- {KNode}) 0 (w_Script w)"
  shows "one_owner (cfg_TaintKey cfg) (handle L cfg r w)"
proof -
  from assms(1,3,4) obtain k where k: "owners_in (cfg_TaintKey cfg) T {k} w" for T
    by (auto simp: one_owner_def owners_in_def intro: shows_owners_0)
  show ?thesis
  proof (cases r)
    case (DrainRequest req)
    with owners_Reconcile[OF _ k, of req L] assms(2) show ?thesis
      by (auto simp: owners_after_def one_owner_def owners_in_def)
  next
    case (JanitorRequest nm)
    with keepsD[OF owners_janitor k[of "{}"]] show ?thesis
      by (auto simp: one_owner_def owners_in_def)
  qed
qed

lemma reachable_one_owner:
  assumes "KNode \<notin> K"
  shows "reachable K L cfg w \<Longrightarrow> one_owner (cfg_TaintKey cfg) w"
proof (induction rule: reachable.induct)
  case (fresh w)
  then show ?case by (auto simp: one_owner_def)
next
  case (others w acts)
  then show ?case
    using interfere_owners[OF others.hyps(2) shows_owners_0] by (fastforce simp: one_owner_def)
next
  case (reconcile w r s)
  have "caught_up (- {KNode}) 0 s"
    using reconcile.hyps(4) assms by (auto intro: caught_up_mono)
  with reconcile show ?case by (intro one_owner_handle) (simp_all add: one_owner_def)
qed

text \<open>Everything this process ever wrote.\<close>

definition allowed_write :: "Config \<Rightarrow> api_write \<Rightarrow> bool" where
  "allowed_write cfg x \<longleftrightarrow> (\<exists>req. wf_key req \<and> drain_write cfg req x) \<or> (\<exists>nm. janitor_write cfg nm x)"

lemma versioned_mono: "versioned G w \<Longrightarrow> (\<And>x. x \<in> set (w_Log w) \<Longrightarrow> G x \<Longrightarrow> G' x) \<Longrightarrow> versioned G' w"
  by (auto simp: versioned_def writes_ok_def)

lemma versioned_handle:
  assumes "versioned (\<lambda>x. x \<in> H) w" "wf_request r"
  shows "versioned (\<lambda>x. x \<in> H \<or> (case r of DrainRequest k \<Rightarrow> drain_write cfg k x | JanitorRequest nm \<Rightarrow> janitor_write cfg nm x))
     (handle L cfg r w)"
proof (cases r)
  case (DrainRequest req)
  have "versioned (\<lambda>x. x \<in> H \<or> drain_write cfg req x) w"
    using assms(1) by (rule versioned_mono) simp
  then show ?thesis
    using keepsD[OF drain_log.versioned_Reconcile, of req H cfg w L] assms(2) DrainRequest by simp
next
  case (JanitorRequest nm)
  have "versioned (\<lambda>x. x \<in> H \<or> janitor_write cfg nm x) w"
    using assms(1) by (rule versioned_mono) simp
  then show ?thesis
    using keepsD[OF janitor_log.versioned_janitor, of H cfg nm w L] JanitorRequest by simp
qed

lemma reachable_writes: "reachable K L cfg w \<Longrightarrow> versioned (allowed_write cfg) w"
proof (induction rule: reachable.induct)
  case (fresh w)
  then show ?case by (simp add: versioned_def writes_ok_def)
next
  case (others w acts)
  then show ?case by (simp add: versioned_def versions_interfere writes_ok_def)
next
  case (reconcile w r s)
  have "versioned (\<lambda>x. x \<in> set (w_Log w)) (w\<lparr>w_Script := s\<rparr>)"
    using reconcile.IH by (simp add: versioned_def writes_ok_def)
  from versioned_handle[OF this reconcile.hyps(2), of cfg L] show ?case
    by (rule versioned_mono)
      (use reconcile in \<open>auto simp: allowed_write_def versioned_def writes_ok_def split: request.splits\<close>)
qed

end
