(* ===== verification/Runs.thy ===== *)
theory Runs
  imports Janitor_Laws
begin

text \<open>
  Undisturbed runs of the controllers. In a quiet cluster every lookup of the drain controller is a
  function of the cluster, and ending a drain has a closed form: what an aborted drain and a teardown
  leave of nodes and workloads.
\<close>

subsection \<open>Running one step\<close>

lemma run_step:
  "m w = (Inr a, w') \<Longrightarrow> andthen m f w = f a w'" "m w = (Inl e, w') \<Longrightarrow> andthen m f w = (Inl e, w')"
  "m w = (Inr a, w') \<Longrightarrow> seq m m' w = m' w'" "m w = (Inl e, w') \<Longrightarrow> seq m m' w = (Inl e, w')"
  by (simp_all add: run_simps)

subsection \<open>Lookups as functions of the cluster\<close>

definition cq_name_of :: "world \<Rightarrow> workload \<Rightarrow> string" where
  "cq_name_of w wl =
     (case wl_Admission wl of
        Some adm \<Rightarrow> adm_ClusterQueue adm
      | None \<Rightarrow>
          if wl_QueueName wl = [] then []
          else case find (\<lambda>q. lq_Key q = NamespacedName (Namespace (wl_Key wl)) (wl_QueueName wl)) (w_LocalQueues w) of
                 None \<Rightarrow> [] | Some lq \<Rightarrow> lq_ClusterQueue lq)"

definition cq_of :: "world \<Rightarrow> workload \<Rightarrow> cluster_queue option" where
  "cq_of w wl =
     (if cq_name_of w wl = [] then None
      else find (\<lambda>c. cq_Name c = cq_name_of w wl) (w_ClusterQueues w))"

definition is_hero_in :: "Config \<Rightarrow> world \<Rightarrow> workload \<Rightarrow> bool" where
  "is_hero_in cfg w wl \<longleftrightarrow> IsHero wl (cq_of w wl) cfg = ReasonIsHero"

definition stuck_heroes :: "Config \<Rightarrow> world \<Rightarrow> workload list" where
  "stuck_heroes cfg w =
     filter (\<lambda>wl. \<not> deactivated wl \<and> IsStuckTASNoFit wl (cfg_StuckDetection cfg) \<and> is_hero_in cfg w wl) (w_Workloads w)"

definition other_heroes :: "Config \<Rightarrow> world \<Rightarrow> namespaced_name \<Rightarrow> workload list" where
  "other_heroes cfg w self =
     filter (\<lambda>wl. wl_Key wl \<noteq> self \<and> wl_Admission wl \<noteq> None \<and>
       \<not> IsStatusConditionTrue (wl_Conditions wl) WorkloadFinished \<and> is_hero_in cfg w wl) (w_Workloads w)"

definition drains_in :: "Config \<Rightarrow> world \<Rightarrow> (namespaced_name \<times> Drain) list" where
  "drains_in cfg w = FindDrains (w_Nodes w) (cfg_TaintKey cfg)"

lemma quiet_or_none:
  assumes "m w = (case x of None \<Rightarrow> Inl NotFound | Some a \<Rightarrow> Inr a, w)"
  shows "or_none m w = (Inr x, w)"
  using assms by (simp add: or_none_def andthen_def attempt_def ret_def split: option.split)

lemma quiet_clusterQueueFor:
  assumes "quiet w"
  shows "clusterQueueFor wl w = (Inr (cq_of w wl), w)"
proof -
  have lq: "or_none (get_local_queue k) w = (Inr (find (\<lambda>q. lq_Key q = k) (w_LocalQueues w)), w)" for k
    by (rule quiet_or_none) (simp add: quiet_reads assms)
  have cq: "or_none (get_cluster_queue c) w = (Inr (find (\<lambda>q. cq_Name q = c) (w_ClusterQueues w)), w)" for c
    by (rule quiet_or_none) (simp add: quiet_reads assms)
  show ?thesis
    by (simp add: clusterQueueFor_def run_simps cq lq cq_of_def cq_name_of_def split: option.split)
qed

lemma quiet_filter_loop:
  assumes "\<And>s x. x \<in> set xs \<Longrightarrow> f s x w = (Inr (if P x then s @ [x] else s), w)"
  shows "loop_over xs s f w = (Inr (s @ filter P xs), w)"
  using assms by (induction xs arbitrary: s) (simp_all add: run_simps)

lemma quiet_hero_here: "quiet w \<Longrightarrow> hero_here cfg wl w = (Inr (is_hero_in cfg w wl), w)"
  by (simp add: hero_here_def run_simps quiet_clusterQueueFor is_hero_in_def)

lemma quiet_stuckHeroes: "quiet w \<Longrightarrow> stuckHeroes cfg (w_Workloads w) w = (Inr (stuck_heroes cfg w), w)"
  unfolding stuckHeroes_def stuck_heroes_def
  by (subst quiet_filter_loop[where P = "\<lambda>wl. \<not> deactivated wl \<and>
        IsStuckTASNoFit wl (cfg_StuckDetection cfg) \<and> is_hero_in cfg w wl"])
    (simp_all add: run_simps quiet_hero_here)

lemma quiet_otherAdmittedHeroes:
  "quiet w \<Longrightarrow> otherAdmittedHeroes cfg (w_Workloads w) self w = (Inr (other_heroes cfg w self), w)"
  unfolding otherAdmittedHeroes_def other_heroes_def
  by (subst quiet_filter_loop[where P = "\<lambda>wl. wl_Key wl \<noteq> self \<and> wl_Admission wl \<noteq> None \<and>
        \<not> IsStatusConditionTrue (wl_Conditions wl) WorkloadFinished \<and> is_hero_in cfg w wl"])
    (auto simp: run_simps quiet_hero_here)

lemma quiet_drainsInFlight: "quiet w \<Longrightarrow> drainsInFlight cfg w = (Inr (drains_in cfg w), w)"
  by (simp add: drainsInFlight_def run_simps quiet_reads drains_in_def FindDrains_filter[simplified])

text \<open>The topology of the first flavor that resolves.\<close>

definition flavor_levels :: "world \<Rightarrow> flavor_quotas \<Rightarrow> string list option" where
  "flavor_levels w fq =
     (case find (\<lambda>f. rf_Name f = fq_Name fq) (w_Flavors w) of
        None \<Rightarrow> None
      | Some rf \<Rightarrow>
          (case rf_TopologyName rf of
             None \<Rightarrow> None
           | Some t \<Rightarrow> map_option topo_Levels (find (\<lambda>tp. topo_Name tp = t) (w_Topologies w))))"

definition topology_in :: "world \<Rightarrow> cluster_queue \<Rightarrow> string list" where
  "topology_in w cq =
     (case List.map_filter (flavor_levels w) (concat (cq_ResourceGroups cq)) of [] \<Rightarrow> [] | ls # _ \<Rightarrow> ls)"

lemma quiet_topologyLevels:
  assumes "quiet w"
  shows "topologyLevels cq w = (Inr (topology_in w cq), w)"
proof -
  have "topology_loop fqs w
      = (Inr (case List.map_filter (flavor_levels w) fqs of [] \<Rightarrow> [] | ls # _ \<Rightarrow> ls), w)" for fqs
  proof (induction fqs)
    case (Cons fq fqs)
    then show ?case
      by (cases "flavor_levels w fq")
        (auto simp: run_simps quiet_reads assms flavor_levels_def List.map_filter_simps
          split: option.splits)
  qed (simp add: run_simps List.map_filter_simps)
  then show ?thesis by (simp add: topologyLevels_def topology_in_def)
qed

definition levels_in :: "world \<Rightarrow> workload \<Rightarrow> cluster_queue \<Rightarrow> (string \<times> string) option" where
  "levels_in w wl cq =
     (case CoarsestLevel (RequiredTopologyLevels wl) (topology_in w cq) of
        None \<Rightarrow> None
      | Some level \<Rightarrow> map_option (Pair level) (GroupingLevel wl (topology_in w cq) level))"

definition same_but_events :: "world \<Rightarrow> world \<Rightarrow> bool" where
  "same_but_events w w' \<longleftrightarrow> (\<exists>evs. w' = w\<lparr>w_Events := evs\<rparr>)"

lemma same_but_events_refl [simp]: "same_but_events w w"
  by (auto simp: same_but_events_def intro: exI[of _ "w_Events w"])

lemma quiet_drainLevel:
  assumes "quiet w"
  shows "\<exists>w'. drainLevel wl cq w = (Inr (levels_in w wl cq), w') \<and> same_but_events w w' \<and>
     (levels_in w wl cq \<noteq> None \<longrightarrow> w' = w)"
proof (cases "RequiredTopologyLevels wl = [] \<or> topology_in w cq = []")
  case True
  then have "CoarsestLevel (RequiredTopologyLevels wl) (topology_in w cq) = None"
    by (auto simp: CoarsestLevel_None)
  with True show ?thesis
    by (auto simp: drainLevel_def Let_def run_simps emit_def quiet_topologyLevels[OF assms]
        levels_in_def same_but_events_def)
next
  case False
  then show ?thesis
    by (auto simp: drainLevel_def Let_def run_simps emit_def quiet_topologyLevels[OF assms]
        levels_in_def split: option.split) (auto simp: same_but_events_def)
qed

lemma quiet_buildSnapshot:
  assumes "quiet w"
  shows "buildSnapshot L cfg level groupingLevel self (w_Workloads w) w =
     (case Build L \<lparr>in_Level = level, in_GroupLevel = groupingLevel, in_Nodes = w_Nodes w, in_Pods = w_Pods w,
                     in_OtherHeroes = other_heroes cfg w self, in_Self = self, in_Cfg = cfg\<rparr> of
        None \<Rightarrow> Inl RuntimePanic | Some snap \<Rightarrow> Inr snap, w)"
  using assms
  by (simp add: buildSnapshot_def run_simps quiet_reads quiet_otherAdmittedHeroes filter_True split: option.split)

subsection \<open>Removing the taints of one hero\<close>

definition same_but_nodes :: "world \<Rightarrow> world \<Rightarrow> bool" where
  "same_but_nodes w w' \<longleftrightarrow>
     w_Workloads w' = w_Workloads w \<and> w_Pods w' = w_Pods w \<and> w_Now w' = w_Now w \<and>
     w_Script w' = w_Script w \<and> w_NudgeChan w' = w_NudgeChan w \<and> w_Events w' = w_Events w \<and>
     w_Metrics w' = w_Metrics w"

lemma same_but_nodes_refl [simp]: "same_but_nodes w w"
  by (simp add: same_but_nodes_def)

lemma same_but_nodes_trans: "same_but_nodes u v \<Longrightarrow> same_but_nodes v w \<Longrightarrow> same_but_nodes u w"
  by (simp add: same_but_nodes_def)

lemma same_but_nodes_put [simp]: "same_but_nodes w (log_write x (put_node n w))"
  by (simp add: same_but_nodes_def log_write_def put_node_def)

definition untainted :: "string \<Rightarrow> namespaced_name \<Rightarrow> string set \<Rightarrow> node \<Rightarrow> node \<Rightarrow> bool" where
  "untainted key k nms n n' \<longleftrightarrow>
     (\<exists>rv. n' = (if node_Name n \<in> nms \<and> Owner n key = Some k
                then (strip_drain_taint key n)\<lparr>node_ResourceVersion := rv\<rparr> else n))"

lemma persist_strip: "persist_node rv n (strip_drain_taint key n) = (strip_drain_taint key n)\<lparr>node_ResourceVersion := rv\<rparr>"
  by (simp add: persist_node_def strip_drain_taint_def)

lemma untainted_trans:
  "untainted key k A a b \<Longrightarrow> untainted key k B b c \<Longrightarrow> untainted key k (A \<union> B) a c"
  unfolding untainted_def by (auto split: if_splits)

lemma quiet_untaint:
  assumes "quiet w" "distinct (map node_Name (w_Nodes w))" "wf_key k"
  shows "\<exists>r w'. RemoveOwnedTaint L nm key k w = (Inr r, w') \<and> same_but_nodes w w' \<and>
     list_all2 (untainted key k {nm}) (w_Nodes w) (w_Nodes w')"
proof (cases "find_node nm (w_Nodes w)")
  case None
  then have "list_all2 (untainted key k {nm}) (w_Nodes w) (w_Nodes w)"
    by (intro list.rel_refl_strong) (auto simp: untainted_def find_node_def find_None_iff)
  with quiet_RemoveOwnedTaint_gone[OF assms(1) None, of L key k] show ?thesis
    by (intro exI[of _ False] exI[of _ w]) simp
next
  case (Some n)
  have mem: "n \<in> set (w_Nodes w)" "node_Name n = nm"
    using Some by (auto simp: find_node_def dest: find_mem)
  have only: "m = n" if "m \<in> set (w_Nodes w)" "node_Name m = nm" for m
    using that mem assms(2) by (auto simp: distinct_map inj_on_def)
  have run: "RemoveOwnedTaint L nm key k w =
     (if Owner n key = Some k
      then let new = persist_node (Suc (w_Revision w)) n (strip_drain_taint key n)
           in (Inr True, log_write (NodeUpdated n new) (put_node new w))
      else (Inr False, w))"
    unfolding quiet_RemoveOwnedTaint[OF assms(1) Some] Owner_by_mark[OF assms(3)] ..
  show ?thesis
  proof (cases "Owner n key = Some k")
    case True
    let ?new = "persist_node (Suc (w_Revision w)) n (strip_drain_taint key n)"
    have "list_all2 (untainted key k {nm}) (w_Nodes w) (w_Nodes (put_node ?new w))"
      unfolding put_node_def set_nodes_simps list_all2_map2
    proof (rule list.rel_refl_strong)
      fix m assume m: "m \<in> set (w_Nodes w)"
      show "untainted key k {nm} m (if node_Name m = node_Name ?new then ?new else m)"
      proof (cases "node_Name m = nm")
        case True
        with m have "m = n" by (rule only)
        with mem \<open>Owner n key = Some k\<close> show ?thesis
          by (auto simp: untainted_def persist_strip)
      qed (simp add: untainted_def mem persist_strip)
    qed
    then have "list_all2 (untainted key k {nm}) (w_Nodes w)
        (w_Nodes (log_write (NodeUpdated n ?new) (put_node ?new w)))"
      by (simp add: log_write_def)
    moreover have "RemoveOwnedTaint L nm key k w = (Inr True, log_write (NodeUpdated n ?new) (put_node ?new w))"
      using run True by (simp add: Let_def)
    ultimately show ?thesis using same_but_nodes_put by blast
  next
    case False
    have "list_all2 (untainted key k {nm}) (w_Nodes w) (w_Nodes w)"
      using only False by (intro list.rel_refl_strong) (auto simp: untainted_def)
    with run False show ?thesis by (intro exI[of _ False] exI[of _ w]) simp
  qed
qed

lemma untainted_names: "list_all2 (untainted key k A) ns ns' \<Longrightarrow> map node_Name ns' = map node_Name ns"
  by (induction rule: list_all2_induct) (auto simp: untainted_def)

lemma quiet_untaint_loop:
  assumes "quiet w" "distinct (map node_Name (w_Nodes w))" "wf_key k"
  shows "\<exists>w'. for_each nms (\<lambda>nm. seq (RemoveOwnedTaint L nm key k) (ret ())) w = (Inr (), w') \<and>
     same_but_nodes w w' \<and> list_all2 (untainted key k (set nms)) (w_Nodes w) (w_Nodes w')"
  using assms
proof (induction nms arbitrary: w)
  case Nil
  then show ?case by (auto simp: run_simps untainted_def intro!: list.rel_refl_strong)
next
  case (Cons nm nms)
  obtain r w1 where w1: "RemoveOwnedTaint L nm key k w = (Inr r, w1)" "same_but_nodes w w1"
    "list_all2 (untainted key k {nm}) (w_Nodes w) (w_Nodes w1)"
    using quiet_untaint[OF Cons.prems] by blast
  have "quiet w1" "distinct (map node_Name (w_Nodes w1))"
    using Cons.prems w1(2) untainted_names[OF w1(3)] by (simp_all add: quiet_def same_but_nodes_def)
  from Cons.IH[OF this Cons.prems(3)] obtain w2 where w2:
    "for_each nms (\<lambda>nm. seq (RemoveOwnedTaint L nm key k) (ret ())) w1 = (Inr (), w2)" "same_but_nodes w1 w2"
    "list_all2 (untainted key k (set nms)) (w_Nodes w1) (w_Nodes w2)" by blast
  have "list_all2 (untainted key k ({nm} \<union> set nms)) (w_Nodes w) (w_Nodes w2)"
    by (rule list_all2_trans[OF _ w1(3) w2(3)]) (rule untainted_trans)
  moreover have "for_each (nm # nms) (\<lambda>nm. seq (RemoveOwnedTaint L nm key k) (ret ())) w = (Inr (), w2)"
    using w2(1) w1(1) by (simp add: seq_def andthen_def ret_def)
  ultimately show ?case
    using same_but_nodes_trans[OF w1(2) w2(2)] by (intro exI[of _ w2]) simp
qed

text \<open>With every node of the drain untainted the hero owns nothing.\<close>

lemma untainted_owners:
  assumes "list_all2 (untainted key k A) ns ns'" "set (owned_names key k ns) \<subseteq> A"
  shows "node_owners key ns' = node_owners key ns - {k}"
proof -
  have "node_owners key ns' \<subseteq> node_owners key ns - {k} \<and> node_owners key ns - {k} \<subseteq> node_owners key ns'"
    using assms
  proof (induction rule: list_all2_induct)
    case (Cons n ns n' ns')
    have "set (owned_names key k ns) \<subseteq> A"
      using Cons.prems by (auto simp: owned_names_def)
    with Cons.IH have "node_owners key ns' = node_owners key ns - {k}" by blast
    moreover have "Owner n' key = (if Owner n key = Some k then None else Owner n key)"
      using Cons.hyps(1) Cons.prems by (auto simp: untainted_def owned_names_def)
    ultimately show ?case by (auto simp: node_owners_def split: if_splits)
  qed (simp add: node_owners_def)
  then show ?thesis by blast
qed

text \<open>The taint and the annotations of \<open>k\<close>'s drain are off, whichever node carried them; the nodes of every
  other owner, and the nodes without one, keep every field.\<close>

definition cleared :: "string \<Rightarrow> namespaced_name \<Rightarrow> node \<Rightarrow> node \<Rightarrow> bool" where
  "cleared key k n n' \<longleftrightarrow>
     (if Owner n key = Some k then \<exists>rv. n' = (strip_drain_taint key n)\<lparr>node_ResourceVersion := rv\<rparr> else n' = n)"

lemma untainted_cleared:
  assumes "list_all2 (untainted key k A) ns ns'" "set (owned_names key k ns) \<subseteq> A"
  shows "list_all2 (cleared key k) ns ns'"
  using assms
proof (induction rule: list_all2_induct)
  case (Cons n ns n' ns')
  have "set (owned_names key k ns) \<subseteq> A" using Cons.prems by (auto simp: owned_names_def)
  moreover have "cleared key k n n'"
    using Cons.hyps(1) Cons.prems by (auto simp: untainted_def cleared_def owned_names_def)
  ultimately show ?case using Cons.IH by simp
qed simp

lemma cleared_Owner: "cleared key k n n' \<Longrightarrow> Owner n' key = (if Owner n key = Some k then None else Owner n key)"
  by (auto simp: cleared_def split: if_splits)

lemma cleared_owners:
  assumes "list_all2 (cleared key k) ns ns'"
  shows "node_owners key ns' = node_owners key ns - {k}"
  using assms
proof (induction rule: list_all2_induct)
  case (Cons n ns n' ns')
  with cleared_Owner[OF Cons.hyps(1)] show ?case by (auto simp: node_owners_def)
qed (simp add: node_owners_def)

subsection \<open>An aborted drain\<close>

lemma quiet_abortDrain:
  assumes "quiet w" "distinct (map wl_Key (w_Workloads w))" "distinct (map node_Name (w_Nodes w))"
    and "wf_key (wl_Key wl)"
  shows "\<exists>w'. abortDrain L cfg wl own reason w = (Inr (requeue_after requeueWhileQueued), w') \<and> quiet w' \<and>
     w_Workloads w' = map (\<lambda>x. if wl_Annotations x DeactivatedForAnnotation = Some (OwnerRef (wl_Key wl))
        then reactivated x else x) (w_Workloads w) \<and>
     list_all2 (untainted (cfg_TaintKey cfg) (wl_Key wl) (set (drain_Nodes own))) (w_Nodes w) (w_Nodes w')"
proof -
  obtain s w1 where w1: "SweepFor (wl_Key wl) w = (Inr s, w1)" "same_but_workloads w w1"
    "w_Workloads w1 = map (\<lambda>x. if wl_Annotations x DeactivatedForAnnotation = Some (OwnerRef (wl_Key wl))
        then reactivated x else x) (w_Workloads w)"
    using quiet_SweepFor[OF assms(1,2), of "wl_Key wl"] by blast
  have q1: "quiet w1" "distinct (map node_Name (w_Nodes w1))"
    using assms w1(2) by (simp_all add: quiet_def same_but_workloads_def)
  obtain w2 where w2: "for_each (drain_Nodes own) (\<lambda>nm. seq (RemoveOwnedTaint L nm (cfg_TaintKey cfg) (wl_Key wl))
      (ret ())) w1 = (Inr (), w2)" "same_but_nodes w1 w2"
    "list_all2 (untainted (cfg_TaintKey cfg) (wl_Key wl) (set (drain_Nodes own))) (w_Nodes w1) (w_Nodes w2)"
    using quiet_untaint_loop[OF q1 assms(4)] by blast
  show ?thesis
    using w1 w2 q1
    by (auto simp: abortDrain_def run_simps count_metric_def emit_def same_but_workloads_def
        same_but_nodes_def quiet_def)
qed

subsection \<open>A teardown\<close>

lemma quiet_RemoveOwnedTaint_any:
  assumes "quiet w" "distinct (map node_Name (w_Nodes w))" "wf_key k"
  obtains r w' where "RemoveOwnedTaint L nm key k w = (Inr r, w')" "same_but_nodes w w'"
    "list_all2 (untainted key k {nm}) (w_Nodes w) (w_Nodes w')"
  using quiet_untaint[OF assms] by blast

text \<open>The list of tainted nodes decides the count alone; it may come from a lagging cache.\<close>

lemma teardown_after_list:
  assumes "list_nodes (MatchingFields (NodeDrainTainted cfg) index_true) w0 = (Inr ts, w)"
    and "quiet w" "distinct (map wl_Key (w_Workloads w))" "distinct (map node_Name (w_Nodes w))"
    and "wf_key owner"
  shows "\<exists>w'. teardown L cfg nm owner oc w0 = (Inr no_requeue, w') \<and> quiet w' \<and>
     w_Pods w' = w_Pods w \<and> w_Now w' = w_Now w \<and>
     w_Workloads w' = map (\<lambda>x. if wl_Annotations x DeactivatedForAnnotation = Some (OwnerRef owner)
        then reactivated x else x) (w_Workloads w) \<and>
     list_all2 (untainted (cfg_TaintKey cfg) owner {nm}) (w_Nodes w) (w_Nodes w') \<and>
     DrainsCompleted (w_Metrics w') = (if last_node_of (map_of (FindDrains ts (cfg_TaintKey cfg)) owner) nm
        then (DrainsCompleted (w_Metrics w))(oc := Suc (DrainsCompleted (w_Metrics w) oc))
        else DrainsCompleted (w_Metrics w)) \<and>
     DrainsTimedOut (w_Metrics w') = DrainsTimedOut (w_Metrics w) +
        (if last_node_of (map_of (FindDrains ts (cfg_TaintKey cfg)) owner) nm \<and> oc = OutcomeTimedOut then 1 else 0)"
proof -
  let ?drains = "FindDrains ts (cfg_TaintKey cfg)"
  let ?final = "last_node_of (map_of ?drains owner) nm"
  define w1 where "w1 = w\<lparr>w_Metrics := set_in_flight (if ?final then length ?drains - 1 else length ?drains)
      (if ?final then (if oc = OutcomeTimedOut then inc_timed_out else (\<lambda>m. m)) (inc_completed oc (w_Metrics w))
       else w_Metrics w)\<rparr>"
  have counted: "seq (if ?final then seq (count_metric (inc_completed oc))
        (if oc = OutcomeTimedOut then count_metric inc_timed_out else ret ()) else ret ())
      (seq (count_metric (set_in_flight (if ?final then length ?drains - 1 else length ?drains))) m) w = m w1"
    for m :: "Result api"
    by (simp add: w1_def seq_def andthen_def ret_def count_metric_def)
  have w1: "quiet w1" "distinct (map node_Name (w_Nodes w1))" "w_Nodes w1 = w_Nodes w"
    "w_Workloads w1 = w_Workloads w" "w_Pods w1 = w_Pods w" "w_Now w1 = w_Now w"
    using assms(2,4) by (simp_all add: w1_def)
  obtain r w2 where w2: "RemoveOwnedTaint L nm (cfg_TaintKey cfg) owner w1 = (Inr r, w2)" "same_but_nodes w1 w2"
    "list_all2 (untainted (cfg_TaintKey cfg) owner {nm}) (w_Nodes w1) (w_Nodes w2)"
    using quiet_RemoveOwnedTaint_any[OF w1(1,2) assms(5)] by metis
  have q2: "quiet w2" "distinct (map wl_Key (w_Workloads w2))"
    using w1(1,4) w2(2) assms(3) by (simp_all add: quiet_def same_but_nodes_def)
  obtain s w3 where w3: "SweepFor owner w2 = (Inr s, w3)" "same_but_workloads w2 w3"
    "w_Workloads w3 = map (\<lambda>x. if wl_Annotations x DeactivatedForAnnotation = Some (OwnerRef owner)
        then reactivated x else x) (w_Workloads w2)"
    using quiet_SweepFor[OF q2, of owner] by blast
  have "teardown L cfg nm owner oc w0 = seq (RemoveOwnedTaint L nm (cfg_TaintKey cfg) owner)
      (seq (SweepFor owner) (seq send_nudge (ret no_requeue))) w1"
    unfolding teardown_def Let_def
    by (subst run_step(1)[where a = ts and w' = w]) (simp_all only: assms(1) counted)
  also have "\<dots> = (Inr no_requeue, snd (send_nudge w3))"
    by (simp add: seq_def andthen_def w2(1) w3(1) send_nudge_def ret_def)
  finally have run: "teardown L cfg nm owner oc w0 = (Inr no_requeue, snd (send_nudge w3))" .
  have "quiet (snd (send_nudge w3)) \<and> w_Pods (snd (send_nudge w3)) = w_Pods w \<and>
      w_Now (snd (send_nudge w3)) = w_Now w \<and> w_Workloads (snd (send_nudge w3)) = w_Workloads w3 \<and>
      w_Nodes (snd (send_nudge w3)) = w_Nodes w2 \<and> w_Metrics (snd (send_nudge w3)) = w_Metrics w3"
    using q2 w1 w2(2) w3(2)
    by (simp add: send_nudge_def same_but_workloads_def same_but_nodes_def quiet_def)
  moreover have "DrainsCompleted (w_Metrics w1) = (if ?final
        then (DrainsCompleted (w_Metrics w))(oc := Suc (DrainsCompleted (w_Metrics w) oc))
        else DrainsCompleted (w_Metrics w))"
    "DrainsTimedOut (w_Metrics w1) = DrainsTimedOut (w_Metrics w) + (if ?final \<and> oc = OutcomeTimedOut then 1 else 0)"
    by (simp_all add: w1_def metric_defs)
  ultimately show ?thesis using run w1 w2 w3
    by (intro exI[of _ "snd (send_nudge w3)"]) (simp add: same_but_nodes_def same_but_workloads_def)
qed

lemma quiet_teardown:
  assumes "quiet w" "distinct (map wl_Key (w_Workloads w))" "distinct (map node_Name (w_Nodes w))"
    and "wf_key owner"
  shows "\<exists>w'. teardown L cfg nm owner oc w = (Inr no_requeue, w') \<and> quiet w' \<and>
     w_Pods w' = w_Pods w \<and> w_Now w' = w_Now w \<and>
     w_Workloads w' = map (\<lambda>x. if wl_Annotations x DeactivatedForAnnotation = Some (OwnerRef owner)
        then reactivated x else x) (w_Workloads w) \<and>
     list_all2 (untainted (cfg_TaintKey cfg) owner {nm}) (w_Nodes w) (w_Nodes w') \<and>
     DrainsCompleted (w_Metrics w') = (if last_node_of (map_of (drains_in cfg w) owner) nm
        then (DrainsCompleted (w_Metrics w))(oc := Suc (DrainsCompleted (w_Metrics w) oc))
        else DrainsCompleted (w_Metrics w)) \<and>
     DrainsTimedOut (w_Metrics w') = DrainsTimedOut (w_Metrics w) +
        (if last_node_of (map_of (drains_in cfg w) owner) nm \<and> oc = OutcomeTimedOut then 1 else 0)"
proof -
  have "list_nodes (MatchingFields (NodeDrainTainted cfg) index_true) w
      = (Inr (filter (\<lambda>n. Owner n (cfg_TaintKey cfg) \<noteq> None) (w_Nodes w)), w)"
    by (simp only: quiet_reads[OF assms(1)] index_selects)
  from teardown_after_list[OF this assms] show ?thesis
    by (simp only: FindDrains_filter drains_in_def[symmetric])
qed

end
