(* ===== verification/Janitor_Runs.thy ===== *)
theory Janitor_Runs
  imports Runs
begin

text \<open>
  Undisturbed runs of the janitor. \<open>verdict\<close> is the ladder of its specification, read off the cluster;
  \<open>quiet_janitor\<close> says that \<open>Reconcile\<close> carries out the verdict. \<open>visit_nodes\<close> is the janitor visiting
  nodes one after the other, the events its watches deliver.
\<close>

subsection \<open>The ladder\<close>

datatype verdict = Remove outcome | RestartClock | Wait duration

definition running_pods :: "world \<Rightarrow> workload \<Rightarrow> int32" where
  "running_pods w hero =
     of_nat (length (filter (\<lambda>p. Namespace (pod_Key p) = Namespace (wl_Key hero) \<and>
       MatchingFields PodWorkload (Name (wl_Key hero)) p \<and> pod_Phase p = PodRunning) (w_Pods w)))"

definition time_left :: "Config \<Rightarrow> time \<Rightarrow> time \<Rightarrow> duration" where
  "time_left cfg now startedAt = dur_minus (cfg_DrainTimeout cfg) (time_Sub now startedAt)"

definition deadline_verdict :: "Config \<Rightarrow> world \<Rightarrow> node \<Rightarrow> verdict" where
  "deadline_verdict cfg w n =
     (case drainStartedAt n of
        None \<Rightarrow> RestartClock
      | Some t \<Rightarrow> if 0 < time_left cfg (w_Now w) t then Wait (time_left cfg (w_Now w) t) else Remove OutcomeTimedOut)"

definition verdict :: "kueue_lib \<Rightarrow> Config \<Rightarrow> world \<Rightarrow> node \<Rightarrow> namespaced_name \<Rightarrow> verdict" where
  "verdict L cfg w n owner =
     (case find_workload owner (w_Workloads w) of
        None \<Rightarrow> Remove OutcomeAbandoned
      | Some hero \<Rightarrow>
          if deactivated hero then Remove OutcomeDeactivated
          else if IsStatusConditionTrue (wl_Conditions hero) WorkloadFinished then Remove OutcomeFinished
          else (case wl_Admission hero of
                  None \<Rightarrow> deadline_verdict cfg w n
                | Some adm \<Rightarrow>
                    if \<not> assignmentTouchesNode L adm n then Remove OutcomePlacedElsewhere
                    else if sint (admittedPodCount hero) \<le> sint (running_pods w hero) then Remove OutcomePlaced
                    else deadline_verdict cfg w n))"

text \<open>Nothing but the deadline can end the drain of a hero that still waits: it is active and unfinished, and
  not admitted, or admitted onto this node with pods still to start.\<close>

definition waits :: "kueue_lib \<Rightarrow> world \<Rightarrow> node \<Rightarrow> workload \<Rightarrow> bool" where
  "waits L w n hero \<longleftrightarrow>
     \<not> deactivated hero \<and> \<not> IsStatusConditionTrue (wl_Conditions hero) WorkloadFinished \<and>
     (\<forall>adm. wl_Admission hero = Some adm \<longrightarrow>
        assignmentTouchesNode L adm n \<and> sint (running_pods w hero) < sint (admittedPodCount hero))"

lemma waits_verdict:
  "find_workload k (w_Workloads w) = Some hero \<Longrightarrow> waits L w n hero \<Longrightarrow> verdict L cfg w n k = deadline_verdict cfg w n"
  by (auto simp: verdict_def waits_def split: option.split)

lemma deadline_verdict_exact:
  assumes "drainStartedAt n = Some t" "0 \<le> cfg_DrainTimeout cfg" "cfg_DrainTimeout cfg < 2 ^ 63"
  shows "deadline_verdict cfg w n =
     (let left = t + cfg_DrainTimeout cfg - w_Now w
      in if 0 < left \<and> left < 2 ^ 63 then Wait left else Remove OutcomeTimedOut)"
proof -
  let ?left = "t + cfg_DrainTimeout cfg - w_Now w" and ?gap = "time_left cfg (w_Now w) t"
  have "?gap = ?left" if "0 < ?left" "?left < 2 ^ 63"
    using that assms(2,3) by (simp add: time_left_def dur_minus_def time_Sub_def wrap64_id)
  moreover have "?gap \<le> 0" if "?left \<le> 0"
    using that assms(2,3) by (simp add: time_left_def dur_minus_def time_Sub_def wrap64_id)
  moreover have "?gap \<le> 0" if big: "2 ^ 63 \<le> ?left"
  proof -
    let ?x = "cfg_DrainTimeout cfg - time_Sub (w_Now w) t"
    have "2 ^ 63 \<le> ?x" "?x < 2 ^ 64" using big assms(2,3) by (simp_all add: time_Sub_def)
    then have "(?x + 2 ^ 63) mod 2 ^ 64 = ?x + 2 ^ 63 - 2 ^ 64"
      using minus_mod_self2[of "?x + 2 ^ 63" "2 ^ 64"] by (simp add: mod_pos_pos_trivial)
    with \<open>?x < 2 ^ 64\<close> show ?thesis by (simp add: time_left_def dur_minus_def wrap64_def)
  qed
  ultimately show ?thesis
    using assms(1) by (auto simp: deadline_verdict_def Let_def not_less)
qed

lemma quiet_runningHeroPods:
  assumes "quiet w"
  shows "runningHeroPods hero w = (Inr (running_pods w hero), w)"
proof -
  have count: "foldl (\<lambda>running p. if pod_Phase p = PodRunning then running + 1 else running) (c :: int32) ps
      = c + of_nat (length (filter (\<lambda>p. pod_Phase p = PodRunning) ps))" for c ps
    by (induction ps arbitrary: c) simp_all
  show ?thesis
    by (simp add: runningHeroPods_def run_simps quiet_reads assms running_pods_def count conj_assoc)
qed

definition warn_timeout :: "Config \<Rightarrow> namespaced_name \<Rightarrow> unit api" where
  "warn_timeout cfg hero = emit hero EventTypeWarning EventDrainTimedOut [ArgInt (cfg_DrainTimeout cfg)]"

fun carry_out :: "kueue_lib \<Rightarrow> Config \<Rightarrow> string \<Rightarrow> namespaced_name \<Rightarrow> verdict \<Rightarrow> Result api" where
  "carry_out L cfg nm owner (Remove oc) =
     seq (if oc = OutcomeTimedOut then warn_timeout cfg owner else ret ()) (teardown L cfg nm owner oc)"
| "carry_out L cfg nm owner RestartClock = seq (restartClock nm) (ret (requeue_after (cfg_DrainTimeout cfg)))"
| "carry_out L cfg nm owner (Wait d) = ret (requeue_after d)"

lemma quiet_check_deadline:
  "node_Name n = nm \<Longrightarrow> wl_Key hero = owner \<Longrightarrow>
     check_deadline L cfg n owner hero w = carry_out L cfg nm owner (deadline_verdict cfg w n) w"
  by (auto simp: check_deadline_def deadline_verdict_def time_left_def warn_timeout_def seq_def andthen_def
      Now_def ret_def emit_def Let_def split: option.split)

lemma quiet_check_hero:
  assumes "quiet w" "node_Name n = nm" "find_workload owner (w_Workloads w) = Some hero"
  shows "check_hero L cfg n owner hero w = carry_out L cfg nm owner (verdict L cfg w n owner) w"
proof -
  have key: "wl_Key hero = owner" using assms(3) by (auto simp: find_workload_def dest: find_mem)
  show ?thesis
    by (simp add: check_hero_def verdict_def assms quiet_check_deadline[OF assms(2) key] seq_def andthen_def
        ret_def quiet_runningHeroPods[OF assms(1)] split: option.split)
qed

lemma quiet_janitor:
  assumes "quiet w"
  shows "Janitor.Reconcile L cfg nm w =
     (case find_node nm (w_Nodes w) of
        None \<Rightarrow> (Inr no_requeue, w)
      | Some n \<Rightarrow>
          (case Owner n (cfg_TaintKey cfg) of
             None \<Rightarrow> (Inr no_requeue, w)
           | Some owner \<Rightarrow> carry_out L cfg nm owner (verdict L cfg w n owner) w))"
proof -
  have gn: "or_none (get_node nm) w = (Inr (find_node nm (w_Nodes w)), w)"
    by (rule quiet_or_none) (simp add: quiet_reads assms)
  have gw: "or_none (get_workload k) w = (Inr (find_workload k (w_Workloads w)), w)" for k
    by (rule quiet_or_none) (simp add: quiet_reads assms)
  show ?thesis
  proof (cases "find_node nm (w_Nodes w)")
    case None
    then show ?thesis by (simp add: Janitor.Reconcile_def andthen_def gn ret_def)
  next
    case (Some n)
    then have nm: "node_Name n = nm" by (auto simp: find_node_def dest: find_mem)
    show ?thesis
    proof (cases "Owner n (cfg_TaintKey cfg)")
      case None
      with Some show ?thesis by (simp add: Janitor.Reconcile_def andthen_def gn ret_def)
    next
      case owner: (Some owner)
      show ?thesis
      proof (cases "find_workload owner (w_Workloads w)")
        case None
        with Some owner nm show ?thesis
          by (simp add: Janitor.Reconcile_def andthen_def gn gw verdict_def seq_def ret_def)
      next
        case hero: (Some hero)
        with Some owner quiet_check_hero[OF assms nm hero] show ?thesis
          by (simp add: Janitor.Reconcile_def andthen_def gn gw)
      qed
    qed
  qed
qed

subsection \<open>A restarted clock\<close>

definition clocked :: "world \<Rightarrow> node \<Rightarrow> node" where
  "clocked w n = merge_node (Suc (w_Revision w)) n (restart_clock_on (w_Now w) n) n"

lemma clocked_simps [simp]:
  "node_Name (clocked w n) = node_Name n" "Owner (clocked w n) key = Owner n key"
  using write_clock[of key n "Suc (w_Revision w)" n "w_Now w"] by (simp_all add: clocked_def merge_node_def)

lemma quiet_restartClock:
  assumes "quiet w" "find_node nm (w_Nodes w) = Some n"
  shows "restartClock nm w = (Inr (), log_write (NodePatched n n (clocked w n)) (put_node (clocked w n) w))"
proof -
  have "or_none (get_node nm) w = (Inr (Some n), w)"
    using quiet_or_none[of "get_node nm" w "Some n"] by (simp add: quiet_reads assms)
  moreover have "node_Name n = nm" using assms(2) by (rule find_node_name)
  then have "patch_node n (restart_clock_on (w_Now w) n) w
      = (Inr (), log_write (NodePatched n n (clocked w n)) (put_node (clocked w n) w))"
    by (simp add: quiet_writes[OF assms(1)] restart_clock_on_name assms(2) clocked_def Let_def)
  ultimately show ?thesis by (simp add: restartClock_def andthen_def Now_def)
qed

lemma clocked_clock:
  assumes "0 \<le> w_Now w" "w_Now w < year_10000"
  shows "drainStartedAt (clocked w n) = Some (w_Now w - w_Now w mod second)"
  using parse_format_RFC3339[OF assms]
  by (auto simp: drainStartedAt_def clocked_def merge_node_def merge_map_def restart_clock_on_def second_def)

lemma find_node_distinct:
  assumes "distinct (map node_Name ns)" "m \<in> set ns"
  shows "find_node (node_Name m) ns = Some m"
  using assms by (induction ns) (auto simp: find_node_def)

lemma node_owners_map_same:
  "(\<And>m. m \<in> set ns \<Longrightarrow> Owner (f m) key = Owner m key) \<Longrightarrow> node_owners key (map f ns) = node_owners key ns"
  by (force simp: node_owners_def)

lemma clocked_owners:
  assumes "distinct (map node_Name (w_Nodes w))" "find_node nm (w_Nodes w) = Some n"
  shows "node_owners key (w_Nodes (put_node (clocked w n) w)) = node_owners key (w_Nodes w)"
  unfolding put_node_def set_nodes_simps
proof (rule node_owners_map_same)
  fix m assume "m \<in> set (w_Nodes w)"
  then have "m = n" if "node_Name m = node_Name n"
    using that find_unique[OF assms(1), of m] assms(2) find_node_name[OF assms(2)] by (simp add: find_node_def)
  then show "Owner (if node_Name m = node_Name (clocked w n) then clocked w n else m) key = Owner m key"
    by auto
qed

lemma clocked_nodes:
  assumes "distinct (map node_Name (w_Nodes w))" "find_node nm (w_Nodes w) = Some n"
  shows "w_Nodes (put_node (clocked w n) w) = map (\<lambda>m. if m = n then clocked w n else m) (w_Nodes w)"
  unfolding put_node_def set_nodes_simps remember_simps
proof (rule map_cong[OF refl])
  fix m assume "m \<in> set (w_Nodes w)"
  then have "m = n" if "node_Name m = node_Name n"
    using that find_unique[OF assms(1), of m] assms(2) find_node_name[OF assms(2)] by (simp add: find_node_def)
  then have "node_Name m = node_Name n \<longleftrightarrow> m = n" by blast
  then show "(if node_Name m = node_Name (clocked w n) then clocked w n else m) = (if m = n then clocked w n else m)"
    by (simp only: clocked_simps)
qed

lemma clocked_eq: "clocked w n = (restart_clock_on (w_Now w) n)\<lparr>node_ResourceVersion := Suc (w_Revision w)\<rparr>"
proof -
  have "merge_map f g f = g" for f g by (simp add: merge_map_def fun_eq_iff)
  then show ?thesis by (simp add: clocked_def merge_node_def restart_clock_on_def)
qed

lemma waits_clocked:
  assumes "waits L w n hero" "w_Pods w' = w_Pods w"
  shows "waits L w' (clocked w n) hero"
proof -
  have "running_pods w' hero = running_pods w hero" by (simp only: running_pods_def assms(2))
  moreover have "lowest_value_matches L (clocked w n) ta = lowest_value_matches L n ta" for ta
    by (simp add: lowest_value_matches_def clocked_def merge_node_def)
  then have "assignmentTouchesNode L adm (clocked w n) = assignmentTouchesNode L adm n" for adm
    by (simp add: assignmentTouchesNode_def cong: option.case_cong)
  ultimately show ?thesis
    using assms(1) by (simp add: waits_def)
qed

subsection \<open>Visiting the nodes of a drain\<close>

fun visit_nodes :: "kueue_lib \<Rightarrow> Config \<Rightarrow> string list \<Rightarrow> world \<Rightarrow> world" where
  "visit_nodes L cfg [] w = w"
| "visit_nodes L cfg (nm # nms) w = visit_nodes L cfg nms (snd (Janitor.Reconcile L cfg nm w))"

definition handed_back :: "namespaced_name \<Rightarrow> workload \<Rightarrow> workload" where
  "handed_back k wl = (if marked_for k wl then reactivated wl else wl)"

lemma handed_back_simps [simp]:
  "wl_Key (handed_back k wl) = wl_Key wl" "handed_back k (handed_back k wl) = handed_back k wl"
  "wl_Conditions (handed_back k wl) = wl_Conditions wl"
  by (auto simp: handed_back_def marked_for_def reactivated_def)

lemma find_handed_back:
  "find_workload q (map (handed_back k) wls) = map_option (handed_back k) (find_workload q wls)"
  by (induction wls) (simp_all add: find_workload_def)

lemma handed_back_keys: "map wl_Key (map (handed_back k) wls) = map wl_Key wls"
  by simp

text \<open>The janitor's verdict is to take the taint of \<open>k\<close> off each node that carries one, for the reason \<open>oc\<close>
  gives of the node, and no sweep changes that: the hero is not itself a victim marked for its own drain.\<close>

definition ended :: "kueue_lib \<Rightarrow> Config \<Rightarrow> world \<Rightarrow> namespaced_name \<Rightarrow> (string \<Rightarrow> outcome) \<Rightarrow> bool" where
  "ended L cfg w k oc \<longleftrightarrow>
     (\<forall>n \<in> set (w_Nodes w). Owner n (cfg_TaintKey cfg) = Some k \<longrightarrow> verdict L cfg w n k = Remove (oc (node_Name n))) \<and>
     (\<forall>hero. find_workload k (w_Workloads w) = Some hero \<longrightarrow> deactivated hero \<longrightarrow> \<not> marked_for k hero)"

lemma admittedPodCount_handed_back: "Janitor.admittedPodCount (handed_back k wl) = Janitor.admittedPodCount wl"
  by (simp add: handed_back_def reactivated_def Janitor.admittedPodCount_def Let_def)

lemma verdict_stays:
  assumes "w_Workloads w' = map (handed_back k) (w_Workloads w)" "w_Pods w' = w_Pods w" "w_Now w' = w_Now w"
    and "\<And>hero. find_workload k (w_Workloads w) = Some hero \<Longrightarrow> deactivated hero \<Longrightarrow> \<not> marked_for k hero"
  shows "verdict L cfg w' n k = verdict L cfg w n k"
proof (cases "find_workload k (w_Workloads w)")
  case (Some hero)
  let ?h = "handed_back k hero"
  have "deactivated ?h = deactivated hero"
    using assms(4)[OF Some] by (auto simp: handed_back_def reactivated_def deactivated_def)
  moreover have "wl_Admission ?h = wl_Admission hero" by (simp add: handed_back_def reactivated_def)
  moreover have "running_pods w' ?h = running_pods w hero" by (simp add: running_pods_def assms(2))
  moreover have "deadline_verdict cfg w' n = deadline_verdict cfg w n"
    by (simp only: deadline_verdict_def assms(3))
  ultimately show ?thesis
    by (simp only: verdict_def assms(1) find_handed_back Some admittedPodCount_handed_back handed_back_simps
        option.map option.case)
qed (simp add: verdict_def assms(1) find_handed_back)

lemma untainted_Owner:
  assumes "untainted key k A n n'"
  shows "Owner n' key = (if node_Name n \<in> A \<and> Owner n key = Some k then None else Owner n key)"
    "node_Name n' = node_Name n"
proof -
  obtain rv where "n' = (if node_Name n \<in> A \<and> Owner n key = Some k
      then (strip_drain_taint key n)\<lparr>node_ResourceVersion := rv\<rparr> else n)"
    using assms by (auto simp: untainted_def)
  then show "Owner n' key = (if node_Name n \<in> A \<and> Owner n key = Some k then None else Owner n key)"
    "node_Name n' = node_Name n"
    by (auto split: if_splits)
qed

lemma distinct_singleton_set: "distinct xs \<Longrightarrow> set xs = {x} \<Longrightarrow> xs = [x]"
  by (cases xs; cases "tl xs") auto

lemma owned_names_untainted:
  assumes "list_all2 (untainted key k {nm}) ns ns'"
  shows "owned_names key k ns' = filter (\<lambda>x. x \<noteq> nm) (owned_names key k ns)"
  using assms
proof (induction rule: list_all2_induct)
  case (Cons n ns n' ns')
  then show ?case by (auto simp: owned_names_def untainted_Owner)
qed (simp add: owned_names_def)

lemma last_node_of_owned: "last_node_of (map_of (FindDrains ns key) k) nm \<longleftrightarrow> owned_names key k ns = [nm]"
proof -
  have "owned_names key k ns = [] \<Longrightarrow> map_of (FindDrains ns key) k = None"
    using FindDrains_nodes[of ns key k] by (cases "map_of (FindDrains ns key) k") auto
  moreover have "drain_Nodes d = owned_names key k ns" if "map_of (FindDrains ns key) k = Some d" for d
    using FindDrains_Some[OF that] by simp
  ultimately show ?thesis
    using FindDrains_nodes[of ns key k]
    by (cases "map_of (FindDrains ns key) k") (auto simp: last_node_of_def split: if_splits)
qed

definition completes :: "outcome \<Rightarrow> world \<Rightarrow> world \<Rightarrow> bool" where
  "completes oc w w' \<longleftrightarrow>
     DrainsCompleted (w_Metrics w') = (DrainsCompleted (w_Metrics w))(oc := Suc (DrainsCompleted (w_Metrics w) oc)) \<and>
     DrainsTimedOut (w_Metrics w') = DrainsTimedOut (w_Metrics w) + of_bool (oc = OutcomeTimedOut)"

definition counts_nothing :: "world \<Rightarrow> world \<Rightarrow> bool" where
  "counts_nothing w w' \<longleftrightarrow> DrainsCompleted (w_Metrics w') = DrainsCompleted (w_Metrics w) \<and>
     DrainsTimedOut (w_Metrics w') = DrainsTimedOut (w_Metrics w)"

lemma carry_out_Remove:
  assumes "quiet w" "distinct (map wl_Key (w_Workloads w))" "distinct (map node_Name (w_Nodes w))" "wf_key k"
  shows "\<exists>w'. snd (carry_out L cfg nm k (Remove oc) w) = w' \<and> quiet w' \<and> w_Pods w' = w_Pods w \<and> w_Now w' = w_Now w \<and>
     w_Workloads w' = map (handed_back k) (w_Workloads w) \<and>
     list_all2 (untainted (cfg_TaintKey cfg) k {nm}) (w_Nodes w) (w_Nodes w') \<and>
     (if owned_names (cfg_TaintKey cfg) k (w_Nodes w) = [nm] then completes oc w w' else counts_nothing w w')"
proof -
  obtain evs where "carry_out L cfg nm k (Remove oc) w = teardown L cfg nm k oc (w\<lparr>w_Events := evs\<rparr>)"
    by (cases "oc = OutcomeTimedOut")
      (auto simp: seq_def andthen_def ret_def warn_timeout_def emit_def intro: that[of "w_Events w"])
  moreover have "quiet (w\<lparr>w_Events := evs\<rparr>)" "distinct (map wl_Key (w_Workloads (w\<lparr>w_Events := evs\<rparr>)))"
    "distinct (map node_Name (w_Nodes (w\<lparr>w_Events := evs\<rparr>)))"
    using assms(1-3) by simp_all
  from quiet_teardown[OF this assms(4), of L cfg nm oc] obtain w' where
    "teardown L cfg nm k oc (w\<lparr>w_Events := evs\<rparr>) = (Inr no_requeue, w')" "quiet w'" "w_Pods w' = w_Pods w" "w_Now w' = w_Now w"
    "w_Workloads w' = map (handed_back k) (w_Workloads w)"
    "list_all2 (untainted (cfg_TaintKey cfg) k {nm}) (w_Nodes w) (w_Nodes w')"
    "if owned_names (cfg_TaintKey cfg) k (w_Nodes w) = [nm] then completes oc w w' else counts_nothing w w'"
    by (auto simp: drains_in_def last_node_of_owned handed_back_def[abs_def] marked_for_def completes_def counts_nothing_def)
  ultimately show ?thesis by (intro exI[of _ w']) simp
qed

lemma ended_visit:
  assumes "quiet w" "distinct (map wl_Key (w_Workloads w))" "distinct (map node_Name (w_Nodes w))"
    and "ended L cfg w k oc" "nm \<in> set (owned_names (cfg_TaintKey cfg) k (w_Nodes w))"
  shows "\<exists>w'. snd (Janitor.Reconcile L cfg nm w) = w' \<and> quiet w' \<and> w_Workloads w' = map (handed_back k) (w_Workloads w) \<and>
     list_all2 (untainted (cfg_TaintKey cfg) k {nm}) (w_Nodes w) (w_Nodes w') \<and> ended L cfg w' k oc \<and>
     (if owned_names (cfg_TaintKey cfg) k (w_Nodes w) = [nm] then completes (oc nm) w w' else counts_nothing w w')"
proof -
  obtain n where n: "n \<in> set (w_Nodes w)" "node_Name n = nm" "Owner n (cfg_TaintKey cfg) = Some k"
    using assms(5) by (auto simp: owned_names_def)
  then have "find_node nm (w_Nodes w) = Some n"
    using find_unique[OF assms(3) n(1)] by (simp add: find_node_def)
  with n assms(4) have run: "Janitor.Reconcile L cfg nm w = carry_out L cfg nm k (Remove (oc nm)) w"
    by (simp add: quiet_janitor[OF assms(1)] ended_def)
  have "wf_key k" using n(3) by (simp add: Owner_Some)
  from carry_out_Remove[OF assms(1-3) this, of L cfg nm "oc nm"] obtain w' where w':
    "snd (carry_out L cfg nm k (Remove (oc nm)) w) = w'" "quiet w'" "w_Pods w' = w_Pods w" "w_Now w' = w_Now w"
    "w_Workloads w' = map (handed_back k) (w_Workloads w)"
    "list_all2 (untainted (cfg_TaintKey cfg) k {nm}) (w_Nodes w) (w_Nodes w')"
    "if owned_names (cfg_TaintKey cfg) k (w_Nodes w) = [nm] then completes (oc nm) w w' else counts_nothing w w'"
    by blast
  have "ended L cfg w' k oc"
    unfolding ended_def
  proof (intro conjI ballI allI impI)
    fix n' assume n': "n' \<in> set (w_Nodes w')" "Owner n' (cfg_TaintKey cfg) = Some k"
    then obtain m where m: "m \<in> set (w_Nodes w)" "untainted (cfg_TaintKey cfg) k {nm} m n'"
      using list_all2_left[OF w'(6)] by blast
    with n'(2) have "n' = m" using untainted_Owner(1)[OF m(2)] by (auto simp: untainted_def split: if_splits)
    with m(1) n'(2) assms(4) have "verdict L cfg w n' k = Remove (oc (node_Name n'))" by (simp add: ended_def)
    moreover have "verdict L cfg w' n' k = verdict L cfg w n' k"
      using assms(4) by (intro verdict_stays[OF w'(5,3,4)]) (simp add: ended_def)
    ultimately show "verdict L cfg w' n' k = Remove (oc (node_Name n'))" by simp
  next
    fix hero assume hero: "find_workload k (w_Workloads w') = Some hero" "deactivated hero"
    then obtain h where "find_workload k (w_Workloads w) = Some h" "hero = handed_back k h"
      by (auto simp: w'(5) find_handed_back)
    with hero(2) show "\<not> marked_for k hero"
      by (auto simp: handed_back_def reactivated_def deactivated_def split: if_splits)
  qed
  with run w' show ?thesis by (intro exI[of _ w']) simp
qed

lemma ended_drain_visited:
  assumes "quiet w" "distinct (map wl_Key (w_Workloads w))" "distinct (map node_Name (w_Nodes w))"
    and "ended L cfg w k oc" "set nms = set (owned_names (cfg_TaintKey cfg) k (w_Nodes w))" "distinct nms" "nms \<noteq> []"
  shows "list_all2 (untainted (cfg_TaintKey cfg) k (set nms)) (w_Nodes w) (w_Nodes (visit_nodes L cfg nms w)) \<and>
     w_Workloads (visit_nodes L cfg nms w) = map (handed_back k) (w_Workloads w) \<and>
     completes (oc (last nms)) w (visit_nodes L cfg nms w)"
  using assms
proof (induction nms arbitrary: w)
  case (Cons nm nms)
  let ?key = "cfg_TaintKey cfg"
  have "nm \<in> set (owned_names ?key k (w_Nodes w))" by (simp flip: Cons.prems(5))
  from ended_visit[OF Cons.prems(1-4) this] obtain w' where w':
    "snd (Janitor.Reconcile L cfg nm w) = w'" "quiet w'" "w_Workloads w' = map (handed_back k) (w_Workloads w)"
    "list_all2 (untainted ?key k {nm}) (w_Nodes w) (w_Nodes w')" "ended L cfg w' k oc"
    "if owned_names ?key k (w_Nodes w) = [nm] then completes (oc nm) w w' else counts_nothing w w'"
    by blast
  have left: "set nms = set (owned_names ?key k (w_Nodes w'))"
    using Cons.prems(5,6) owned_names_untainted[OF w'(4)] by auto
  have distinct: "distinct (owned_names ?key k (w_Nodes w))"
    using Cons.prems(3) by (simp add: owned_names_def distinct_map_filter)
  show ?case
  proof (cases "nms = []")
    case True
    with Cons.prems(5) distinct have owned: "owned_names ?key k (w_Nodes w) = [nm]"
      by (simp add: distinct_singleton_set)
    with True w' show ?thesis by simp
  next
    case False
    have "owned_names ?key k (w_Nodes w) \<noteq> [nm]"
      using False Cons.prems(5,6) by (cases nms) auto
    then have same: "counts_nothing w w'" using w'(6) by simp
    have IH: "list_all2 (untainted ?key k (set nms)) (w_Nodes w') (w_Nodes (visit_nodes L cfg nms w')) \<and>
       w_Workloads (visit_nodes L cfg nms w') = map (handed_back k) (w_Workloads w') \<and>
       completes (oc (last nms)) w' (visit_nodes L cfg nms w')"
    proof (rule Cons.IH)
      show "distinct (map wl_Key (w_Workloads w'))" using Cons.prems(2) by (simp add: w'(3) comp_def)
      show "distinct (map node_Name (w_Nodes w'))"
        using Cons.prems(3) untainted_names[OF w'(4)] by simp
    qed (use w'(2,5) left False Cons.prems(6) in simp_all)
    from IH have tail: "list_all2 (untainted ?key k (set nms)) (w_Nodes w') (w_Nodes (visit_nodes L cfg nms w'))"
      by blast
    have "list_all2 (untainted ?key k ({nm} \<union> set nms)) (w_Nodes w) (w_Nodes (visit_nodes L cfg nms w'))"
      by (rule list_all2_trans[OF _ w'(4) tail]) (rule untainted_trans)
    with IH same False show ?thesis by (simp add: w'(1,3) completes_def counts_nothing_def comp_def)
  qed
qed simp

end
