(* ===== verification/Victim_Runs.thy ===== *)
theory Victim_Runs
  imports Runs
begin

text \<open>
  Undisturbed runs of phase 2 of a drain: the pass over the victims as one function on workloads
  (\<open>cycled\<close>), the tainting of a plan's nodes, and the execution of a plan, which either stops before it
  touches a workload or has every node of the plan tainted.
\<close>

subsection \<open>A victim pass\<close>

definition lives_on :: "world \<Rightarrow> string list \<Rightarrow> namespaced_name \<Rightarrow> bool" where
  "lives_on w ns key \<longleftrightarrow>
     (\<exists>p \<in> set (w_Pods w). pod_NodeName p \<noteq> [] \<and> pod_NodeName p \<in> set ns \<and> \<not> pod_terminal p \<and>
        pod_Annotations p WorkloadAnnotation = Some (Name key) \<and> Namespace (pod_Key p) = Namespace key)"

lemma set_occupant_fold:
  "set (foldl (occupant_step self) occ ps) = set occ \<union>
     {k. k \<noteq> self \<and> (\<exists>p \<in> set ps. \<not> pod_terminal p \<and> pod_Annotations p WorkloadAnnotation = Some (Name k) \<and>
        Namespace (pod_Key p) = Namespace k)}"
proof (induction ps arbitrary: occ)
  case (Cons p ps)
  have "set (occupant_step self occ p) = set occ \<union> {k. k \<noteq> self \<and> \<not> pod_terminal p \<and>
      pod_Annotations p WorkloadAnnotation = Some (Name k) \<and> Namespace (pod_Key p) = Namespace k}"
    by (cases "pod_Annotations p WorkloadAnnotation")
      (auto simp: occupant_step_def Let_def namespaced_name.expand)
  then show ?case by (auto simp: Cons.IH)
qed simp

lemma distinct_occupant_fold: "distinct occ \<Longrightarrow> distinct (foldl (occupant_step self) occ ps)"
  by (induction ps arbitrary: occ) (auto simp: occupant_step_def Let_def split: option.split)

lemma quiet_victimWorkloadsOn:
  assumes "quiet w"
  shows "\<exists>occ. victimWorkloadsOn ns wl w = (Inr occ, w) \<and> distinct occ \<and>
     set occ = {k. k \<noteq> wl_Key wl \<and> lives_on w ns k}"
proof -
  have "\<exists>occ. loop_over ns occ0 (\<lambda>occ nm. andthen (list_pods (MatchingFields PodNode nm)) (\<lambda>pods.
      ret (foldl (occupant_step (wl_Key wl)) occ pods))) w = (Inr occ, w) \<and> distinct occ \<and>
      set occ = set occ0 \<union> {k. k \<noteq> wl_Key wl \<and> lives_on w ns k}" if "distinct occ0" for occ0
    using that
  proof (induction ns arbitrary: occ0)
    case (Cons nm ns)
    let ?occ = "foldl (occupant_step (wl_Key wl)) occ0 (filter (\<lambda>p. nm \<noteq> [] \<and> pod_NodeName p = nm) (w_Pods w))"
    have "distinct ?occ" using Cons.prems by (rule distinct_occupant_fold)
    from Cons.IH[OF this] obtain occ where occ: "loop_over ns ?occ (\<lambda>occ nm.
        andthen (list_pods (MatchingFields PodNode nm)) (\<lambda>pods. ret (foldl (occupant_step (wl_Key wl)) occ pods))) w
        = (Inr occ, w)" "distinct occ" "set occ = set ?occ \<union> {k. k \<noteq> wl_Key wl \<and> lives_on w ns k}"
      by blast
    have "set occ = set occ0 \<union> {k. k \<noteq> wl_Key wl \<and> lives_on w (nm # ns) k}"
      unfolding occ(3) set_occupant_fold by (auto simp: lives_on_def)
    moreover have "andthen (list_pods (MatchingFields PodNode nm)) (\<lambda>pods.
        ret (foldl (occupant_step (wl_Key wl)) occ0 pods)) w = (Inr ?occ, w)"
      by (simp add: andthen_def quiet_reads(4)[OF assms] ret_def)
    ultimately show ?case
      using occ(1,2) unfolding loop_over.simps(2) by (intro exI[of _ occ]) (simp only: run_step(1) simp_thms)
  qed (simp add: ret_def lives_on_def)
  from this[of "[]"] show ?thesis unfolding victimWorkloadsOn_def by simp
qed

definition evictable :: "Config \<Rightarrow> workload \<Rightarrow> bool" where
  "evictable cfg v \<longleftrightarrow> \<not> hero_classed cfg v \<and> \<not> deactivated v"

lemma suspended_key [simp]: "wl_Key (suspended ref v) = wl_Key v"
  by (simp add: suspended_def)

lemma merge_workload_same:
  assumes "new = old\<lparr>wl_Active := a, wl_Annotations := m\<rparr>"
  shows "merge_workload old new old = new"
proof -
  have "merge_map (wl_Annotations old) m (wl_Annotations old) = m"
    by (auto simp: merge_map_def)
  with assms show ?thesis by (simp add: merge_workload_def)
qed

lemma quiet_deactivateVictim:
  assumes "quiet w" "distinct (map wl_Key (w_Workloads w))" "v \<in> set (w_Workloads w)"
  shows "\<exists>w'. deactivateVictim v heroWL ref w = (Inr (), w') \<and> same_but_workloads w w' \<and>
     w_Workloads w' = map (\<lambda>x. if x = v then suspended ref v else x) (w_Workloads w)"
proof -
  have "find_workload (wl_Key v) (w_Workloads w) = Some v"
    using assms find_workload_member by blast
  moreover have "merge_workload v (suspended ref v) v = suspended ref v"
    by (rule merge_workload_same) (simp add: suspended_def)
  moreover have "map (\<lambda>x. if wl_Key x = wl_Key v then suspended ref v else x) (w_Workloads w)
      = map (\<lambda>x. if x = v then suspended ref v else x) (w_Workloads w)"
    using assms(2,3) by (auto simp: distinct_map inj_on_def)
  ultimately show ?thesis
    using assms(1)
    by (simp add: deactivateVictim_def quiet_simps Let_def count_metric_def emit_def suspended_key
        log_write_def put_workload_def same_but_workloads_def)
qed

text \<open>The loop over the occupants suspends exactly the evictable ones.\<close>

definition suspend_all :: "Config \<Rightarrow> string \<Rightarrow> namespaced_name set \<Rightarrow> workload \<Rightarrow> workload" where
  "suspend_all cfg ref K v = (if wl_Key v \<in> K \<and> evictable cfg v then suspended ref v else v)"

lemma evictable_suspended [simp]: "\<not> evictable cfg (suspended ref v)"
  by (simp add: evictable_def suspended_def deactivated_def)

lemma suspend_all_key [simp]: "wl_Key (suspend_all cfg ref K v) = wl_Key v"
  by (simp add: suspend_all_def)

text \<open>The workloads a pass waits for: there, and not hero-classed.\<close>

definition held :: "Config \<Rightarrow> workload list \<Rightarrow> namespaced_name \<Rightarrow> bool" where
  "held cfg wls key \<longleftrightarrow> (\<exists>v \<in> set wls. wl_Key v = key \<and> \<not> hero_classed cfg v)"

lemma held_suspend_all [simp]: "held cfg (map (suspend_all cfg' ref K) wls) = held cfg wls"
proof -
  have "hero_classed cfg (suspend_all cfg' ref K v) = hero_classed cfg v" for v
    by (simp add: suspend_all_def suspended_def hero_classed_def cong: option.case_cong)
  then show ?thesis by (intro ext) (auto simp: held_def)
qed

lemma quiet_cycle_occupant:
  assumes "quiet w" "distinct (map wl_Key (w_Workloads w))"
  shows "\<exists>counts' w'. cycle_occupant cfg heroWL ref counts key w = (Inr counts', w') \<and> same_but_workloads w w' \<and>
     w_Workloads w' = map (suspend_all cfg ref {key}) (w_Workloads w) \<and>
     fst counts' = fst counts + of_bool (held cfg (w_Workloads w) key)"
proof (cases "find_workload key (w_Workloads w)")
  case None
  then have gone: "\<forall>v \<in> set (w_Workloads w). wl_Key v \<noteq> key"
    by (auto simp: find_workload_def find_None_iff)
  then have "map (suspend_all cfg ref {key}) (w_Workloads w) = w_Workloads w" "\<not> held cfg (w_Workloads w) key"
    by (simp_all add: suspend_all_def map_idI held_def)
  with None assms show ?thesis
    by (cases counts) (simp add: cycle_occupant_def run_simps quiet_reads same_but_workloads_def)
next
  case (Some v)
  then have v: "v \<in> set (w_Workloads w)" "wl_Key v = key"
    by (auto simp: find_workload_def dest: find_mem)
  have only: "x = v \<longleftrightarrow> wl_Key x = key" if "x \<in> set (w_Workloads w)" for x
    using that v assms(2) by (auto simp: distinct_map inj_on_def)
  then have held: "held cfg (w_Workloads w) key \<longleftrightarrow> \<not> hero_classed cfg v"
    using v by (auto simp: held_def)
  show ?thesis
  proof (cases "evictable cfg v")
    case False
    then have "map (suspend_all cfg ref {key}) (w_Workloads w) = w_Workloads w"
      by (intro map_idI) (metis only singletonD suspend_all_def)
    with Some False assms show ?thesis
      by (cases counts) (auto simp: cycle_occupant_def run_simps quiet_reads same_but_workloads_def evictable_def held)
  next
    case True
    obtain w' where w': "deactivateVictim v heroWL ref w = (Inr (), w')" "same_but_workloads w w'"
      "w_Workloads w' = map (\<lambda>x. if x = v then suspended ref v else x) (w_Workloads w)"
      using quiet_deactivateVictim[OF assms v(1)] by blast
    have "w_Workloads w' = map (suspend_all cfg ref {key}) (w_Workloads w)"
      unfolding w'(3) using only True by (auto simp: suspend_all_def)
    with w'(1,2) Some True assms show ?thesis
      by (cases counts) (simp add: cycle_occupant_def run_simps quiet_reads evictable_def held)
  qed
qed

lemma suspend_all_suspend_all:
  "suspend_all cfg ref B (suspend_all cfg ref A v) = suspend_all cfg ref (A \<union> B) v"
  by (auto simp: suspend_all_def)

lemma quiet_cycle_loop:
  assumes "quiet w" "distinct (map wl_Key (w_Workloads w))"
  shows "\<exists>counts' w'. loop_over occ counts (cycle_occupant cfg heroWL ref) w = (Inr counts', w') \<and>
     same_but_workloads w w' \<and> w_Workloads w' = map (suspend_all cfg ref (set occ)) (w_Workloads w) \<and>
     fst counts' = fst counts + int (length (filter (held cfg (w_Workloads w)) occ))"
  using assms
proof (induction occ arbitrary: counts w)
  case Nil
  then show ?case by (simp add: ret_def same_but_workloads_def suspend_all_def)
next
  case (Cons key occ)
  obtain c1 w1 where w1: "cycle_occupant cfg heroWL ref counts key w = (Inr c1, w1)" "same_but_workloads w w1"
    "w_Workloads w1 = map (suspend_all cfg ref {key}) (w_Workloads w)"
    "fst c1 = fst counts + of_bool (held cfg (w_Workloads w) key)"
    using quiet_cycle_occupant[OF Cons.prems] by blast
  have "quiet w1" "distinct (map wl_Key (w_Workloads w1))"
    using Cons.prems w1(2) by (simp_all add: quiet_def same_but_workloads_def w1(3) comp_def)
  from Cons.IH[OF this, of c1] obtain c2 w2 where w2:
    "loop_over occ c1 (cycle_occupant cfg heroWL ref) w1 = (Inr c2, w2)" "same_but_workloads w1 w2"
    "w_Workloads w2 = map (suspend_all cfg ref (set occ)) (w_Workloads w1)"
    "fst c2 = fst c1 + int (length (filter (held cfg (w_Workloads w1)) occ))" by blast
  have "w_Workloads w2 = map (suspend_all cfg ref (set (key # occ))) (w_Workloads w)"
    by (simp add: w2(3) w1(3) suspend_all_suspend_all)
  moreover have "fst c2 = fst counts + int (length (filter (held cfg (w_Workloads w)) (key # occ)))"
    by (simp add: w2(4) w1(3,4))
  ultimately show ?case
    using w1(1) w2(1) same_but_workloads_trans[OF w1(2) w2(2)] by (simp add: andthen_def)
qed

text \<open>The loop that hands back the evicted victims.\<close>

definition hand_back_evicted :: "string \<Rightarrow> workload \<Rightarrow> workload" where
  "hand_back_evicted ref v =
     (if wl_Annotations v DeactivatedForAnnotation = Some ref \<and> deactivated v \<and> evictedByDeactivation v
      then reactivated v else v)"

lemma quiet_reactivate_loop:
  assumes "quiet w" "distinct (map wl_Key (w_Workloads w))" "set vs \<subseteq> set (w_Workloads w)" "distinct vs"
  shows "\<exists>w'. for_each vs (\<lambda>v. if P v then Reactivate v else ret ()) w = (Inr (), w') \<and> same_but_workloads w w' \<and>
     w_Workloads w' = map (\<lambda>x. if x \<in> set vs \<and> P x then reactivated x else x) (w_Workloads w)"
  using assms
proof (induction vs arbitrary: w)
  case Nil
  then show ?case by (simp add: ret_def same_but_workloads_def)
next
  case (Cons v vs)
  show ?case
  proof (cases "P v")
    case False
    then have "(\<lambda>x. if x \<in> set (v # vs) \<and> P x then reactivated x else x)
        = (\<lambda>x. if x \<in> set vs \<and> P x then reactivated x else x)" by auto
    with Cons.IH[of w] Cons.prems False show ?thesis by (simp add: seq_def andthen_def ret_def)
  next
    case True
    obtain w1 where w1: "Reactivate v w = (Inr (), w1)" "same_but_workloads w w1"
      "w_Workloads w1 = map (\<lambda>x. if x = v then reactivated v else x) (w_Workloads w)"
      using quiet_Reactivate[of w v] Cons.prems by auto
    have "map wl_Key (w_Workloads w1) = map wl_Key (w_Workloads w)" by (simp add: w1)
    moreover have "set vs \<subseteq> set (w_Workloads w1)" using Cons.prems by (auto simp: w1)
    ultimately obtain w2 where w2: "for_each vs (\<lambda>v. if P v then Reactivate v else ret ()) w1 = (Inr (), w2)"
      "same_but_workloads w1 w2"
      "w_Workloads w2 = map (\<lambda>x. if x \<in> set vs \<and> P x then reactivated x else x) (w_Workloads w1)"
      using Cons.IH[of w1] Cons.prems w1(2) by (auto simp: quiet_def same_but_workloads_def)
    have "reactivated v \<notin> set vs"
      using Cons.prems by (auto simp: distinct_map inj_on_def dest!: subsetD)
    then have "w_Workloads w2 = map (\<lambda>x. if x \<in> set (v # vs) \<and> P x then reactivated x else x) (w_Workloads w)"
      using Cons.prems(4) True by (auto simp: w2 w1)
    with w1(1) w2(1) True same_but_workloads_trans[OF w1(2) w2(2)] show ?thesis
      by (simp add: seq_def andthen_def)
  qed
qed

definition nudged :: "node \<Rightarrow> node \<Rightarrow> bool" where
  "nudged a b \<longleftrightarrow>
     b = a\<lparr>node_Annotations := node_Annotations b, node_ResourceVersion := node_ResourceVersion b\<rparr> \<and>
     (\<forall>x. x \<noteq> NudgeAnnotation \<longrightarrow> node_Annotations b x = node_Annotations a x)"

lemma nudged_refl [simp]: "nudged a a"
  by (simp add: nudged_def)

lemma nudged_merge: "nudged n (merge_node rv n (bump_nudge now n) n)"
  by (simp add: nudged_def merge_node_def merge_map_def bump_nudge_def)

lemma nudged_simps:
  assumes "nudged a b"
  shows "node_Name b = node_Name a" "node_Taints b = node_Taints a" "Owner b key = Owner a key"
    "node_Annotations b OwnerAnnotation = node_Annotations a OwnerAnnotation"
proof -
  have b: "b = a\<lparr>node_Annotations := node_Annotations b, node_ResourceVersion := node_ResourceVersion b\<rparr>"
    using assms by (simp add: nudged_def)
  show "node_Name b = node_Name a" "node_Taints b = node_Taints a"
    using arg_cong[OF b, of node_Name] arg_cong[OF b, of node_Taints] by simp_all
  show "node_Annotations b OwnerAnnotation = node_Annotations a OwnerAnnotation"
    using assms by (simp add: nudged_def)
  then show "Owner b key = Owner a key"
    using \<open>node_Taints b = node_Taints a\<close> by (rule Owner_cong[rotated])
qed

lemma nudged_nodes:
  assumes "list_all2 nudged ns ns'"
  shows "map node_Name ns' = map node_Name ns" "map (\<lambda>n. Owner n key) ns' = map (\<lambda>n. Owner n key) ns"
  using assms by (induction rule: list_all2_induct) (simp_all add: nudged_simps)

lemma quiet_NudgeKueue_run:
  assumes "quiet w" "distinct (map node_Name (w_Nodes w))"
  shows "quiet (snd (NudgeKueue nm now iv w)) \<and> w_Workloads (snd (NudgeKueue nm now iv w)) = w_Workloads w \<and>
     list_all2 nudged (w_Nodes w) (w_Nodes (snd (NudgeKueue nm now iv w)))"
proof (cases "find_node nm (w_Nodes w)")
  case None
  then show ?thesis using assms by (simp add: NudgeKueue_def run_simps quiet_reads list.rel_refl)
next
  case (Some n)
  then have n: "n \<in> set (w_Nodes w)" "node_Name n = nm" by (auto simp: find_node_def dest: find_mem)
  let ?m = "merge_node (Suc (w_Revision w)) n (bump_nudge now n) n"
  have nm: "node_Name ?m = nm" using n by (simp add: merge_node_def)
  have "nudged m (if node_Name m = node_Name ?m then ?m else m)" if "m \<in> set (w_Nodes w)" for m
  proof (cases "node_Name m = nm")
    case True
    with that n assms(2) have "m = n" by (auto simp: distinct_map inj_on_def)
    then show ?thesis using nm n by (simp add: nudged_merge)
  qed (simp add: nm)
  then have "list_all2 nudged (w_Nodes w) (w_Nodes (put_node ?m w))"
    unfolding put_node_def set_nodes_simps list_all2_map2 by (rule list.rel_refl_strong)
  then show ?thesis
    using assms(1) unfolding quiet_NudgeKueue[OF assms(1) Some]
    by (simp add: Let_def log_write_def list.rel_refl) (simp add: put_node_def)
qed

lemma slices_Min_Min: "xs \<noteq> [] \<Longrightarrow> slices_Min xs = Min (set xs)"
proof (cases xs)
  case (Cons x ys)
  have "foldl min x ys = fold min ys x" for x :: string
    by (induction ys arbitrary: x) (simp_all only: foldl.simps fold.simps comp_def min.commute id_def)
  with Cons show ?thesis by (simp only: slices_Min_def list.sel Min.set_eq_fold)
qed simp

text \<open>The nudge annotations after a nudge of the node \<open>nm\<close>.\<close>

definition nudge_mark :: "time \<Rightarrow> duration \<Rightarrow> string \<Rightarrow> node \<Rightarrow> string option" where
  "nudge_mark now iv nm n =
     (if node_Name n = nm \<and> nudge_due n now iv then Some (format_RFC3339 now) else node_Annotations n NudgeAnnotation)"

lemma quiet_nudge_marks:
  assumes "quiet w" "distinct (map node_Name (w_Nodes w))"
  shows "(if nm \<in> node_Name ` set (w_Nodes w) then \<exists>b. fst (NudgeKueue nm now iv w) = Inr b
      else fst (NudgeKueue nm now iv w) = Inl NotFound) \<and>
     map (\<lambda>n. node_Annotations n NudgeAnnotation) (w_Nodes (snd (NudgeKueue nm now iv w)))
       = map (nudge_mark now iv nm) (w_Nodes w)"
proof (cases "find_node nm (w_Nodes w)")
  case None
  then have "nm \<notin> node_Name ` set (w_Nodes w)"
    by (auto simp: find_node_def find_None_iff)
  with None assms(1) show ?thesis
    by (auto simp: NudgeKueue_def run_simps quiet_reads nudge_mark_def)
next
  case (Some n)
  then have n: "n \<in> set (w_Nodes w)" "node_Name n = nm" by (auto simp: find_node_def dest: find_mem)
  have only: "m = n" if "m \<in> set (w_Nodes w)" "node_Name m = nm" for m
    using that n assms(2) by (auto simp: distinct_map inj_on_def)
  let ?m = "merge_node (Suc (w_Revision w)) n (bump_nudge now n) n"
  have m: "node_Name ?m = nm" "node_Annotations ?m NudgeAnnotation = Some (format_RFC3339 now)"
    using n by (auto simp: merge_node_def merge_map_def bump_nudge_def)
  have there: "nm \<in> node_Name ` set (w_Nodes w)" using n by blast
  show ?thesis
  proof (cases "nudge_due n now iv")
    case True
    then have run: "NudgeKueue nm now iv w = (Inr True, log_write (NodePatched n n ?m) (put_node ?m w))"
      unfolding quiet_NudgeKueue[OF assms(1) Some] Let_def by simp
    have "node_Annotations (if node_Name a = nm then ?m else a) NudgeAnnotation = nudge_mark now iv nm a"
      if "a \<in> set (w_Nodes w)" for a
      using only[OF that] m(2) True n(2) by (auto simp: nudge_mark_def)
    then show ?thesis
      using there m(1) unfolding run by (simp add: log_write_def put_node_def set_nodes_def) blast
  next
    case False
    then have run: "NudgeKueue nm now iv w = (Inr False, w)"
      unfolding quiet_NudgeKueue[OF assms(1) Some] by simp
    have "nudge_mark now iv nm a = node_Annotations a NudgeAnnotation" if "a \<in> set (w_Nodes w)" for a
      using only[OF that] False by (auto simp: nudge_mark_def)
    then show ?thesis using there unfolding run by simp blast
  qed
qed

lemma quiet_nudgeWhilePending:
  assumes "quiet w" "distinct (map node_Name (w_Nodes w))"
  shows "quiet (snd (nudgeWhilePending cfg wl ns w))"
    "w_Workloads (snd (nudgeWhilePending cfg wl ns w)) = w_Workloads w"
    "list_all2 nudged (w_Nodes w) (w_Nodes (snd (nudgeWhilePending cfg wl ns w)))"
  using quiet_NudgeKueue_run[OF assms, of "slices_Min ns" "w_Now w" "cfg_NudgeInterval cfg"] assms
  by (auto simp: nudgeWhilePending_def run_simps list.rel_refl split: prod.split sum.split)

text \<open>What a victim pass for the hero \<open>wl\<close> leaves of a workload \<open>v\<close>.\<close>

definition cycled :: "Config \<Rightarrow> world \<Rightarrow> namespaced_name \<Rightarrow> string list \<Rightarrow> workload \<Rightarrow> workload" where
  "cycled cfg w hero ns v =
     hand_back_evicted (OwnerRef hero) (suspend_all cfg (OwnerRef hero) {k. k \<noteq> hero \<and> lives_on w ns k} v)"

text \<open>A victim other than the hero, and not hero-classed, still has a live pod on the nodes.\<close>

definition occupied :: "Config \<Rightarrow> world \<Rightarrow> namespaced_name \<Rightarrow> string list \<Rightarrow> bool" where
  "occupied cfg w hero ns \<longleftrightarrow>
     (\<exists>v \<in> set (w_Workloads w). wl_Key v \<noteq> hero \<and> lives_on w ns (wl_Key v) \<and> \<not> hero_classed cfg v)"

lemma quiet_cycleVictims_run:
  assumes "quiet w" "distinct (map wl_Key (w_Workloads w))"
  shows "\<exists>w3. cycleVictims cfg wl ns w = (if occupied cfg w (wl_Key wl) ns then ret (requeue_after requeueVictimCycling)
       else nudgeWhilePending cfg wl ns) w3 \<and>
     quiet w3 \<and> w_Nodes w3 = w_Nodes w \<and> w_Now w3 = w_Now w \<and> w_Pods w3 = w_Pods w \<and>
     w_Workloads w3 = map (cycled cfg w (wl_Key wl) ns) (w_Workloads w)"
proof -
  let ?ref = "OwnerRef (wl_Key wl)"
  let ?K = "{k. k \<noteq> wl_Key wl \<and> lives_on w ns k}"
  obtain occ where occ: "victimWorkloadsOn ns wl w = (Inr occ, w)" "set occ = ?K"
    using quiet_victimWorkloadsOn[OF assms(1)] by blast
  obtain p n w1 where w1: "loop_over occ (0, 0) (cycle_occupant cfg wl ?ref) w = (Inr (p, n), w1)"
    "same_but_workloads w w1" "w_Workloads w1 = map (suspend_all cfg ?ref ?K) (w_Workloads w)"
    "p = int (length (filter (held cfg (w_Workloads w)) occ))"
    using quiet_cycle_loop[OF assms(1,2), of occ "(0, 0)" cfg wl ?ref] occ(2) by auto
  have "0 < p \<longleftrightarrow> (\<exists>key \<in> ?K. held cfg (w_Workloads w) key)"
    unfolding w1(4) occ(2)[symmetric] by (simp add: filter_empty_conv)
  then have p: "0 < p \<longleftrightarrow> occupied cfg w (wl_Key wl) ns"
    by (auto simp: held_def occupied_def)
  define w2 where "w2 = snd ((if 0 < n then emit (wl_Key wl) EventTypeNormal EventVictimsSuspended [ArgInt n]
      else ret ()) w1)"
  have w2: "same_but_workloads w w2" "w_Workloads w2 = w_Workloads w1"
    using w1(2) by (simp_all add: w2_def emit_def ret_def same_but_workloads_def)
  have q2: "quiet w2" "distinct (map wl_Key (w_Workloads w2))"
    using assms w2 by (simp_all add: quiet_def same_but_workloads_def w1(3) comp_def)
  then have d2: "distinct (w_Workloads w2)" by (simp add: distinct_map)
  let ?ours = "filter (\<lambda>v. wl_Annotations v DeactivatedForAnnotation = Some ?ref) (w_Workloads w2)"
  obtain w3 where w3: "for_each ?ours (\<lambda>v. if deactivated v \<and> evictedByDeactivation v then Reactivate v
      else ret ()) w2 = (Inr (), w3)" "same_but_workloads w2 w3"
    "w_Workloads w3 = map (\<lambda>x. if x \<in> set ?ours \<and> deactivated x \<and> evictedByDeactivation x
       then reactivated x else x) (w_Workloads w2)"
    using quiet_reactivate_loop[OF q2, of ?ours "\<lambda>v. deactivated v \<and> evictedByDeactivation v"] d2
    by auto
  have "w_Workloads w3 = map (hand_back_evicted ?ref) (w_Workloads w2)"
    by (auto simp: w3(3) hand_back_evicted_def)
  then have wls: "w_Workloads w3 = map (cycled cfg w (wl_Key wl) ns) (w_Workloads w)"
    by (simp add: w2(2) w1(3) cycled_def comp_def)
  have q3: "quiet w3" "w_Nodes w3 = w_Nodes w" "w_Now w3 = w_Now w" "w_Pods w3 = w_Pods w"
    using q2(1) w2(1) w3(2) by (simp_all add: quiet_def same_but_workloads_def)
  have ref: "Namespace (wl_Key wl) @ ''/'' @ Name (wl_Key wl) = ?ref" by (simp add: OwnerRef_def)
  have ev: "(if 0 < n then emit (wl_Key wl) EventTypeNormal EventVictimsSuspended [ArgInt n] else ret ()) w1
      = (Inr (), w2)"
    by (simp add: w2_def emit_def ret_def)
  have ours: "list_workloads (MatchingFields WorkloadDeactivatedFor ?ref) w2 = (Inr ?ours, w2)"
    by (simp add: quiet_reads q2(1))
  have "cycleVictims cfg wl ns w
      = (if 0 < p then ret (requeue_after requeueVictimCycling) else nudgeWhilePending cfg wl ns) w3"
    unfolding cycleVictims_def Let_def ref
    by (simp only: seq_def andthen_def occ(1) w1(1) ev ours w3(1) prod.case sum.case)
  with p q3 wls show ?thesis by auto
qed

lemma quiet_nudge_pods:
  assumes "quiet w"
  shows "w_Pods (snd (NudgeKueue nm now iv w)) = w_Pods w"
proof (cases "find_node nm (w_Nodes w)")
  case None
  with assms show ?thesis by (simp add: NudgeKueue_def run_simps quiet_reads)
next
  case (Some n)
  then show ?thesis
    by (simp add: quiet_NudgeKueue[OF assms] Let_def log_write_def put_node_def set_nodes_def remember_def)
qed

lemma quiet_cycleVictims_pods:
  assumes "quiet w" "distinct (map wl_Key (w_Workloads w))"
  shows "w_Pods (snd (cycleVictims cfg wl ns w)) = w_Pods w"
proof -
  obtain w3 where w3: "cycleVictims cfg wl ns w = (if occupied cfg w (wl_Key wl) ns
      then ret (requeue_after requeueVictimCycling) else nudgeWhilePending cfg wl ns) w3" "quiet w3" "w_Pods w3 = w_Pods w"
    using quiet_cycleVictims_run[OF assms] by metis
  from quiet_nudge_pods[OF w3(2), of "slices_Min ns" "w_Now w3" "cfg_NudgeInterval cfg"] w3(3) show ?thesis
    by (auto simp: w3(1) nudgeWhilePending_def run_simps split: prod.split sum.split)
qed

lemma quiet_cycleVictims:
  assumes "quiet w" "distinct (map wl_Key (w_Workloads w))" "distinct (map node_Name (w_Nodes w))"
  shows "w_Workloads (snd (cycleVictims cfg wl ns w)) = map (cycled cfg w (wl_Key wl) ns) (w_Workloads w) \<and>
     list_all2 nudged (w_Nodes w) (w_Nodes (snd (cycleVictims cfg wl ns w))) \<and>
     quiet (snd (cycleVictims cfg wl ns w))"
proof -
  obtain w3 where w3: "cycleVictims cfg wl ns w = (if occupied cfg w (wl_Key wl) ns
      then ret (requeue_after requeueVictimCycling) else nudgeWhilePending cfg wl ns) w3"
    "quiet w3" "w_Nodes w3 = w_Nodes w" "w_Workloads w3 = map (cycled cfg w (wl_Key wl) ns) (w_Workloads w)"
    using quiet_cycleVictims_run[OF assms(1,2)] by metis
  with quiet_nudgeWhilePending[OF w3(2), of cfg wl ns] assms(3) show ?thesis
    by (simp add: ret_def list.rel_refl)
qed

lemma quiet_cycleVictims_result:
  assumes "quiet w" "distinct (map wl_Key (w_Workloads w))" "distinct (map node_Name (w_Nodes w))"
  shows "fst (cycleVictims cfg wl ns w) =
     (if occupied cfg w (wl_Key wl) ns then Inr (requeue_after requeueVictimCycling)
      else if wl_Admission wl \<noteq> None \<or> ns = [] then Inr no_requeue
      else if Min (set ns) \<in> node_Name ` set (w_Nodes w) then Inr (requeue_after (cfg_NudgeInterval cfg))
      else Inl NotFound)"
    and "map (\<lambda>n. node_Annotations n NudgeAnnotation) (w_Nodes (snd (cycleVictims cfg wl ns w))) =
     (if occupied cfg w (wl_Key wl) ns \<or> wl_Admission wl \<noteq> None \<or> ns = []
      then map (\<lambda>n. node_Annotations n NudgeAnnotation) (w_Nodes w)
      else map (nudge_mark (w_Now w) (cfg_NudgeInterval cfg) (Min (set ns))) (w_Nodes w))"
proof -
  obtain w3 where w3: "cycleVictims cfg wl ns w = (if occupied cfg w (wl_Key wl) ns
      then ret (requeue_after requeueVictimCycling) else nudgeWhilePending cfg wl ns) w3"
    "quiet w3" "w_Nodes w3 = w_Nodes w" "w_Now w3 = w_Now w"
    using quiet_cycleVictims_run[OF assms(1,2)] by metis
  have d: "distinct (map node_Name (w_Nodes w3))" using assms(3) w3(3) by simp
  note marks = quiet_nudge_marks[OF w3(2) d, of "Min (set ns)" "w_Now w" "cfg_NudgeInterval cfg", unfolded w3(3)]
  show "fst (cycleVictims cfg wl ns w) =
     (if occupied cfg w (wl_Key wl) ns then Inr (requeue_after requeueVictimCycling)
      else if wl_Admission wl \<noteq> None \<or> ns = [] then Inr no_requeue
      else if Min (set ns) \<in> node_Name ` set (w_Nodes w) then Inr (requeue_after (cfg_NudgeInterval cfg))
      else Inl NotFound)"
    using marks
    by (auto simp: w3(1,4) nudgeWhilePending_def run_simps slices_Min_Min split: prod.split sum.split if_splits)
  show "map (\<lambda>n. node_Annotations n NudgeAnnotation) (w_Nodes (snd (cycleVictims cfg wl ns w))) =
     (if occupied cfg w (wl_Key wl) ns \<or> wl_Admission wl \<noteq> None \<or> ns = []
      then map (\<lambda>n. node_Annotations n NudgeAnnotation) (w_Nodes w)
      else map (nudge_mark (w_Now w) (cfg_NudgeInterval cfg) (Min (set ns))) (w_Nodes w))"
    using marks
    by (auto simp: w3(1,3,4) nudgeWhilePending_def run_simps slices_Min_Min split: prod.split sum.split if_splits)
qed

subsection \<open>Tainting the nodes of a plan\<close>

definition drain_marked :: "string \<Rightarrow> namespaced_name \<Rightarrow> node \<Rightarrow> bool" where
  "drain_marked key k n \<longleftrightarrow>
     (\<exists>t \<in> set (node_Taints n). taint_Key t = key) \<and> mget (node_Annotations n) OwnerAnnotation = owner_ref k"

definition tainted_for :: "string \<Rightarrow> namespaced_name \<Rightarrow> string \<Rightarrow> world \<Rightarrow> bool" where
  "tainted_for key k nm w \<longleftrightarrow> (\<exists>n \<in> set (w_Nodes w). node_Name n = nm \<and> drain_marked key k n)"

text \<open>A node \<open>k\<close> may taint: it is there, and free of the key or already marked for \<open>k\<close>.\<close>

definition claimable :: "string \<Rightarrow> namespaced_name \<Rightarrow> string \<Rightarrow> world \<Rightarrow> bool" where
  "claimable key k nm w \<longleftrightarrow>
     (\<exists>n \<in> set (w_Nodes w). node_Name n = nm \<and>
        ((\<forall>t \<in> set (node_Taints n). taint_Key t \<noteq> key) \<or> mget (node_Annotations n) OwnerAnnotation = owner_ref k))"

lemma tainted_claimable: "tainted_for key k nm w \<Longrightarrow> claimable key k nm w"
  by (auto simp: tainted_for_def claimable_def drain_marked_def)

lemma drain_marked_add: "drain_marked key k (persist_node rv n (add_drain_taint key k cq now n))"
  by (auto simp: drain_marked_def persist_node_def add_drain_taint_def drain_taint_def mget_def Let_def
      split: option.split)

lemma quiet_taint_node:
  assumes "quiet w" "distinct (map node_Name (w_Nodes w))" "length (cq_Name cq) \<le> maxTaintValueLen"
  shows "same_but_nodes w (snd (taint_node L cfg req cq nm w)) \<and>
     map node_Name (w_Nodes (snd (taint_node L cfg req cq nm w))) = map node_Name (w_Nodes w) \<and>
     (\<forall>nm'. tainted_for (cfg_TaintKey cfg) req nm' w \<longrightarrow>
        tainted_for (cfg_TaintKey cfg) req nm' (snd (taint_node L cfg req cq nm w))) \<and>
     (fst (taint_node L cfg req cq nm w) = Inr () \<longrightarrow>
        tainted_for (cfg_TaintKey cfg) req nm (snd (taint_node L cfg req cq nm w))) \<and>
     (if claimable (cfg_TaintKey cfg) req nm w then fst (taint_node L cfg req cq nm w) = Inr ()
      else \<exists>e. fst (taint_node L cfg req cq nm w) = Inl (TaintingFailed nm e)) \<and>
     (\<forall>nm'. claimable (cfg_TaintKey cfg) req nm' (snd (taint_node L cfg req cq nm w))
        = claimable (cfg_TaintKey cfg) req nm' w)"
proof -
  let ?key = "cfg_TaintKey cfg"
  let ?E = "EnsureTaint L nm ?key req (cq_Name cq) (w_Now w)"
  have run: "taint_node L cfg req cq nm w
      = (case ?E w of (Inl e, w') \<Rightarrow> (Inl (TaintingFailed nm e), w') | (Inr _, w') \<Rightarrow> (Inr (), w'))"
    by (simp add: taint_node_def run_simps split: prod.split sum.split)
  show ?thesis
  proof (cases "find_node nm (w_Nodes w)")
    case None
    have "?E w = (Inl NotFound, w)"
      unfolding EnsureTaint_def using assms(1,3) None
      by simp (rule quiet_retry; simp add: quiet_simps)
    moreover have "\<not> claimable ?key req nm w"
      using None by (auto simp: claimable_def find_node_def find_None_iff)
    ultimately show ?thesis by (simp add: run)
  next
    case (Some n)
    then have n: "n \<in> set (w_Nodes w)" "node_Name n = nm" by (auto simp: find_node_def dest: find_mem)
    have claim: "claimable ?key req nm w \<longleftrightarrow> (\<forall>t \<in> set (node_Taints n). taint_Key t \<noteq> ?key) \<or>
        mget (node_Annotations n) OwnerAnnotation = owner_ref req"
      using n assms(2) by (auto simp: claimable_def distinct_map inj_on_def)
    show ?thesis
    proof (cases "\<exists>t \<in> set (node_Taints n). taint_Key t = ?key")
      case True
      then have "tainted_for ?key req nm w" if "mget (node_Annotations n) OwnerAnnotation = owner_ref req"
        using that n by (auto simp: tainted_for_def drain_marked_def)
      with quiet_EnsureTaint_owned[OF assms(1) Some assms(3) True, of L req "w_Now w"]
      show ?thesis using True by (auto simp: run claim)
    next
      case False
      let ?new = "persist_node (Suc (w_Revision w)) n (add_drain_taint ?key req (cq_Name cq) (w_Now w) n)"
      have E: "?E w = (Inr (), log_write (NodeUpdated n ?new) (put_node ?new w))"
        using quiet_EnsureTaint[OF assms(1) Some assms(3)] False by (simp add: Let_def)
      have nodes: "w_Nodes (put_node ?new w) = map (\<lambda>m. if node_Name m = nm then ?new else m) (w_Nodes w)"
        using n by (simp add: put_node_def persist_node_def)
      have "node_Name ?new = nm" using n by (simp add: persist_node_def)
      have new: "tainted_for ?key req nm (put_node ?new w)"
        unfolding tainted_for_def nodes
        using n \<open>node_Name ?new = nm\<close> drain_marked_add by (intro bexI[of _ ?new]) force+
      have "tainted_for ?key req nm' (put_node ?new w)" if "tainted_for ?key req nm' w" for nm'
      proof (cases "nm' = nm")
        case False
        with that show ?thesis unfolding tainted_for_def nodes set_map by force
      qed (simp add: new)
      with new have "tainted_for ?key req nm' (put_node ?new w)" if "nm' = nm \<or> tainted_for ?key req nm' w" for nm'
        using that by blast
      moreover have "map node_Name (w_Nodes (put_node ?new w)) = map node_Name (w_Nodes w)"
        using \<open>node_Name ?new = nm\<close> by (auto simp: nodes)
      moreover have "claimable ?key req nm' (put_node ?new w) = claimable ?key req nm' w" for nm'
      proof (cases "nm' = nm")
        case True
        with tainted_claimable[OF new] claim False show ?thesis by blast
      next
        case False
        then show ?thesis using \<open>node_Name ?new = nm\<close> unfolding claimable_def nodes set_map by force
      qed
      ultimately show ?thesis
        using claim False by (simp add: run E tainted_for_def claimable_def log_write_def same_but_nodes_def put_node_def)
    qed
  qed
qed

text \<open>Tainting stops at the first node that cannot be claimed, with the nodes before it tainted.\<close>

definition stops_at_unclaimable :: "string \<Rightarrow> namespaced_name \<Rightarrow> world \<Rightarrow> string list \<Rightarrow> error + 'a \<Rightarrow> world \<Rightarrow> bool" where
  "stops_at_unclaimable key k w nms r w' \<longleftrightarrow>
     (\<exists>before nm rest e. nms = before @ nm # rest \<and> \<not> claimable key k nm w \<and> r = Inl (TaintingFailed nm e) \<and>
        (\<forall>m \<in> set before. claimable key k m w \<and> tainted_for key k m w'))"

lemma stops_Inr [simp]: "\<not> stops_at_unclaimable key k w nms (Inr u) w'"
  by (simp add: stops_at_unclaimable_def)

lemma stops_here: "\<not> claimable key k nm w \<Longrightarrow> stops_at_unclaimable key k w (nm # nms) (Inl (TaintingFailed nm e)) w'"
  unfolding stops_at_unclaimable_def by (rule exI[of _ "[]"]) simp

lemma stops_later:
  assumes "claimable key k nm w" "tainted_for key k nm w'" "\<And>m. claimable key k m w1 = claimable key k m w"
    and "stops_at_unclaimable key k w1 nms r w'"
  shows "stops_at_unclaimable key k w (nm # nms) r w'"
proof -
  obtain before m rest e where "nms = before @ m # rest" "\<not> claimable key k m w" "r = Inl (TaintingFailed m e)"
    "\<forall>m \<in> set before. claimable key k m w \<and> tainted_for key k m w'"
    using assms(3,4) unfolding stops_at_unclaimable_def by blast
  with assms(1,2) show ?thesis
    unfolding stops_at_unclaimable_def by (intro exI[of _ "nm # before"] exI) auto
qed

lemma quiet_taint_loop:
  assumes "quiet w" "distinct (map node_Name (w_Nodes w))" "length (cq_Name cq) \<le> maxTaintValueLen"
  shows "\<exists>r w'. for_each nms (taint_node L cfg req cq) w = (r, w') \<and> same_but_nodes w w' \<and>
     map node_Name (w_Nodes w') = map node_Name (w_Nodes w) \<and>
     (\<forall>nm'. tainted_for (cfg_TaintKey cfg) req nm' w \<longrightarrow> tainted_for (cfg_TaintKey cfg) req nm' w') \<and>
     (r = Inr () \<longrightarrow> (\<forall>nm \<in> set nms. tainted_for (cfg_TaintKey cfg) req nm w')) \<and>
     (if \<forall>nm \<in> set nms. claimable (cfg_TaintKey cfg) req nm w then r = Inr ()
      else stops_at_unclaimable (cfg_TaintKey cfg) req w nms r w')"
  using assms
proof (induction nms arbitrary: w)
  case Nil
  then show ?case by (simp add: ret_def)
next
  case (Cons nm nms)
  let ?key = "cfg_TaintKey cfg"
  obtain r1 w1 where w1: "taint_node L cfg req cq nm w = (r1, w1)" by fastforce
  note step = quiet_taint_node[OF Cons.prems, of L cfg req nm, unfolded w1 fst_conv snd_conv]
  show ?case
  proof (cases r1)
    case (Inl e)
    with step obtain e' where bad: "\<not> claimable ?key req nm w" "r1 = Inl (TaintingFailed nm e')"
      by (auto split: if_splits)
    then have "for_each (nm # nms) (taint_node L cfg req cq) w = (Inl (TaintingFailed nm e'), w1)"
      using w1 by (simp add: seq_def andthen_def)
    with step bad(1) stops_here[OF bad(1)] show ?thesis
      by (intro exI[of _ "Inl (TaintingFailed nm e')"] exI[of _ w1]) simp
  next
    case (Inr u)
    with step have claim: "claimable ?key req nm w" "\<And>nm'. claimable ?key req nm' w1 = claimable ?key req nm' w"
      by (auto split: if_splits)
    have "quiet w1" "distinct (map node_Name (w_Nodes w1))"
      using Cons.prems step by (simp_all add: quiet_def same_but_nodes_def)
    from Cons.IH[OF this Cons.prems(3)] obtain r2 w2 where w2:
      "for_each nms (taint_node L cfg req cq) w1 = (r2, w2)" "same_but_nodes w1 w2"
      "map node_Name (w_Nodes w2) = map node_Name (w_Nodes w1)"
      "\<forall>nm'. tainted_for ?key req nm' w1 \<longrightarrow> tainted_for ?key req nm' w2"
      "r2 = Inr () \<longrightarrow> (\<forall>nm \<in> set nms. tainted_for ?key req nm w2)"
      "if \<forall>nm \<in> set nms. claimable ?key req nm w1 then r2 = Inr ()
       else stops_at_unclaimable ?key req w1 nms r2 w2" by blast
    have "for_each (nm # nms) (taint_node L cfg req cq) w = (r2, w2)"
      using w1 w2(1) Inr by (simp add: seq_def andthen_def)
    moreover have "same_but_nodes w w2" using step w2(2) same_but_nodes_trans by blast
    moreover have "r2 = Inr () \<longrightarrow> (\<forall>nm' \<in> set (nm # nms). tainted_for ?key req nm' w2)"
      using step w2(4,5) Inr by simp
    moreover have "if \<forall>nm' \<in> set (nm # nms). claimable ?key req nm' w then r2 = Inr ()
        else stops_at_unclaimable ?key req w (nm # nms) r2 w2"
      using w2(4,6) claim step Inr stops_later[OF claim(1) _ claim(2), of w2 nms r2] by (simp split: if_splits)
    ultimately show ?thesis using step w2(3,4) by (intro exI[of _ r2] exI[of _ w2]) simp
  qed
qed

lemma cycled_pods: "w_Pods w' = w_Pods w \<Longrightarrow> cycled cfg w' k ns = cycled cfg w k ns"
  by (intro ext) (simp add: cycled_def lives_on_def)

lemma tainted_for_nudged:
  assumes "list_all2 nudged (w_Nodes w) (w_Nodes w')" "tainted_for key k nm w"
  shows "tainted_for key k nm w'"
proof -
  from assms(2) obtain n where n: "n \<in> set (w_Nodes w)" "node_Name n = nm" "drain_marked key k n"
    by (auto simp: tainted_for_def)
  with assms(1) obtain n' where n': "n' \<in> set (w_Nodes w')" "nudged n n'"
    by (metis in_set_conv_nth list_all2_conv_all_nth)
  have "drain_marked key k n'"
    using n(3) nudged_simps[OF n'(2)] by (simp add: drain_marked_def mget_def)
  with n n' nudged_simps[OF n'(2)] show ?thesis by (auto simp: tainted_for_def)
qed

lemma quiet_execute_plan:
  assumes "quiet w" "distinct (map wl_Key (w_Workloads w))" "distinct (map node_Name (w_Nodes w))"
    and "length (cq_Name cq) \<le> maxTaintValueLen" "\<not> cfg_DryRun cfg"
  shows "let (r, w') = execute_plan L cfg req wl cq own plan w in
     if \<forall>nm \<in> set (dp_Nodes plan). claimable (cfg_TaintKey cfg) req nm w
     then w_Workloads w' = map (cycled cfg w (wl_Key wl) (dp_Nodes plan)) (w_Workloads w) \<and>
       (\<forall>nm \<in> set (dp_Nodes plan). tainted_for (cfg_TaintKey cfg) req nm w')
     else w_Workloads w' = w_Workloads w \<and> stops_at_unclaimable (cfg_TaintKey cfg) req w (dp_Nodes plan) r w'"
proof -
  obtain r1 w1 where w1: "for_each (dp_Nodes plan) (taint_node L cfg req cq) w = (r1, w1)"
    "same_but_nodes w w1" "map node_Name (w_Nodes w1) = map node_Name (w_Nodes w)"
    "r1 = Inr () \<longrightarrow> (\<forall>nm \<in> set (dp_Nodes plan). tainted_for (cfg_TaintKey cfg) req nm w1)"
    "if \<forall>nm \<in> set (dp_Nodes plan). claimable (cfg_TaintKey cfg) req nm w then r1 = Inr ()
     else stops_at_unclaimable (cfg_TaintKey cfg) req w (dp_Nodes plan) r1 w1"
    using quiet_taint_loop[OF assms(1,3,4)] by blast
  show ?thesis
  proof (cases r1)
    case (Inl e)
    then have "execute_plan L cfg req wl cq own plan w = (Inl e, w1)"
      using assms(5) w1(1) by (simp add: execute_plan_def seq_def andthen_def)
    with w1(2,5) Inl show ?thesis by (auto simp: same_but_nodes_def stops_at_unclaimable_def split: if_splits)
  next
    case (Inr u)
    then have all: "\<forall>nm \<in> set (dp_Nodes plan). claimable (cfg_TaintKey cfg) req nm w"
      using w1(5) by (auto split: if_splits)
    define w2 where "w2 = snd (seq (if own = None then count_metric inc_started else ret ())
       (emit (wl_Key wl) EventTypeNormal EventDomainsTainted
          [ArgStrings (dp_DomainIDs plan), ArgInt (int (length (dp_Nodes plan))), ArgInt (int (length (dp_Victims plan)))]) w1)"
    have run: "execute_plan L cfg req wl cq own plan w = cycleVictims cfg wl (dp_Nodes plan) w2"
      using assms(5) w1(1) Inr
      by (simp add: execute_plan_def seq_def andthen_def w2_def emit_def count_metric_def ret_def)
    have w2: "quiet w2" "w_Nodes w2 = w_Nodes w1" "w_Workloads w2 = w_Workloads w" "w_Pods w2 = w_Pods w"
      using assms(1) w1(2)
      by (simp_all add: w2_def seq_def andthen_def emit_def count_metric_def ret_def quiet_def same_but_nodes_def)
    have "distinct (map node_Name (w_Nodes w2))" "distinct (map wl_Key (w_Workloads w2))"
      using assms(2,3) w1(3) w2 by simp_all
    from quiet_cycleVictims[OF w2(1) this(2,1), of cfg wl "dp_Nodes plan"]
    have "w_Workloads (snd (cycleVictims cfg wl (dp_Nodes plan) w2))
        = map (cycled cfg w (wl_Key wl) (dp_Nodes plan)) (w_Workloads w)"
      "list_all2 nudged (w_Nodes w2) (w_Nodes (snd (cycleVictims cfg wl (dp_Nodes plan) w2)))"
      using w2(3) cycled_pods[OF w2(4)] by simp_all
    moreover have "tainted_for (cfg_TaintKey cfg) req nm w2" if "nm \<in> set (dp_Nodes plan)" for nm
      using w1(4) Inr that w2(2) by (simp add: tainted_for_def)
    ultimately show ?thesis
      using tainted_for_nudged all by (simp add: run case_prod_beta)
  qed
qed

end
