(* ===== verification/Decision.thy ===== *)
theory Decision
  imports Victim_Runs
begin

text \<open>
  The specification of the drain controller: from the cluster alone, \<open>decide\<close> says which of the
  handler's outcomes is due, \<open>perform\<close> says what each outcome does. In an undisturbed cluster
  \<open>Reconcile\<close> performs exactly its decision, so the gates of a drain can be read off \<open>decide\<close>.
\<close>

datatype hero_decision =
    NotStuck
  | Cycle Drain
  | OverQuota "Drain option"
  | Queued Drain
  | NotNext
  | NoLevel
  | Panicked
  | Infeasible InfeasibleReason "Drain option" string
  | Planned DrainPlan "Drain option"

datatype decision =
    Ignored
  | FinishVictim string
  | Unwind Drain NotHeroReason
  | Served cluster_queue nat hero_decision

definition snapshot_in :: "kueue_lib \<Rightarrow> Config \<Rightarrow> world \<Rightarrow> namespaced_name \<Rightarrow> string \<Rightarrow> string \<Rightarrow> Snapshot option" where
  "snapshot_in L cfg w req level groupingLevel =
     Build L \<lparr>in_Level = level, in_GroupLevel = groupingLevel, in_Nodes = w_Nodes w, in_Pods = w_Pods w,
              in_OtherHeroes = other_heroes cfg w req, in_Self = req, in_Cfg = cfg\<rparr>"

definition decide_plan :: "kueue_lib \<Rightarrow> Config \<Rightarrow> world \<Rightarrow> namespaced_name \<Rightarrow> workload \<Rightarrow> cluster_queue
    \<Rightarrow> Drain option \<Rightarrow> hero_decision" where
  "decide_plan L cfg w req wl cq own =
     (case levels_in w wl cq of
        None \<Rightarrow> NoLevel
      | Some (level, groupingLevel) \<Rightarrow>
          (case snapshot_in L cfg w req level groupingLevel of
             None \<Rightarrow> Panicked
           | Some snap \<Rightarrow>
               (case SelectDomains snap (hero_spec cfg req wl cq) (workload_map (w_Workloads w)) cfg (w_Now w) of
                  Inl reason \<Rightarrow> Infeasible reason own level
                | Inr plan \<Rightarrow> Planned plan own)))"

definition decide_hero :: "kueue_lib \<Rightarrow> Config \<Rightarrow> world \<Rightarrow> namespaced_name \<Rightarrow> workload \<Rightarrow> cluster_queue
    \<Rightarrow> hero_decision" where
  "decide_hero L cfg w req wl cq =
     (let own = map_of (drains_in cfg w) req in
      if \<not> IsStuckTASNoFit wl (cfg_StuckDetection cfg) then (case own of None \<Rightarrow> NotStuck | Some d \<Rightarrow> Cycle d)
      else if gpuNominalQuota cq (cfg_GPUResourceName cfg) < GPURequest wl (cfg_GPUResourceName cfg) then OverQuota own
      else case BlockingDrain (drains_in cfg w) req of
             Some blocking \<Rightarrow> Queued blocking
           | None \<Rightarrow>
               if own = None \<and> \<not> next_in_line L (stuck_heroes cfg w) wl then NotNext
               else decide_plan L cfg w req wl cq own)"

definition decide :: "kueue_lib \<Rightarrow> Config \<Rightarrow> world \<Rightarrow> namespaced_name \<Rightarrow> workload \<Rightarrow> decision" where
  "decide L cfg w req wl =
     (case wl_Annotations wl DeactivatedForAnnotation of
        Some ownerRef \<Rightarrow> FinishVictim ownerRef
      | None \<Rightarrow>
          if deactivated wl then Ignored
          else case cq_of w wl of
                 Some cq \<Rightarrow>
                   if is_hero_in cfg w wl
                   then Served cq (length (drains_in cfg w)) (decide_hero L cfg w req wl cq)
                   else (case map_of (drains_in cfg w) (wl_Key wl) of
                           None \<Rightarrow> Ignored | Some d \<Rightarrow> Unwind d (IsHero wl (cq_of w wl) cfg))
               | None \<Rightarrow>
                   (case map_of (drains_in cfg w) (wl_Key wl) of
                      None \<Rightarrow> Ignored | Some d \<Rightarrow> Unwind d (IsHero wl (cq_of w wl) cfg)))"

fun perform_hero :: "kueue_lib \<Rightarrow> Config \<Rightarrow> namespaced_name \<Rightarrow> workload \<Rightarrow> cluster_queue \<Rightarrow> hero_decision
    \<Rightarrow> Result api" where
  "perform_hero L cfg req wl cq NotStuck = ret no_requeue"
| "perform_hero L cfg req wl cq (Cycle d) = cycleVictims cfg wl (drain_Nodes d)"
| "perform_hero L cfg req wl cq (OverQuota own) =
     seq (emit (wl_Key wl) EventTypeWarning EventHeroExceedsQuota
           [ArgQuantity (GPURequest wl (cfg_GPUResourceName cfg)), ArgString (cfg_GPUResourceName cfg),
            ArgString (cq_Name cq), ArgQuantity (gpuNominalQuota cq (cfg_GPUResourceName cfg))])
       (case own of Some d \<Rightarrow> abortDrain L cfg wl d ''hero exceeds nominal quota'' | None \<Rightarrow> ret no_requeue)"
| "perform_hero L cfg req wl cq (Queued blocking) =
     seq (reportDrainQueued wl blocking) (ret (requeue_after requeueWhileQueued))"
| "perform_hero L cfg req wl cq NotNext = ret (requeue_after requeueWhileQueued)"
| "perform_hero L cfg req wl cq NoLevel = andthen (drainLevel wl cq) (\<lambda>_. ret no_requeue)"
| "perform_hero L cfg req wl cq Panicked = fail RuntimePanic"
| "perform_hero L cfg req wl cq (Infeasible reason own level) =
     seq (count_metric (inc_selection (selectionOutcomeLabel (Inl reason))))
       (case own of
          Some d \<Rightarrow> abortDrain L cfg wl d (infeasible_text reason)
        | None \<Rightarrow> (case infeasibleResponse reason of (ty, eventReason, res) \<Rightarrow>
            seq (emit (wl_Key wl) ty eventReason [ArgString level]) (ret res)))"
| "perform_hero L cfg req wl cq (Planned plan own) =
     seq (count_metric (inc_selection SelectionPlanned)) (execute_plan L cfg req wl cq own plan)"

fun perform :: "kueue_lib \<Rightarrow> Config \<Rightarrow> namespaced_name \<Rightarrow> workload \<Rightarrow> decision \<Rightarrow> Result api" where
  "perform L cfg req wl Ignored = ret no_requeue"
| "perform L cfg req wl (FinishVictim ownerRef) = reconcileVictimEvent wl ownerRef"
| "perform L cfg req wl (Unwind d reason) =
     abortDrain L cfg wl d (''workload is no longer a hero: '' @ reason_text reason)"
| "perform L cfg req wl (Served cq n d) =
     seq (count_metric (set_in_flight n)) (perform_hero L cfg req wl cq d)"

subsection \<open>The handler performs its decision\<close>

lemma metrics_invariant [simp]:
  "cq_of (w\<lparr>w_Metrics := m\<rparr>) = cq_of w" "is_hero_in cfg (w\<lparr>w_Metrics := m\<rparr>) = is_hero_in cfg w"
  "stuck_heroes cfg (w\<lparr>w_Metrics := m\<rparr>) = stuck_heroes cfg w"
  "other_heroes cfg (w\<lparr>w_Metrics := m\<rparr>) = other_heroes cfg w"
  "drains_in cfg (w\<lparr>w_Metrics := m\<rparr>) = drains_in cfg w"
  "levels_in (w\<lparr>w_Metrics := m\<rparr>) = levels_in w"
  "snapshot_in L cfg (w\<lparr>w_Metrics := m\<rparr>) = snapshot_in L cfg w"
proof -
  show cq: "cq_of (w\<lparr>w_Metrics := m\<rparr>) = cq_of w"
    by (intro ext) (simp add: cq_of_def cq_name_of_def cong: option.case_cong)
  show h: "is_hero_in cfg (w\<lparr>w_Metrics := m\<rparr>) = is_hero_in cfg w"
    by (intro ext) (simp add: is_hero_in_def cq)
  show "stuck_heroes cfg (w\<lparr>w_Metrics := m\<rparr>) = stuck_heroes cfg w"
    by (simp add: stuck_heroes_def h)
  show o: "other_heroes cfg (w\<lparr>w_Metrics := m\<rparr>) = other_heroes cfg w"
    by (intro ext) (simp add: other_heroes_def h)
  show "drains_in cfg (w\<lparr>w_Metrics := m\<rparr>) = drains_in cfg w" by (simp add: drains_in_def)
  have "flavor_levels (w\<lparr>w_Metrics := m\<rparr>) = flavor_levels w"
    by (intro ext) (simp add: flavor_levels_def cong: option.case_cong)
  then have "topology_in (w\<lparr>w_Metrics := m\<rparr>) = topology_in w"
    by (intro ext) (simp add: topology_in_def)
  then show "levels_in (w\<lparr>w_Metrics := m\<rparr>) = levels_in w"
    by (intro ext) (simp only: levels_in_def)
  show "snapshot_in L cfg (w\<lparr>w_Metrics := m\<rparr>) = snapshot_in L cfg w"
    by (intro ext) (simp add: snapshot_in_def o)
qed

lemma plan_drain_decides:
  assumes "quiet w"
  shows "plan_drain L cfg req wl cq own (w_Workloads w) w
     = perform_hero L cfg req wl cq (decide_plan L cfg w req wl cq own) w"
proof (cases "levels_in w wl cq")
  case None
  obtain w' where "drainLevel wl cq w = (Inr None, w')"
    using quiet_drainLevel[OF assms, of wl cq] None by auto
  with None show ?thesis
    by (simp add: plan_drain_def decide_plan_def andthen_def ret_def)
next
  case (Some lv)
  obtain level g where lv: "lv = (level, g)" by fastforce
  have dl: "drainLevel wl cq w = (Inr (Some (level, g)), w)"
    using quiet_drainLevel[OF assms, of wl cq] Some lv by auto
  have bs: "buildSnapshot L cfg level g req (w_Workloads w) w
      = (case snapshot_in L cfg w req level g of None \<Rightarrow> Inl RuntimePanic | Some snap \<Rightarrow> Inr snap, w)"
    unfolding snapshot_in_def by (rule quiet_buildSnapshot[OF assms])
  show ?thesis
  proof (cases "snapshot_in L cfg w req level g")
    case None
    then show ?thesis
      using Some lv dl bs by (simp add: plan_drain_def decide_plan_def andthen_def fail_def)
  next
    case (Some snap)
    then show ?thesis
      using \<open>levels_in w wl cq = Some lv\<close> lv dl bs
      by (simp add: plan_drain_def decide_plan_def andthen_def Now_def Let_def selectionOutcomeLabel_def
          split: sum.split)
  qed
qed

lemma take_turn_decides:
  assumes "quiet w" "IsStuckTASNoFit wl (cfg_StuckDetection cfg)"
  shows "take_turn L cfg req wl cq (drains_in cfg w) w
     = perform_hero L cfg req wl cq (decide_hero L cfg w req wl cq) w"
proof (cases "gpuNominalQuota cq (cfg_GPUResourceName cfg) < GPURequest wl (cfg_GPUResourceName cfg)")
  case True
  then show ?thesis
    using assms(2)
    by (cases "map_of (drains_in cfg w) req")
      (auto simp: take_turn_def decide_hero_def refuseOverQuota_def Let_def seq_def andthen_def emit_def ret_def
        split: sum.split prod.split)
next
  case False
  then have within: "refuseOverQuota L cfg wl cq own w = (Inr None, w)" for own
    by (simp add: refuseOverQuota_def ret_def)
  show ?thesis
  proof (cases "BlockingDrain (drains_in cfg w) req")
    case None
    have "list_workloads (\<lambda>_. True) w = (Inr (w_Workloads w), w)"
      by (simp add: quiet_reads assms(1))
    with None False assms(2) show ?thesis
      by (simp add: take_turn_def decide_hero_def Let_def andthen_def within quiet_stuckHeroes[OF assms(1)]
          plan_drain_decides[OF assms(1)] ret_def)
  next
    case (Some blocking)
    with False assms(2) show ?thesis
      by (simp add: take_turn_def decide_hero_def Let_def andthen_def within)
  qed
qed

lemma reconcile_hero_decides:
  assumes "quiet w"
  shows "reconcile_hero L cfg req wl cq w
     = seq (count_metric (set_in_flight (length (drains_in cfg w))))
         (perform_hero L cfg req wl cq (decide_hero L cfg w req wl cq)) w"
proof -
  define w1 where "w1 = w\<lparr>w_Metrics := set_in_flight (length (drains_in cfg w)) (w_Metrics w)\<rparr>"
  have w1: "quiet w1" "drains_in cfg w1 = drains_in cfg w"
    using assms by (simp_all add: w1_def)
  have "w_Workloads w1 = w_Workloads w" "w_Now w1 = w_Now w" by (simp_all add: w1_def)
  then have "decide_hero L cfg w1 req wl cq = decide_hero L cfg w req wl cq"
    unfolding decide_hero_def decide_plan_def w1_def metrics_invariant by presburger
  with take_turn_decides[OF w1(1), of wl cfg L req cq]
  have stuck: "take_turn L cfg req wl cq (drains_in cfg w) w1
      = perform_hero L cfg req wl cq (decide_hero L cfg w req wl cq) w1"
    if "IsStuckTASNoFit wl (cfg_StuckDetection cfg)"
    using that by (simp add: w1(2))
  have idle: "decide_hero L cfg w req wl cq
      = (case map_of (drains_in cfg w) req of None \<Rightarrow> NotStuck | Some d \<Rightarrow> Cycle d)"
    if "\<not> IsStuckTASNoFit wl (cfg_StuckDetection cfg)"
    using that by (simp add: decide_hero_def)
  show ?thesis
    by (cases "map_of (drains_in cfg w) req"; cases "IsStuckTASNoFit wl (cfg_StuckDetection cfg)")
      (simp_all add: reconcile_hero_def seq_def andthen_def quiet_drainsInFlight[OF assms] count_metric_def
        w1_def[symmetric] stuck idle)
qed

lemma Reconcile_decides:
  assumes "quiet w"
  shows "Drain_Ctrl.Reconcile L cfg req w =
     (case find_workload req (w_Workloads w) of
        None \<Rightarrow> (Inr no_requeue, w)
      | Some wl \<Rightarrow> perform L cfg req wl (decide L cfg w req wl) w)"
proof -
  have get: "or_none (get_workload req) w = (Inr (find_workload req (w_Workloads w)), w)"
    by (rule quiet_or_none) (simp add: quiet_reads assms)
  have nonhero: "handleNonHero L cfg wl reason w
      = (case map_of (drains_in cfg w) (wl_Key wl) of None \<Rightarrow> ret no_requeue
         | Some d \<Rightarrow> perform L cfg req wl (Unwind d reason)) w" for wl reason
    by (simp add: handleNonHero_def andthen_def quiet_drainsInFlight[OF assms] split: option.split)
  have "reconcile_workload L cfg req wl w = perform L cfg req wl (decide L cfg w req wl) w" for wl
  proof (cases "wl_Annotations wl DeactivatedForAnnotation")
    case (Some ref)
    then show ?thesis by (simp add: reconcile_workload_def decide_def)
  next
    case None
    then show ?thesis
      by (cases "cq_of w wl"; cases "map_of (drains_in cfg w) (wl_Key wl)"; cases "deactivated wl")
        (simp_all add: reconcile_workload_def decide_def andthen_def quiet_clusterQueueFor[OF assms] nonhero
          is_hero_in_def reconcile_hero_decides[OF assms] Let_def)
  qed
  then show ?thesis
    by (simp add: Drain_Ctrl.Reconcile_def andthen_def get ret_def split: option.split)
qed

end
