(* ===== verification/Selection_Laws.thy ===== *)
theory Selection_Laws
  imports Selection
begin

text \<open>
  What the selector promises: the cost is bounded and grows with a victim's priority and size, victims
  are grouped without repetition, the greedy packing is a real packing of the demand into the chosen
  domains, and the chosen plan is the cheapest of the groups'. The comparison \<open>packBetter\<close> is an
  instance of the argmin contract \<open>preference\<close> of the prelude.
\<close>

subsection \<open>Cost\<close>

declare of_int_sint [simp del]

lemma priority_share_range: "0 \<le> priority_share v hero \<and> priority_share v hero \<le> 1"
  by (auto simp: priority_share_def fdiv_def intro!: float64.rnd_nonneg)

definition counts_fit :: "VictimWorkload \<Rightarrow> HeroSpec \<Rightarrow> bool" where
  "counts_fit v hero \<longleftrightarrow>
     0 \<le> sint (vw_PodCount v) \<and> 0 \<le> sint (hs_PodCount hero) \<and>
     sint (vw_PodCount v) + sint (hs_PodCount hero) < 2 ^ 31"

lemma counts_fit_sum: "counts_fit v hero \<Longrightarrow>
     sint (vw_PodCount v + hs_PodCount hero) = sint (vw_PodCount v) + sint (hs_PodCount hero)"
  by (rule sint_int32_add) (auto simp: counts_fit_def)

lemma size_share_range: "counts_fit v hero \<Longrightarrow> 0 \<le> size_share v hero \<and> size_share v hero \<le> 1"
  using float64.rnd_fraction[of "of_int (sint (vw_PodCount v))"
      "of_int (sint (vw_PodCount v) + sint (hs_PodCount hero))"]
  by (auto simp: size_share_def counts_fit_sum fdiv_def) (auto simp: counts_fit_def)

lemma Seconds_nonneg: "0 \<le> d \<Longrightarrow> 0 \<le> Seconds d"
  by (auto simp: Seconds_def second_def go_quot_nonneg go_rem_nonneg fdiv_def
      intro!: fadd_nonneg float64.rnd_nonneg)

lemma Seconds_idem: "fl (Seconds d) = Seconds d"
  by (simp add: Seconds_def fadd_def)

lemma runtime_share_range:
  assumes "0 < cfg_RuntimeHalfLife cfg"
  shows "0 \<le> runtime_share v cfg \<and> runtime_share v cfg \<le> 1"
proof (cases "0 < vw_RunningFor v")
  case True
  let ?r = "Seconds (vw_RunningFor v)" and ?s = "fadd (Seconds (vw_RunningFor v)) (Seconds (cfg_RuntimeHalfLife cfg))"
  have r: "0 \<le> ?r" using True by (simp add: Seconds_nonneg)
  have "?r \<le> ?s"
    unfolding fadd_def by (rule float64.rnd_absorb) (use assms in \<open>simp_all add: Seconds_idem Seconds_nonneg\<close>)
  with r have "0 \<le> ?r / ?s \<and> ?r / ?s \<le> 1" by (cases "?s = 0") (simp_all add: divide_le_eq_1)
  then show ?thesis
    by (simp add: runtime_share_def Let_def fdiv_def float64.rnd_nonneg float64.rnd_le_1)
qed (simp add: runtime_share_def)

definition wf_cost_config :: "Config \<Rightarrow> bool" where
  "wf_cost_config cfg \<longleftrightarrow>
     0 \<le> w_Priority (cfg_Weights cfg) \<and> 0 \<le> w_PodCount (cfg_Weights cfg) \<and> 0 \<le> w_Runtime (cfg_Weights cfg) \<and>
     1 \<le> cfg_CrossCQMultiplier cfg \<and> 0 < cfg_RuntimeHalfLife cfg"

lemma wf_cost_configD:
  assumes "wf_cost_config cfg"
  shows "0 \<le> w_Priority (cfg_Weights cfg)" "0 \<le> w_PodCount (cfg_Weights cfg)"
    "0 \<le> w_Runtime (cfg_Weights cfg)" "1 \<le> cfg_CrossCQMultiplier cfg" "0 < cfg_RuntimeHalfLife cfg"
  using assms by (simp_all add: wf_cost_config_def)

definition multiplier :: "VictimWorkload \<Rightarrow> HeroSpec \<Rightarrow> Config \<Rightarrow> rat" where
  "multiplier v hero cfg = (if vw_ClusterQueue v \<noteq> hs_ClusterQueue hero then cfg_CrossCQMultiplier cfg else 1)"

lemma multiplier_nonneg: "wf_cost_config cfg \<Longrightarrow> 0 \<le> multiplier v hero cfg"
  by (auto simp: multiplier_def wf_cost_config_def)

lemma Cost_nonneg:
  assumes "wf_cost_config cfg" "counts_fit v hero"
  shows "0 \<le> Cost v hero cfg"
  using wf_cost_configD[OF assms(1)] size_share_range[OF assms(2)] priority_share_range[of v hero]
    runtime_share_range[of cfg v]
  by (auto simp: Cost_def Let_def intro!: fmul_nonneg fadd_nonneg)

lemma Cost_upper:
  assumes "wf_cost_config cfg" "counts_fit v hero"
    and "fl (w_Priority (cfg_Weights cfg)) = w_Priority (cfg_Weights cfg)"
    and "fl (w_PodCount (cfg_Weights cfg)) = w_PodCount (cfg_Weights cfg)"
    and "fl (w_Runtime (cfg_Weights cfg)) = w_Runtime (cfg_Weights cfg)"
  shows "Cost v hero cfg \<le> fmul (multiplier v hero cfg) (weights_sum (cfg_Weights cfg))"
proof -
  have le: "fmul w x \<le> w" if "0 \<le> w" "x \<le> 1" "fl w = w" for w x
    using fmul_left_mono[OF that(1,2)] that(3) by (simp add: fmul_def)
  have "fadd (fadd (fmul (w_Priority (cfg_Weights cfg)) (priority_share v hero))
          (fmul (w_PodCount (cfg_Weights cfg)) (size_share v hero)))
        (fmul (w_Runtime (cfg_Weights cfg)) (runtime_share v cfg)) \<le> weights_sum (cfg_Weights cfg)"
    unfolding weights_sum_def
    using wf_cost_configD[OF assms(1)] size_share_range[OF assms(2)] priority_share_range[of v hero]
      runtime_share_range[of cfg v] assms(3-5)
    by (intro fadd_mono le) simp_all
  then show ?thesis
    using multiplier_nonneg[OF assms(1)] by (simp add: Cost_def Let_def multiplier_def fmul_left_mono)
qed

lemma priority_share_mono:
  assumes "sint (vw_Priority v) \<le> sint (vw_Priority v')"
  shows "priority_share v hero \<le> priority_share v' hero"
proof (cases "0 < sint (hs_Priority hero) \<and> 0 < sint (vw_Priority v)")
  case True
  with assms have "fdiv (of_int (sint (vw_Priority v))) (of_int (sint (hs_Priority hero)))
      \<le> fdiv (of_int (sint (vw_Priority v'))) (of_int (sint (hs_Priority hero)))"
    unfolding fdiv_def by (intro fl_mono divide_right_mono) simp_all
  with True assms show ?thesis by (auto simp: priority_share_def)
next
  case False
  then show ?thesis using priority_share_range[of v' hero] by (auto simp: priority_share_def)
qed

lemma size_share_mono:
  assumes "counts_fit v hero" "counts_fit v' hero" "sint (vw_PodCount v) \<le> sint (vw_PodCount v')"
  shows "size_share v hero \<le> size_share v' hero"
proof (cases "0 < sint (vw_PodCount v)")
  case True
  define h x y where d: "h = sint (hs_PodCount hero)" "x = sint (vw_PodCount v)" "y = sint (vw_PodCount v')"
  have b: "0 \<le> h" "0 < x" "x \<le> y" using assms True by (auto simp: d counts_fit_def)
  have "(of_int x / of_int (x + h) :: rat) \<le> of_int y / of_int (y + h)"
  proof -
    have "x * (y + h) \<le> y * (x + h)" using b by (simp add: algebra_simps mult_left_mono)
    then have "(of_int (x * (y + h)) :: rat) \<le> of_int (y * (x + h))" by (simp only: of_int_le_iff)
    then show ?thesis using b by (simp add: divide_simps)
  qed
  then have "fl (of_int x / of_int (x + h)) \<le> fl (of_int y / of_int (y + h))" by (rule fl_mono)
  with b True show ?thesis
    using counts_fit_sum[OF assms(1)] counts_fit_sum[OF assms(2)] by (simp add: size_share_def fdiv_def d)
next
  case False
  then show ?thesis using size_share_range[OF assms(2)] by (simp add: size_share_def)
qed

lemma Cost_mono:
  assumes "wf_cost_config cfg" "counts_fit v hero" "counts_fit v' hero"
    and "vw_ClusterQueue v' = vw_ClusterQueue v" "vw_RunningFor v' = vw_RunningFor v"
    and "sint (vw_Priority v) \<le> sint (vw_Priority v')" "sint (vw_PodCount v) \<le> sint (vw_PodCount v')"
  shows "Cost v hero cfg \<le> Cost v' hero cfg"
proof -
  have "runtime_share v' cfg = runtime_share v cfg" by (simp add: runtime_share_def assms(5))
  then show ?thesis
    using wf_cost_configD[OF assms(1)] assms(4) priority_share_mono[OF assms(6), of hero]
      size_share_mono[OF assms(2,3,7)]
    by (auto simp: Cost_def Let_def intro!: fmul_left_mono fadd_mono)
qed

subsection \<open>The victims of a domain\<close>

lemma group_victims_loop_keys:
  "distinct (map vw_Key (group_victims_loop workloads now seen vs)) \<and>
   set (map vw_Key (group_victims_loop workloads now seen vs)) =
     {k. k \<in> vic_Workload ` set vs \<and> k \<notin> set seen \<and> workloads k \<noteq> None}"
proof (induction vs arbitrary: seen)
  case (Cons v vs)
  show ?case
  proof (cases "vic_Workload v \<in> set seen")
    case True
    with Cons[of seen] show ?thesis by auto
  next
    case False
    with Cons[of "vic_Workload v # seen"] show ?thesis
      by (cases "workloads (vic_Workload v)") (auto simp: Let_def victim_workload_def)
  qed
qed simp

lemma group_victims_loop_entries:
  "x \<in> set (group_victims_loop workloads now seen vs) \<Longrightarrow>
     \<exists>wl. workloads (vw_Key x) = Some wl \<and> x = victim_workload (vw_Key x) wl now"
  by (induction vs arbitrary: seen)
    (auto simp: Let_def victim_workload_def split: if_splits option.splits)

lemma victimsBelowHero_iff:
  "victimsBelowHero vs p \<longleftrightarrow> (\<forall>v \<in> set vs. sint (vw_Priority v) < sint p)"
  by (induction vs) auto

subsection \<open>The best home for a unit\<close>

interpretation packing: preference packBetter "\<lambda>c. d_ID (c_domain c)"
proof
  fix x y z :: candidate
  show "packBetter x y \<Longrightarrow> \<not> packBetter y x"
    by (auto simp: packBetter_def split: if_splits)
  show "packBetter x z \<Longrightarrow> packBetter x y \<or> packBetter y z"
    by (auto simp: packBetter_def split: if_splits)
  show "d_ID (c_domain x) \<noteq> d_ID (c_domain y) \<Longrightarrow> packBetter x y \<or> packBetter y x"
    by (auto simp: packBetter_def)
qed

lemma packBetter_nth: "preference (\<lambda>i j. packBetter (cs ! i) (cs ! j)) (\<lambda>i. d_ID (c_domain (cs ! i)))"
  by unfold_locales
    (use packing.better_asym packing.better_cotrans packing.better_total in blast)+

subsection \<open>Packing\<close>

text \<open>
  The loads: which units went to which candidate. \<open>loaded\<close> is the candidate after its load.
\<close>

definition loaded :: "candidate \<Rightarrow> quantity list \<Rightarrow> candidate" where
  "loaded c us = c\<lparr>c_remaining := c_remaining c - sum_list us, c_selected := c_selected c \<or> us \<noteq> []\<rparr>"

definition packing_of :: "candidate list \<Rightarrow> quantity list list \<Rightarrow> candidate list \<Rightarrow> bool" where
  "packing_of cs loads cs' \<longleftrightarrow>
     length loads = length cs \<and> cs' = map2 loaded cs loads \<and>
     (\<forall>i < length cs. loads ! i \<noteq> [] \<longrightarrow> sum_list (loads ! i) \<le> c_remaining (cs ! i))"

lemma loaded_Nil [simp]: "loaded c [] = c"
  by (simp add: loaded_def)

lemma packing_of_refl: "packing_of cs (replicate (length cs) []) cs"
proof -
  have "map2 loaded cs (replicate (length cs) []) = cs"
    by (intro nth_equalityI) simp_all
  then show ?thesis by (simp add: packing_of_def)
qed

lemma place_unit_Some:
  assumes "place_unit cs u = Some cs'"
  shows "\<exists>i < length cs. u \<le> c_remaining (cs ! i) \<and>
     (\<forall>j < length cs. u \<le> c_remaining (cs ! j) \<longrightarrow> \<not> packBetter (cs ! j) (cs ! i)) \<and>
     cs' = cs[i := (cs ! i)\<lparr>c_remaining := c_remaining (cs ! i) - u, c_selected := True\<rparr>]"
proof -
  from assms obtain i where i: "pick (\<lambda>i j. packBetter (cs ! i) (cs ! j))
      (filter (\<lambda>i. \<not> c_remaining (cs ! i) < u) [0..<length cs]) = Some i"
    "cs' = cs[i := (cs ! i)\<lparr>c_remaining := c_remaining (cs ! i) - u, c_selected := True\<rparr>]"
    by (auto simp: place_unit_def split: option.splits)
  from pick_mem[OF i(1)] preference.pick_best[OF packBetter_nth i(1)] i(2) show ?thesis by (auto simp: not_less)
qed

lemma place_unit_None:
  "place_unit cs u = None \<longleftrightarrow> (\<forall>c \<in> set cs. c_remaining c < u)"
proof (cases "pick (\<lambda>i j. packBetter (cs ! i) (cs ! j)) (filter (\<lambda>i. \<not> c_remaining (cs ! i) < u) [0..<length cs])")
  case None
  then show ?thesis by (simp add: place_unit_def filter_empty_conv all_set_conv_all_nth)
next
  case (Some i)
  with pick_mem[OF Some] show ?thesis
    by (auto simp: place_unit_def all_set_conv_all_nth)
qed

lemma packing_of_step:
  assumes "packing_of cs loads cs'" "place_unit cs' u = Some cs''"
  shows "\<exists>i < length cs. packing_of cs (loads[i := loads ! i @ [u]]) cs''"
proof -
  from place_unit_Some[OF assms(2)] obtain i where i: "i < length cs'" "u \<le> c_remaining (cs' ! i)"
    "cs'' = cs'[i := (cs' ! i)\<lparr>c_remaining := c_remaining (cs' ! i) - u, c_selected := True\<rparr>]" by blast
  have len: "length loads = length cs" "cs' = map2 loaded cs loads"
    using assms(1) by (simp_all add: packing_of_def)
  with i have il: "i < length cs" by simp
  have ci: "cs' ! i = loaded (cs ! i) (loads ! i)" using len il by simp
  have "cs'' = map2 loaded cs (loads[i := loads ! i @ [u]])"
  proof (intro nth_equalityI)
    fix j assume "j < length cs''"
    with i len il show "cs'' ! j = map2 loaded cs (loads[i := loads ! i @ [u]]) ! j"
      by (cases "j = i") (simp_all add: ci loaded_def)
  qed (simp add: i len)
  moreover have "sum_list (loads ! i @ [u]) \<le> c_remaining (cs ! i)"
    using i(2) by (simp add: ci loaded_def)
  ultimately have "packing_of cs (loads[i := loads ! i @ [u]]) cs''"
    using assms(1) il by (auto simp: packing_of_def nth_list_update)
  with il show ?thesis by blast
qed

lemma mset_concat_update:
  "i < length xss \<Longrightarrow> mset (concat (xss[i := xss ! i @ [x]])) = add_mset x (mset (concat xss))"
proof (induction xss arbitrary: i)
  case (Cons xs xss)
  then show ?case by (cases i) simp_all
qed simp

lemma place_units_packing:
  assumes "packing_of cs loads cs'" "place_units cs' us = Some cs''"
  shows "\<exists>loads'. packing_of cs loads' cs'' \<and> mset (concat loads') = mset (concat loads) + mset us"
  using assms
proof (induction us arbitrary: loads cs')
  case (Cons u us)
  then obtain cs1 where cs1: "place_unit cs' u = Some cs1" "place_units cs1 us = Some cs''"
    by (auto split: option.splits)
  from packing_of_step[OF Cons.prems(1) cs1(1)] obtain i where
    i: "i < length cs" "packing_of cs (loads[i := loads ! i @ [u]]) cs1" by blast
  from Cons.IH[OF i(2) cs1(2)] obtain loads' where
    "packing_of cs loads' cs''" "mset (concat loads') = mset (concat (loads[i := loads ! i @ [u]])) + mset us"
    by blast
  moreover have "i < length loads" using i Cons.prems(1) by (simp add: packing_of_def)
  ultimately show ?case using mset_concat_update[of i loads u] by auto
qed auto

lemma place_units_sound:
  assumes "place_units cs us = Some cs'"
  obtains loads where "packing_of cs loads cs'" "mset (concat loads) = mset us"
  using place_units_packing[OF packing_of_refl assms] by auto

text \<open>A uniform demand is placed exactly when the domains hold it; the greedy choice never costs room.\<close>

lemma sum_list_nth_mono:
  assumes "length xs = length ys" "\<And>i. i < length xs \<Longrightarrow> f (xs ! i) \<le> (g (ys ! i) :: int)"
  shows "sum_list (map f xs) \<le> sum_list (map g ys)"
  using assms
proof (induction xs ys rule: list_induct2)
  case (Cons x xs y ys)
  have "sum_list (map f xs) \<le> sum_list (map g ys)"
    using Cons.prems[of "Suc i" for i] by (intro Cons.IH) auto
  with Cons.prems[of 0] show ?case by simp
qed simp

lemma int_div_less:
  assumes "r < k * u" "0 < u"
  shows "r div u < (k :: int)"
proof (rule ccontr)
  assume "\<not> ?thesis"
  then have "k * u \<le> (r div u) * u" using assms(2) by (intro mult_right_mono) simp_all
  also have "\<dots> \<le> r" using assms(2) div_mult_mod_eq[of r u] pos_mod_sign[of u r] by linarith
  finally show False using assms(1) by simp
qed

lemma sum_list_uniform: "\<forall>x \<in> set us. x = u \<Longrightarrow> sum_list us = int (length us) * u"
  by (induction us) (auto simp: algebra_simps)

lemma length_concat_int: "int (length (concat xss)) = sum_list (map (\<lambda>xs. int (length xs)) xss)"
  by (induction xss) simp_all

lemma uniform_room:
  assumes "packing_of cs loads cs'" "\<forall>us \<in> set loads. \<forall>x \<in> set us. x = u" "0 < u"
    and "\<forall>c \<in> set cs. 0 \<le> c_remaining c"
  shows "int (length (concat loads)) \<le> sum_list (map (\<lambda>c. c_remaining c div u) cs)"
  unfolding length_concat_int
proof (rule sum_list_nth_mono)
  show "length loads = length cs" using assms(1) by (simp add: packing_of_def)
  fix i assume i: "i < length loads"
  then have ic: "i < length cs" using assms(1) by (simp add: packing_of_def)
  have s: "sum_list (loads ! i) = int (length (loads ! i)) * u"
    using assms(2) i nth_mem by (intro sum_list_uniform) blast
  show "int (length (loads ! i)) \<le> c_remaining (cs ! i) div u"
  proof (cases "loads ! i = []")
    case True
    with assms(3,4) ic show ?thesis by (simp add: pos_imp_zdiv_nonneg_iff)
  next
    case False
    with assms(1) ic have "sum_list (loads ! i) \<le> c_remaining (cs ! i)"
      unfolding packing_of_def by blast
    then have "int (length (loads ! i)) * u \<le> c_remaining (cs ! i)" by (simp only: s)
    from zdiv_mono1[OF this \<open>0 < u\<close>] \<open>0 < u\<close> show ?thesis by simp
  qed
qed

lemma uniform_stuck:
  assumes "packing_of cs loads cs'" "\<forall>us \<in> set loads. \<forall>x \<in> set us. x = u" "0 < u"
    and "place_unit cs' u = None"
  shows "sum_list (map (\<lambda>c. c_remaining c div u) cs) \<le> int (length (concat loads))"
  unfolding length_concat_int
proof (rule sum_list_nth_mono)
  show "length cs = length loads" using assms(1) by (simp add: packing_of_def)
  fix i assume ic: "i < length cs"
  then have i: "i < length loads" using assms(1) by (simp add: packing_of_def)
  have s: "sum_list (loads ! i) = int (length (loads ! i)) * u"
    using assms(2) i nth_mem by (intro sum_list_uniform) blast
  have cs': "cs' = map2 loaded cs loads" using assms(1) by (simp add: packing_of_def)
  with i ic have "c_remaining (cs' ! i) = c_remaining (cs ! i) - int (length (loads ! i)) * u"
    by (simp add: loaded_def s)
  moreover have "cs' ! i \<in> set cs'" using cs' i ic by (intro nth_mem) simp
  ultimately have "c_remaining (cs ! i) - int (length (loads ! i)) * u < u"
    using assms(4) by (metis place_unit_None)
  then have "c_remaining (cs ! i) < (int (length (loads ! i)) + 1) * u"
    by (simp add: algebra_simps)
  then have "c_remaining (cs ! i) div u < int (length (loads ! i)) + 1"
    using \<open>0 < u\<close> by (rule int_div_less)
  then show "c_remaining (cs ! i) div u \<le> int (length (loads ! i))" by simp
qed

lemma uniform_None:
  assumes "packing_of cs loads cs'" "\<forall>us \<in> set loads. \<forall>x \<in> set us. x = u" "0 < u"
    and "place_units cs' (replicate n u) = None"
  shows "sum_list (map (\<lambda>c. c_remaining c div u) cs) < int (length (concat loads)) + int n"
  using assms
proof (induction n arbitrary: loads cs')
  case (Suc n)
  show ?case
  proof (cases "place_unit cs' u")
    case None
    from uniform_stuck[OF Suc.prems(1-3) None] show ?thesis by simp
  next
    case (Some cs1)
    from packing_of_step[OF Suc.prems(1) Some] obtain i where
      i: "i < length cs" "packing_of cs (loads[i := loads ! i @ [u]]) cs1" by blast
    then have il: "i < length loads" using Suc.prems(1) by (simp add: packing_of_def)
    have "\<forall>us \<in> set (loads[i := loads ! i @ [u]]). \<forall>x \<in> set us. x = u"
      using Suc.prems(2) nth_mem[OF il] by (auto dest!: set_update_subset_insert[THEN subsetD])
    from Suc.IH[OF i(2) this Suc.prems(3)] Suc.prems(4) Some
    have "sum_list (map (\<lambda>c. c_remaining c div u) cs)
        < int (length (concat (loads[i := loads ! i @ [u]]))) + int n" by simp
    moreover have "length (concat (loads[i := loads ! i @ [u]])) = Suc (length (concat loads))"
      using mset_concat_update[OF il, of u] by (metis size_mset size_add_mset)
    ultimately show ?thesis by simp
  qed
qed simp

lemma place_units_uniform:
  assumes "0 < u" "\<forall>c \<in> set cs. 0 \<le> c_remaining c"
  shows "place_units cs (replicate n u) \<noteq> None \<longleftrightarrow> int n \<le> sum_list (map (\<lambda>c. c_remaining c div u) cs)"
proof
  assume "place_units cs (replicate n u) \<noteq> None"
  then obtain cs' where "place_units cs (replicate n u) = Some cs'" by blast
  from place_units_sound[OF this] obtain loads where
    l: "packing_of cs loads cs'" "mset (concat loads) = mset (replicate n u)" by blast
  then have "set (concat loads) = set (replicate n u)" "length (concat loads) = n"
    by (metis set_mset_mset, metis size_mset length_replicate)
  moreover from this have "\<forall>us \<in> set loads. \<forall>x \<in> set us. x = u"
    by (auto split: if_splits)
  ultimately show "int n \<le> sum_list (map (\<lambda>c. c_remaining c div u) cs)"
    using uniform_room[OF l(1) _ assms] by simp
next
  assume "int n \<le> sum_list (map (\<lambda>c. c_remaining c div u) cs)"
  moreover have "\<forall>us \<in> set (replicate (length cs) []). \<forall>x \<in> set us. x = u" by auto
  ultimately show "place_units cs (replicate n u) \<noteq> None"
    using uniform_None[OF packing_of_refl _ assms(1), of cs n] by fastforce
qed

text \<open>A demand that fits one candidate as a whole is always placed.\<close>

lemma place_units_one_domain:
  assumes "c \<in> set cs" "sum_list us \<le> c_remaining c" "\<forall>u \<in> set us. 0 \<le> u"
  shows "place_units cs us \<noteq> None"
  using assms
proof (induction us arbitrary: cs c)
  case (Cons u us)
  have "0 \<le> sum_list us" using Cons.prems(3) by (intro sum_list_nonneg) simp
  with Cons.prems have u: "u \<le> c_remaining c" by simp
  with Cons.prems(1) have "place_unit cs u \<noteq> None" by (metis place_unit_None not_less)
  then obtain cs' where cs': "place_unit cs u = Some cs'" by blast
  from place_unit_Some[OF this] obtain i where i: "i < length cs"
    "cs' = cs[i := (cs ! i)\<lparr>c_remaining := c_remaining (cs ! i) - u, c_selected := True\<rparr>]" by blast
  obtain j where j: "j < length cs" "cs ! j = c" using Cons.prems(1) by (auto simp: in_set_conv_nth)
  let ?c = "cs' ! j"
  have "?c \<in> set cs'" using j i by simp
  moreover have "sum_list us \<le> c_remaining ?c"
  proof (cases "i = j")
    case True
    then show ?thesis using Cons.prems(2) j i by simp
  next
    case False
    moreover have "0 \<le> u" using Cons.prems(3) by simp
    ultimately show ?thesis using Cons.prems(2) j i by simp
  qed
  ultimately have "place_units cs' us \<noteq> None" using Cons.prems(3) by (intro Cons.IH) simp_all
  with cs' show ?case by simp
qed simp

text \<open>A unit that fits a domain already in the plan never adds another one.\<close>

lemma place_unit_selected:
  assumes "place_unit cs u = Some cs'" "j < length cs" "c_selected (cs ! j)" "u \<le> c_remaining (cs ! j)"
    and "\<forall>c \<in> set cs. 0 \<le> c_cost c"
  shows "map c_selected cs' = map c_selected cs"
proof -
  from place_unit_Some[OF assms(1)] assms(2,4) obtain i where
    i: "i < length cs" "\<not> packBetter (cs ! j) (cs ! i)"
    "cs' = cs[i := (cs ! i)\<lparr>c_remaining := c_remaining (cs ! i) - u, c_selected := True\<rparr>]" by blast
  have "0 \<le> c_cost (cs ! i)" using assms(5) i(1) by simp
  with i(2) assms(3) have "c_selected (cs ! i)"
    by (auto simp: packBetter_def marginalCost_def split: if_splits)
  with i(1,3) show ?thesis by (auto simp: map_update list_update_same_conv)
qed

text \<open>Mixed units: the greedy choice fails only for want of slack, less than one unit lost per further candidate.\<close>

lemma sum_list_replaced: "i < length xs \<Longrightarrow> sum_list (xs[i := x]) = sum_list xs + x - xs ! i" for x :: int
proof (induction xs arbitrary: i)
  case (Cons a xs)
  then show ?case by (cases i) simp_all
qed simp

lemma remaining_after:
  assumes "place_unit cs u = Some cs'"
  shows "sum_list (map c_remaining cs') = sum_list (map c_remaining cs) - u" "length cs' = length cs"
proof -
  from place_unit_Some[OF assms] obtain i where i: "i < length cs"
    "cs' = cs[i := (cs ! i)\<lparr>c_remaining := c_remaining (cs ! i) - u, c_selected := True\<rparr>]" by blast
  then show "length cs' = length cs" by simp
  have "map c_remaining cs' = (map c_remaining cs)[i := map c_remaining cs ! i - u]"
    using i by (simp add: map_update)
  then show "sum_list (map c_remaining cs') = sum_list (map c_remaining cs) - u"
    using i(1) by (simp add: sum_list_replaced)
qed

lemma sum_list_bound: "(\<And>x. x \<in> set xs \<Longrightarrow> f x \<le> b) \<Longrightarrow> sum_list (map f xs) \<le> int (length xs) * b"
  by (induction xs) (auto simp: algebra_simps intro: add_mono)

lemma place_units_slack:
  assumes "cs \<noteq> []" "\<forall>u \<in> set us. 0 < u \<and> u \<le> m"
    and "sum_list us + (int (length cs) - 1) * (m - 1) \<le> sum_list (map c_remaining cs)"
  shows "place_units cs us \<noteq> None"
  using assms
proof (induction us arbitrary: cs)
  case (Cons u us)
  let ?k = "int (length cs)"
  have u: "0 < u" "u \<le> m" "0 \<le> sum_list us" using Cons.prems(2) by (auto intro!: sum_list_nonneg simp: less_imp_le)
  have k: "1 \<le> ?k" using Cons.prems(1) by (simp add: Suc_leI)
  have "place_unit cs u \<noteq> None"
  proof
    assume "place_unit cs u = None"
    then have "sum_list (map c_remaining cs) \<le> ?k * (u - 1)"
      by (intro sum_list_bound) (auto simp: place_unit_None)
    moreover have "(?k - 1) * (u - 1) \<le> (?k - 1) * (m - 1)" using u Cons.prems(1) by (intro mult_left_mono) simp_all
    moreover have "?k * (u - 1) = (?k - 1) * (u - 1) + (u - 1)" by (simp add: algebra_simps)
    ultimately show False using Cons.prems(3) u by simp
  qed
  then obtain cs' where cs': "place_unit cs u = Some cs'" by blast
  note after = remaining_after[OF cs']
  have "cs' \<noteq> []" using after(2) Cons.prems(1) by auto
  then have "place_units cs' us \<noteq> None"
    using Cons.prems(2,3) after by (intro Cons.IH) simp_all
  with cs' show ?case by simp
qed simp

subsection \<open>The plan of a packing\<close>

definition total_cost :: "HeroSpec \<Rightarrow> Config \<Rightarrow> VictimWorkload list \<Rightarrow> rat" where
  "total_cost hero cfg vs = foldl (\<lambda>t v. fadd t (Cost v hero cfg)) 0 vs"

definition plan_ok :: "HeroSpec \<Rightarrow> Config \<Rightarrow> DrainPlan \<Rightarrow> bool" where
  "plan_ok hero cfg plan \<longleftrightarrow>
     distinct (map vw_Key (dp_Victims plan)) \<and> dp_TotalCost plan = total_cost hero cfg (dp_Victims plan)"

lemma add_victims_frame [simp]:
  "dp_DomainIDs (add_victims hero cfg vs plan) = dp_DomainIDs plan"
  "dp_Nodes (add_victims hero cfg vs plan) = dp_Nodes plan"
  by (induction vs arbitrary: plan) auto

lemma add_victims_ok: "plan_ok hero cfg plan \<Longrightarrow> plan_ok hero cfg (add_victims hero cfg vs plan)"
  by (induction vs arbitrary: plan) (auto simp: plan_ok_def total_cost_def)

lemma add_victims_keys:
  "vw_Key ` set (dp_Victims (add_victims hero cfg vs plan)) = vw_Key ` set (dp_Victims plan) \<union> vw_Key ` set vs"
  by (induction vs arbitrary: plan) auto

lemma add_victims_subset:
  "set (dp_Victims (add_victims hero cfg vs plan)) \<subseteq> set (dp_Victims plan) \<union> set vs"
proof (induction vs arbitrary: plan)
  case (Cons v vs)
  show ?case
    using Cons[of plan] Cons[of "plan\<lparr>dp_Victims := dp_Victims plan @ [v],
        dp_TotalCost := fadd (dp_TotalCost plan) (Cost v hero cfg)\<rparr>"] by auto
qed simp

lemma build_plan_spec:
  assumes "plan_ok hero cfg plan" "build_plan hero cfg cs plan = q"
  shows "plan_ok hero cfg q \<and>
     dp_DomainIDs q = dp_DomainIDs plan @ map (\<lambda>c. d_ID (c_domain c)) (filter c_selected cs) \<and>
     dp_Nodes q = dp_Nodes plan @ concat (map (\<lambda>c. d_Nodes (c_domain c)) (filter c_selected cs)) \<and>
     vw_Key ` set (dp_Victims q) =
       vw_Key ` set (dp_Victims plan) \<union> (\<Union>c \<in> {c \<in> set cs. c_selected c}. vw_Key ` set (c_victims c)) \<and>
     set (dp_Victims q) \<subseteq> set (dp_Victims plan) \<union> (\<Union>c \<in> {c \<in> set cs. c_selected c}. set (c_victims c))"
  using assms
proof (induction cs arbitrary: plan)
  case (Cons c cs)
  show ?case
  proof (cases "c_selected c")
    case True
    let ?p = "add_victims hero cfg (c_victims c) (plan\<lparr>dp_DomainIDs := dp_DomainIDs plan @ [d_ID (c_domain c)],
              dp_Nodes := dp_Nodes plan @ d_Nodes (c_domain c)\<rparr>)"
    have ok: "plan_ok hero cfg ?p"
      using Cons.prems(1) by (intro add_victims_ok) (simp add: plan_ok_def)
    have b: "build_plan hero cfg cs ?p = q" using Cons.prems(2) True by simp
    obtain P where P: "P = ?p" by simp
    have keys: "vw_Key ` set (dp_Victims P) = vw_Key ` set (dp_Victims plan) \<union> vw_Key ` set (c_victims c)"
      by (simp add: P add_victims_keys)
    have sub: "set (dp_Victims P) \<subseteq> set (dp_Victims plan) \<union> set (c_victims c)"
      using add_victims_subset[of hero cfg "c_victims c" "plan\<lparr>dp_DomainIDs := dp_DomainIDs plan @ [d_ID (c_domain c)],
              dp_Nodes := dp_Nodes plan @ d_Nodes (c_domain c)\<rparr>"] by (simp add: P)
    have fr: "dp_DomainIDs P = dp_DomainIDs plan @ [d_ID (c_domain c)]"
      "dp_Nodes P = dp_Nodes plan @ d_Nodes (c_domain c)" by (simp_all add: P)
    have un: "{x \<in> set (c # cs). c_selected x} = insert c {x \<in> set cs. c_selected x}" using True by auto
    note IH = Cons.IH[OF ok[folded P] b[folded P]]
    have "vw_Key ` set (dp_Victims q) = vw_Key ` set (dp_Victims plan) \<union>
        (\<Union>c \<in> {x \<in> set (c # cs). c_selected x}. vw_Key ` set (c_victims c))"
      using IH keys unfolding un by (simp add: Un_assoc)
    moreover have "set (dp_Victims q) \<subseteq> set (dp_Victims plan) \<union>
        (\<Union>c \<in> {x \<in> set (c # cs). c_selected x}. set (c_victims c))"
    proof -
      from IH have "set (dp_Victims q) \<subseteq> set (dp_Victims P) \<union> (\<Union>c \<in> {x \<in> set cs. c_selected x}. set (c_victims c))"
        by (elim conjE)
      then show ?thesis using sub unfolding un by auto
    qed
    ultimately show ?thesis using IH True by (simp add: fr)
  next
    case False
    with Cons.IH[OF Cons.prems(1)] Cons.prems(2) show ?thesis by auto
  qed
qed simp

subsection \<open>The scan over the domains\<close>

definition drainable :: "HeroSpec \<Rightarrow> (namespaced_name \<rightharpoonup> workload) \<Rightarrow> time \<Rightarrow> Domain \<Rightarrow> bool" where
  "drainable hero workloads now d \<longleftrightarrow>
     \<not> d_HasOtherHero d \<and> 0 < reclaimable d \<and>
     (\<forall>v \<in> set (GroupVictims d workloads now). sint (vw_Priority v) < sint (hs_Priority hero))"

definition group_candidates :: "HeroSpec \<Rightarrow> (namespaced_name \<rightharpoonup> workload) \<Rightarrow> Config \<Rightarrow> time \<Rightarrow> Domain list
    \<Rightarrow> string \<Rightarrow> candidate list" where
  "group_candidates hero workloads cfg now ds g =
     map (\<lambda>d. candidate_of hero cfg (GroupVictims d workloads now) d)
       (filter (\<lambda>d. drainable hero workloads now d \<and> d_Group d = g) ds)"

lemma scan_spec:
  assumes "foldl (consider_domain hero workloads cfg now) ([], False) ds = (byGroup, blocked)"
  shows "distinct (map fst byGroup) \<and> (blocked \<longleftrightarrow> (\<exists>d \<in> set ds. d_HasOtherHero d)) \<and>
     (\<forall>g. map_of byGroup g = (if group_candidates hero workloads cfg now ds g = [] then None
        else Some (group_candidates hero workloads cfg now ds g)))"
  using assms
proof (induction ds arbitrary: byGroup blocked rule: rev_induct)
  case Nil
  then show ?case by (simp add: group_candidates_def)
next
  case (snoc d ds)
  obtain bg bl where st: "foldl (consider_domain hero workloads cfg now) ([], False) ds = (bg, bl)"
    by (rule prod.exhaust)
  note IH = snoc.IH[OF st]
  have step: "consider_domain hero workloads cfg now (bg, bl) d = (byGroup, blocked)"
    using snoc.prems st by simp
  show ?case
  proof (cases "drainable hero workloads now d")
    case True
    then have "byGroup = assoc_update (d_Group d)
        (\<lambda>cs. cs @ [candidate_of hero cfg (GroupVictims d workloads now) d]) [] bg" "blocked = bl"
      using step by (auto simp: consider_domain_def drainable_def Let_def victimsBelowHero_iff)
    with IH True show ?thesis
      by (auto simp: map_of_assoc_update distinct_assoc_update group_candidates_def drainable_def)
  next
    case False
    then have "byGroup = bg" "blocked = (d_HasOtherHero d \<or> bl)"
      using step by (auto simp: consider_domain_def drainable_def Let_def victimsBelowHero_iff not_less
          split: if_splits)
    with IH False show ?thesis by (auto simp: group_candidates_def)
  qed
qed

subsection \<open>The cheapest plan\<close>

lemma best_plan_spec:
  "best_plan best ps = Some q \<Longrightarrow>
     (best = Some q \<or> Some q \<in> set ps) \<and> (\<forall>p. best = Some p \<or> Some p \<in> set ps \<longrightarrow> dp_TotalCost q \<le> dp_TotalCost p)"
proof (induction best ps rule: best_plan.induct)
  case (3 best p ps)
  show ?case
  proof (cases best)
    case None
    with 3 show ?thesis by auto
  next
    case (Some b)
    show ?thesis
    proof (cases "dp_TotalCost p < dp_TotalCost b")
      case True
      with 3 Some have "Some p = Some q \<or> Some q \<in> set ps"
        "\<And>r. Some p = Some r \<or> Some r \<in> set ps \<Longrightarrow> dp_TotalCost q \<le> dp_TotalCost r" by auto
      moreover from this(2)[of p] True have "dp_TotalCost q \<le> dp_TotalCost b" by simp
      ultimately show ?thesis using Some by auto
    next
      case False
      with 3 Some have "Some b = Some q \<or> Some q \<in> set ps"
        "\<And>r. Some b = Some r \<or> Some r \<in> set ps \<Longrightarrow> dp_TotalCost q \<le> dp_TotalCost r" by auto
      moreover from this(2)[of b] False have "dp_TotalCost q \<le> dp_TotalCost p" by simp
      ultimately show ?thesis using Some by auto
    qed
  qed
qed auto

text \<open>Among equally cheap plans the first one stays.\<close>

lemma best_plan_first:
  assumes "best_plan best (map pl gs) = Some q"
  shows "best = Some q \<or> (\<exists>before g rest. gs = before @ g # rest \<and> pl g = Some q \<and>
     (\<forall>h \<in> set before. \<forall>p. pl h = Some p \<longrightarrow> dp_TotalCost q < dp_TotalCost p) \<and>
     (\<forall>b. best = Some b \<longrightarrow> dp_TotalCost q < dp_TotalCost b))"
  using assms
proof (induction gs arbitrary: best)
  case (Cons a gs)
  show ?case
  proof (cases "pl a")
    case None
    with Cons.IH[of best] Cons.prems consider "best = Some q"
      | before g rest where "gs = before @ g # rest" "pl g = Some q"
        "\<forall>h \<in> set before. \<forall>p. pl h = Some p \<longrightarrow> dp_TotalCost q < dp_TotalCost p"
        "\<forall>b. best = Some b \<longrightarrow> dp_TotalCost q < dp_TotalCost b"
      by auto
    then show ?thesis
    proof cases
      case 2
      with None show ?thesis by (intro disjI2 exI[of _ "a # before"] exI[of _ g] exI[of _ rest]) simp
    qed simp
  next
    case (Some p)
    let ?best = "case best of None \<Rightarrow> Some p
      | Some b \<Rightarrow> if dp_TotalCost p < dp_TotalCost b then Some p else Some b"
    from Cons.prems Some have "best_plan ?best (map pl gs) = Some q" by simp
    from Cons.IH[OF this] consider "?best = Some q"
      | before g rest where "gs = before @ g # rest" "pl g = Some q"
        "\<forall>h \<in> set before. \<forall>p. pl h = Some p \<longrightarrow> dp_TotalCost q < dp_TotalCost p"
        "\<forall>b. ?best = Some b \<longrightarrow> dp_TotalCost q < dp_TotalCost b"
      by blast
    then show ?thesis
    proof cases
      case 1
      show ?thesis
      proof (cases "best = Some q")
        case False
        with 1 have "p = q" "\<forall>b. best = Some b \<longrightarrow> dp_TotalCost q < dp_TotalCost b"
          by (auto split: option.splits if_splits)
        with Some show ?thesis by (intro disjI2 exI[of _ "[]"] exI[of _ a] exI[of _ gs]) simp
      qed simp
    next
      case 2
      then have "dp_TotalCost q < dp_TotalCost p" "\<forall>b. best = Some b \<longrightarrow> dp_TotalCost q < dp_TotalCost b"
        by (auto split: option.splits if_splits)
      with 2 Some show ?thesis by (intro disjI2 exI[of _ "a # before"] exI[of _ g] exI[of _ rest]) simp
    qed
  qed
qed simp

lemma best_plan_None: "best_plan best ps = None \<longleftrightarrow> best = None \<and> set ps \<subseteq> {None}"
  by (induction best ps rule: best_plan.induct) (auto split: option.splits if_splits)

definition group_plan :: "Snapshot \<Rightarrow> HeroSpec \<Rightarrow> (namespaced_name \<rightharpoonup> workload) \<Rightarrow> Config \<Rightarrow> time
    \<Rightarrow> string \<Rightarrow> DrainPlan option" where
  "group_plan s hero workloads cfg now g =
     packWithinGroup (group_candidates hero workloads cfg now (sorted_domains s) g)
       (demand_units (hs_Demand hero)) hero cfg"

lemma pack_nothing: "units \<noteq> [] \<Longrightarrow> packWithinGroup [] units hero cfg = None"
  by (cases units) (simp_all add: packWithinGroup_def place_unit_def)

lemma SelectDomains_Inr:
  assumes "SelectDomains s hero workloads cfg now = Inr plan"
  shows "\<exists>g. group_plan s hero workloads cfg now g = Some plan"
    and "\<And>g p. group_plan s hero workloads cfg now g = Some p \<Longrightarrow> dp_TotalCost plan \<le> dp_TotalCost p"
    and "demand_units (hs_Demand hero) \<noteq> []"
    and "\<exists>g. group_plan s hero workloads cfg now g = Some plan \<and>
      (\<forall>h p. group_plan s hero workloads cfg now h = Some p \<longrightarrow> h < g \<longrightarrow> dp_TotalCost plan < dp_TotalCost p)"
proof -
  obtain byGroup blocked where st:
    "foldl (consider_domain hero workloads cfg now) ([], False) (sorted_domains s) = (byGroup, blocked)"
    by (rule prod.exhaust)
  note scan = scan_spec[OF st]
  let ?units = "demand_units (hs_Demand hero)"
  define pl where "pl = (\<lambda>g. packWithinGroup (the (map_of byGroup g)) ?units hero cfg)"
  from assms st show u: "?units \<noteq> []" by (auto simp: SelectDomains_def)
  with assms st have b: "best_plan None (map pl (sort (map fst byGroup))) = Some plan"
    unfolding pl_def by (auto simp: SelectDomains_def Let_def split: option.splits if_splits)
  have eq: "pl g = group_plan s hero workloads cfg now g" if "g \<in> fst ` set byGroup" for g
  proof -
    from that have "map_of byGroup g \<noteq> None" by (simp add: map_of_eq_None_iff)
    with scan show ?thesis by (auto simp: group_plan_def pl_def split: if_splits)
  qed
  have none: "g \<in> fst ` set byGroup" if "group_plan s hero workloads cfg now g = Some p" for g p
  proof (rule ccontr)
    assume "\<not> ?thesis"
    then have "map_of byGroup g = None" by (simp add: map_of_eq_None_iff)
    with scan have "group_candidates hero workloads cfg now (sorted_domains s) g = []"
      by (metis option.distinct(1))
    with that pack_nothing[OF u] show False by (simp add: group_plan_def)
  qed
  from best_plan_spec[OF b] have "Some plan \<in> pl ` fst ` set byGroup" by simp
  then obtain g where "g \<in> fst ` set byGroup" "pl g = Some plan" by (metis imageE)
  with eq show "\<exists>g. group_plan s hero workloads cfg now g = Some plan" by metis
  show "\<exists>g. group_plan s hero workloads cfg now g = Some plan \<and>
      (\<forall>h p. group_plan s hero workloads cfg now h = Some p \<longrightarrow> h < g \<longrightarrow> dp_TotalCost plan < dp_TotalCost p)"
  proof -
    from best_plan_first[OF b] obtain before g rest where g: "sort (map fst byGroup) = before @ g # rest" "pl g = Some plan"
      "\<forall>h \<in> set before. \<forall>p. pl h = Some p \<longrightarrow> dp_TotalCost plan < dp_TotalCost p" by auto
    have mem: "fst ` set byGroup = set (before @ g # rest)" using g(1) by (metis list.set_map set_sort)
    have "sorted (before @ g # rest)" using sorted_sort[of "map fst byGroup"] unfolding g(1) .
    then have "h \<in> set before" if "h \<in> fst ` set byGroup" "h < g" for h
      using that unfolding mem by (auto simp: sorted_append)
    then have "dp_TotalCost plan < dp_TotalCost p" if "group_plan s hero workloads cfg now h = Some p" "h < g" for h p
      using that none[OF that(1)] eq[of h] g(3) by metis
    moreover have "group_plan s hero workloads cfg now g = Some plan" using g(2) eq[of g] mem by simp
    ultimately show ?thesis by blast
  qed
  show "dp_TotalCost plan \<le> dp_TotalCost p" if "group_plan s hero workloads cfg now g = Some p" for g p
  proof -
    from none[OF that] eq that have "Some p \<in> set (map pl (sort (map fst byGroup)))" by force
    with best_plan_spec[OF b] show ?thesis by blast
  qed
qed

lemma SelectDomains_Inl:
  "SelectDomains s hero workloads cfg now = Inl r \<longleftrightarrow>
     (demand_units (hs_Demand hero) = [] \<and> r = NoFeasibleDomains) \<or>
     (demand_units (hs_Demand hero) \<noteq> [] \<and> (\<forall>g. group_plan s hero workloads cfg now g = None) \<and>
      r = (if \<exists>d \<in> set (sorted_domains s). d_HasOtherHero d then AllFeasibleHeroOccupied else NoFeasibleDomains))"
proof -
  obtain byGroup blocked where st:
    "foldl (consider_domain hero workloads cfg now) ([], False) (sorted_domains s) = (byGroup, blocked)"
    by (rule prod.exhaust)
  note scan = scan_spec[OF st]
  let ?units = "demand_units (hs_Demand hero)"
  define pl where "pl = (\<lambda>g. packWithinGroup (the (map_of byGroup g)) ?units hero cfg)"
  show ?thesis
  proof (cases "?units = []")
    case True
    then show ?thesis using st by (auto simp: SelectDomains_def)
  next
    case False
    have some: "pl g = None \<longleftrightarrow> group_plan s hero workloads cfg now g = None" if "g \<in> fst ` set byGroup" for g
    proof -
      from that have "map_of byGroup g \<noteq> None" by (simp add: map_of_eq_None_iff)
      with scan show ?thesis by (auto simp: group_plan_def pl_def split: if_splits)
    qed
    have none: "group_plan s hero workloads cfg now g = None" if "g \<notin> fst ` set byGroup" for g
    proof -
      from that have "map_of byGroup g = None" by (simp add: map_of_eq_None_iff)
      with scan have "group_candidates hero workloads cfg now (sorted_domains s) g = []"
        by (metis option.distinct(1))
      with pack_nothing[OF False] show ?thesis by (simp add: group_plan_def)
    qed
    have all: "best_plan None (map pl (sort (map fst byGroup))) = None \<longleftrightarrow>
        (\<forall>g. group_plan s hero workloads cfg now g = None)"
    proof -
      have "best_plan None (map pl (sort (map fst byGroup))) = None \<longleftrightarrow>
          (\<forall>g \<in> fst ` set byGroup. pl g = None)"
        unfolding best_plan_None by auto
      also have "\<dots> \<longleftrightarrow> (\<forall>g. group_plan s hero workloads cfg now g = None)"
      proof -
        have "group_plan s hero workloads cfg now g = None \<longleftrightarrow> (g \<in> fst ` set byGroup \<longrightarrow> pl g = None)" for g
          by (cases "g \<in> fst ` set byGroup") (simp_all add: some none)
        then show ?thesis by (simp only: Ball_def)
      qed
      finally show ?thesis .
    qed
    have blocked: "blocked \<longleftrightarrow> (\<exists>d \<in> set (sorted_domains s). d_HasOtherHero d)" using scan by simp
    have "SelectDomains s hero workloads cfg now =
        (case best_plan None (map pl (sort (map fst byGroup))) of
           Some plan \<Rightarrow> Inr plan
         | None \<Rightarrow> if blocked then Inl AllFeasibleHeroOccupied else Inl NoFeasibleDomains)"
      unfolding pl_def using False st by (simp add: SelectDomains_def Let_def)
    then show ?thesis
      using False unfolding all[symmetric] blocked[symmetric]
      by (cases "best_plan None (map pl (sort (map fst byGroup)))") auto
  qed
qed

lemma set_sorted_domains:
  "distinct (map fst (s_Domains s)) \<Longrightarrow> set (sorted_domains s) = snd ` set (s_Domains s)"
  by (force simp: sorted_domains_def image_image)

end
