(* ===== verification/Snapshot_Spec.thy ===== *)
theory Snapshot_Spec
  imports Snapshot
begin

text \<open>
  The specification of \<open>pkg/snapshot\<close>: what a domain of the snapshot is, read off the nodes, the pods and
  the admitted heroes alone, without the maps and loops of \<open>Build\<close>. The last lemma says that \<open>Build\<close>
  computes it in a cluster whose nodes have distinct names.
\<close>

subsection \<open>The specification\<close>

text \<open>The last Ready condition is true, and nothing but this hero's own drain keeps new pods off the node.\<close>

definition ready :: "node \<Rightarrow> bool" where
  "ready n \<longleftrightarrow> (let rs = filter (\<lambda>c. cond_Type c = NodeReady) (node_Conditions n)
              in rs \<noteq> [] \<and> cond_Status (last rs) = ConditionTrue)"

definition open_for :: "Input \<Rightarrow> node \<Rightarrow> bool" where
  "open_for inp n \<longleftrightarrow>
     \<not> node_Unschedulable n \<and> ready n \<and>
     (\<forall>t \<in> set (node_Taints n). taint_Effect t \<in> {NoSchedule, NoExecute} \<longrightarrow>
        taint_Key t = cfg_TaintKey (in_Cfg inp) \<and> Owner n (cfg_TaintKey (in_Cfg inp)) = Some (in_Self inp))"

definition gpu_of :: "Input \<Rightarrow> pod \<Rightarrow> quantity" where
  "gpu_of inp p =
     (let r = cfg_GPUResourceName (in_Cfg inp) in
      sum_list (map (\<lambda>c. case ctr_Requests c r of
          Some q \<Rightarrow> q | None \<Rightarrow> (case ctr_Limits c r of Some q \<Rightarrow> q | None \<Rightarrow> 0)) (pod_Containers p)))"

text \<open>The live pods that ask for GPUs, on the nodes \<open>ns\<close>.\<close>

definition gpu_pods_on :: "Input \<Rightarrow> node list \<Rightarrow> pod list" where
  "gpu_pods_on inp ns =
     filter (\<lambda>p. pod_NodeName p \<in> node_Name ` set ns \<and> \<not> pod_terminal p \<and> pod_DeletionTimestamp p = None \<and>
       gpu_of inp p \<noteq> 0) (in_Pods inp)"

definition tolerated_label :: "Config \<Rightarrow> pod \<Rightarrow> bool" where
  "tolerated_label cfg p \<longleftrightarrow> (\<exists>(k, v) \<in> set (cfg_NonBlockingPodLabels cfg). mget (pod_Labels p) k = v)"

text \<open>
  A decoded assignment lies in the domain when its value at the level is the domain, the first of equal
  levels counting, or, when the assignment does not name the level, its last value is the host name of a node of the domain.
\<close>

definition assigned_in :: "Input \<Rightarrow> string \<Rightarrow> topology_assignment \<Rightarrow> tas_domain \<Rightarrow> bool" where
  "assigned_in inp did ta d \<longleftrightarrow>
     (\<exists>i < length (ta_Levels ta). ta_Levels ta ! i = in_Level inp \<and>
        (\<forall>j < i. ta_Levels ta ! j \<noteq> in_Level inp) \<and> dom_Values d ! i = did) \<or>
     in_Level inp \<notin> set (ta_Levels ta) \<and> ta_Levels ta \<noteq> [] \<and> last (ta_Levels ta) = LabelHostname \<and>
     (\<exists>n \<in> set (in_Nodes inp). node_in inp did n \<and> node_Name n = last (dom_Values d))"

definition hero_in :: "kueue_lib \<Rightarrow> Input \<Rightarrow> string \<Rightarrow> bool" where
  "hero_in L inp did \<longleftrightarrow>
     (\<exists>h \<in> set (in_OtherHeroes inp). \<exists>adm. wl_Admission h = Some adm \<and>
        (\<exists>p \<in> set (adm_PodSetAssignments adm). \<exists>ta. psa_TopologyAssignment p = Some ta \<and>
           (\<exists>d \<in> set (InternalSeqFrom L ta). assigned_in inp did ta d)))"

definition domain_spec :: "kueue_lib \<Rightarrow> Input \<Rightarrow> string \<Rightarrow> Domain" where
  "domain_spec L inp did =
     (let r = cfg_GPUResourceName (in_Cfg inp);
          ns = filter (\<lambda>n. mget (node_Labels n) (in_Level inp) = did) (in_Nodes inp);
          usable = filter (open_for inp) ns in
      \<lparr>d_ID = did,
       d_Group = (if in_GroupLevel inp = [] then []
                  else case filter (\<lambda>g. g \<noteq> []) (map (\<lambda>n. mget (node_Labels n) (in_GroupLevel inp)) ns) of
                         [] \<Rightarrow> [] | g # _ \<Rightarrow> g),
       d_Nodes = map node_Name ns,
       d_AllocatableGPU = sum_list (map (\<lambda>n. case node_Allocatable n r of None \<Rightarrow> 0 | Some q \<Rightarrow> q) usable),
       d_NonReclaimableGPU = sum_list (map (gpu_of inp)
         (filter (\<lambda>p. pod_Annotations p WorkloadAnnotation = None \<and> \<not> tolerated_label (in_Cfg inp) p)
           (gpu_pods_on inp usable))),
       d_Victims = map (\<lambda>p. \<lparr>vic_Pod = pod_Key p, vic_Node = pod_NodeName p,
           vic_Workload = NamespacedName (Namespace (pod_Key p)) (mget (pod_Annotations p) WorkloadAnnotation),
           vic_GPURequest = gpu_of inp p\<rparr>)
         (filter (\<lambda>p. pod_Annotations p WorkloadAnnotation \<noteq> None) (gpu_pods_on inp ns)),
       d_HasOtherHero = hero_in L inp did\<rparr>)"

subsection \<open>The code's tests are the specification's\<close>

lemma ready_loop_last:
  "ready_loop r cs = (let rs = filter (\<lambda>c. cond_Type c = NodeReady) cs
                      in if rs = [] then r else cond_Status (last rs) = ConditionTrue)"
  by (induction cs arbitrary: r) (simp_all add: Let_def)

lemma ready_spec: "nodeIsReady n \<longleftrightarrow> ready n"
  by (simp add: nodeIsReady_def ready_loop_last ready_def Let_def)

lemma usable_loop_iff:
  "usable_loop n key self ts \<longleftrightarrow> nodeIsReady n \<and>
     (\<forall>t \<in> set ts. taint_Effect t = NoSchedule \<or> taint_Effect t = NoExecute \<longrightarrow>
        taint_Key t = key \<and> self \<noteq> zero_name \<and> Owner n key = Some self)"
  by (induction ts) auto

lemma usable_spec: "usable_in inp n \<longleftrightarrow> open_for inp n"
proof -
  have "in_Self inp \<noteq> zero_name" if "Owner n (cfg_TaintKey (in_Cfg inp)) = Some (in_Self inp)"
    using that by (auto simp: Owner_Some wf_key_def zero_name_def)
  then show ?thesis by (auto simp: usable_in_def NodeUsable_def usable_loop_iff ready_spec open_for_def)
qed

lemma gpu_spec: "podGPURequest p (cfg_GPUResourceName (in_Cfg inp)) = gpu_of inp p"
proof -
  have "foldl (\<lambda>acc c. acc + f c) a cs = a + sum_list (map f cs)" for f :: "container \<Rightarrow> quantity" and a cs
    by (induction cs arbitrary: a) simp_all
  then show ?thesis by (simp add: podGPURequest_def gpu_of_def ctr_gpu_def Let_def)
qed

lemma classify_spec:
  "classify p cfg = podVictim \<longleftrightarrow> pod_Annotations p WorkloadAnnotation \<noteq> None"
  "classify p cfg = podNonReclaimable \<longleftrightarrow> pod_Annotations p WorkloadAnnotation = None \<and> \<not> tolerated_label cfg p"
  by (auto simp: classify_def tolerated_label_def list_ex_iff)

lemma group_spec:
  "group_of inp ns = (if in_GroupLevel inp = [] then []
     else case filter (\<lambda>g. g \<noteq> []) (map (\<lambda>n. mget (node_Labels n) (in_GroupLevel inp)) ns) of [] \<Rightarrow> [] | g # _ \<Rightarrow> g)"
  by (induction ns) (auto simp: group_of_def split: option.split)

text \<open>The node maps are the nodes, read back by their names.\<close>

lemma node_maps_spec:
  assumes "distinct (map node_Name (in_Nodes inp))" "did \<noteq> []"
  defines "maps \<equiv> snd (nodes_loop inp (in_Nodes inp))"
    and "ns \<equiv> filter (\<lambda>n. mget (node_Labels n) (in_Level inp) = did) (in_Nodes inp)"
  shows "fst maps nm = Some did \<longleftrightarrow> nm \<in> node_Name ` set ns"
    and "fst maps nm = Some did \<Longrightarrow> snd maps nm = Some True \<longleftrightarrow> nm \<in> node_Name ` set (filter (open_for inp) ns)"
proof -
  have here: "n \<in> set ns \<longleftrightarrow> n \<in> set (in_Nodes inp) \<and> node_in inp did n" for n
    using assms(2) by (auto simp: ns_def node_in_def)
  show at: "fst maps nm = Some did \<longleftrightarrow> nm \<in> node_Name ` set ns"
    unfolding maps_def nodes_loop_maps(1)[OF assms(1)] using here by blast
  assume "fst maps nm = Some did"
  with at obtain n where n: "n \<in> set ns" "node_Name n = nm" by blast
  then have "snd maps nm = Some (open_for inp n)"
    using nodes_loop_maps(2)[OF assms(1), of n inp did] here by (auto simp: maps_def usable_spec)
  moreover have "m = n" if "m \<in> set ns" "node_Name m = nm" for m
    using that n here assms(1) by (auto simp: distinct_map inj_on_def)
  then have "nm \<in> node_Name ` set (filter (open_for inp) ns) \<longleftrightarrow> open_for inp n"
    using n unfolding set_filter by blast
  ultimately show "snd maps nm = Some True \<longleftrightarrow> nm \<in> node_Name ` set (filter (open_for inp) ns)"
    by simp
qed

lemma assigned_spec:
  assumes "distinct (map node_Name (in_Nodes inp))" "did \<noteq> []" "length (dom_Values d) = length (ta_Levels ta)"
  shows "hero_domain_id (in_Level inp) (fst (snd (nodes_loop inp (in_Nodes inp)))) ta d = Some did
     \<longleftrightarrow> assigned_in inp did ta d"
proof (cases "slices_Index (ta_Levels ta) (in_Level inp)")
  case (Some i)
  note i = slices_Index_Some[OF Some] slices_Index_first[OF Some]
  have "j = i" if "j < length (ta_Levels ta)" "ta_Levels ta ! j = in_Level inp" "\<forall>k < j. ta_Levels ta ! k \<noteq> in_Level inp" for j
    using that i by (metis linorder_neqE_nat)
  moreover have "in_Level inp \<in> set (ta_Levels ta)" using i(1) nth_mem by metis
  ultimately show ?thesis
    using i assms(3) Some unfolding hero_domain_id_def assigned_in_def by (simp add: index_at_def) blast
next
  case None
  then have out: "in_Level inp \<notin> set (ta_Levels ta)" by simp
  then have none: "\<not> (ta_Levels ta ! i = in_Level inp)" if "i < length (ta_Levels ta)" for i
    using that nth_mem by metis
  let ?nd = "fst (snd (nodes_loop inp (in_Nodes inp)))"
  have "mget ?nd nm = did \<longleftrightarrow> ?nd nm = Some did" for nm
    using assms(2) by (auto simp: mget_def split: option.split)
  then have "mget ?nd nm = did \<longleftrightarrow> (\<exists>n \<in> set (in_Nodes inp). node_in inp did n \<and> node_Name n = nm)" for nm
    using nodes_loop_maps(1)[OF assms(1), of inp nm did] by auto
  moreover have "dom_Values d ! (length (dom_Values d) - 1) = last (dom_Values d)" if "ta_Levels ta \<noteq> []"
  proof -
    have "dom_Values d \<noteq> []" using that assms(3) by (metis length_0_conv)
    then show ?thesis by (simp add: last_conv_nth)
  qed
  moreover have "length (dom_Values d) - 1 < length (dom_Values d)" if "ta_Levels ta \<noteq> []"
    using that assms(3) by simp
  ultimately show ?thesis
    using None out none assms(2) unfolding hero_domain_id_def assigned_in_def
    by (auto simp: index_at_def simp del: slices_Index_None)
qed

lemma hero_spec_in:
  assumes "distinct (map node_Name (in_Nodes inp))" "did \<noteq> []" "decodable L (in_OtherHeroes inp)"
  shows "occupies L (in_Level inp) (fst (snd (nodes_loop inp (in_Nodes inp)))) (in_OtherHeroes inp) did \<longleftrightarrow> hero_in L inp did"
proof -
  have "hero_domain_id (in_Level inp) (fst (snd (nodes_loop inp (in_Nodes inp)))) ta d = Some did \<longleftrightarrow> assigned_in inp did ta d"
    if "h \<in> set (in_OtherHeroes inp)" "wl_Admission h = Some adm" "p \<in> set (adm_PodSetAssignments adm)"
      "psa_TopologyAssignment p = Some ta" "d \<in> set (InternalSeqFrom L ta)" for h adm p ta d
  proof (rule assigned_spec[OF assms(1,2)])
    show "length (dom_Values d) = length (ta_Levels ta)"
      using that assms(3) unfolding decodable_def decodes_levels_def by blast
  qed
  with assms(2) show ?thesis unfolding occupies_def hero_in_def by blast
qed

subsection \<open>Build computes it\<close>

lemma domain_fold_spec:
  assumes "distinct (map node_Name (in_Nodes inp))" "decodable L (in_OtherHeroes inp)" "did \<noteq> []"
  shows "domain_fold L inp did = domain_spec L inp did"
proof -
  let ?ns = "filter (\<lambda>n. mget (node_Labels n) (in_Level inp) = did) (in_Nodes inp)"
    and ?maps = "snd (nodes_loop inp (in_Nodes inp))"
  have ns: "node_in inp did = (\<lambda>n. mget (node_Labels n) (in_Level inp) = did)"
    using assms(3) by (auto simp: node_in_def fun_eq_iff)
  have usable: "usable_in inp = open_for inp" by (simp add: usable_spec fun_eq_iff)
  have gpus: "node_gpu inp = (\<lambda>n. case node_Allocatable n (cfg_GPUResourceName (in_Cfg inp)) of None \<Rightarrow> 0 | Some q \<Rightarrow> q)"
    by (simp add: node_gpu_def fun_eq_iff)
  have pods: "filter (\<lambda>p. fst ?maps (pod_NodeName p) = Some did \<and> counted (in_Cfg inp) p) (in_Pods inp) = gpu_pods_on inp ?ns"
    unfolding gpu_pods_on_def counted_def gpu_spec node_maps_spec(1)[OF assms(1,3)] by simp
  have blocking: "filter (\<lambda>p. classify p (in_Cfg inp) = podNonReclaimable \<and> snd ?maps (pod_NodeName p) = Some True) (gpu_pods_on inp ?ns)
      = filter (\<lambda>p. pod_Annotations p WorkloadAnnotation = None \<and> \<not> tolerated_label (in_Cfg inp) p)
          (gpu_pods_on inp (filter (open_for inp) ?ns))"
    unfolding gpu_pods_on_def filter_filter
    using node_maps_spec[OF assms(1,3)] by (intro filter_cong) (auto simp: classify_spec)
  show ?thesis
    unfolding domain_fold_def pods_spec_def Let_def pods blocking
    by (simp add: capacity_spec_def new_domain_def ns usable group_spec hero_spec_in[OF assms(1,3,2)] classify_spec
        domain_spec_def Let_def gpus gpu_spec victim_of_def)
qed

lemma Build_spec:
  assumes "distinct (map node_Name (in_Nodes inp))" "decodable L (in_OtherHeroes inp)"
  shows "\<exists>s. Build L inp = Some s \<and> s_Level s = in_Level inp \<and> distinct (map fst (s_Domains s)) \<and>
     map_of (s_Domains s) =
       (\<lambda>did. if did \<noteq> [] \<and> did \<in> (\<lambda>n. mget (node_Labels n) (in_Level inp)) ` set (in_Nodes inp)
        then Some (domain_spec L inp did) else None)"
proof -
  have "(\<exists>n \<in> set (in_Nodes inp). node_in inp did n)
      \<longleftrightarrow> did \<noteq> [] \<and> did \<in> (\<lambda>n. mget (node_Labels n) (in_Level inp)) ` set (in_Nodes inp)" for did
    by (auto simp: node_in_def)
  then have "(\<lambda>did. if \<exists>n \<in> set (in_Nodes inp). node_in inp did n then Some (domain_fold L inp did) else None)
      = (\<lambda>did. if did \<noteq> [] \<and> did \<in> (\<lambda>n. mget (node_Labels n) (in_Level inp)) ` set (in_Nodes inp)
        then Some (domain_spec L inp did) else None)"
    by (intro ext) (simp add: domain_fold_spec[OF assms])
  with Build_folds[OF assms(2)] show ?thesis by simp
qed

end
