(* ===== verification/Selection_Properties.thy ===== *)
theory Selection_Properties
  imports Selection_Laws Snapshot_Spec Core_Properties
begin

text \<open>
  Properties of the snapshot and of the domain selection, each with a concrete instance: what a plan
  guarantees, when there is none, and where the greedy choice is complete and where it is not.
\<close>

subsection \<open>From a packing to a plan\<close>

lemma concat_map_filter_nonempty:
  "length cs = length loads \<Longrightarrow>
     concat (map snd (filter (\<lambda>(c, us). us \<noteq> []) (zip cs loads))) = concat loads"
  by (induction cs loads rule: list_induct2) auto


lemma packed_domains:
  assumes "packWithinGroup cands units hero cfg = Some plan"
  obtains loads where "length loads = length cands" "mset (concat loads) = mset units"
    "\<forall>i < length cands. loads ! i \<noteq> [] \<longrightarrow> sum_list (loads ! i) \<le> reclaimable (c_domain (cands ! i))"
    "plan = build_plan hero cfg (map2 loaded (map reset_candidate cands) loads) empty_plan"
proof -
  from assms obtain cs' where cs': "place_units (map reset_candidate cands) units = Some cs'"
    "plan = build_plan hero cfg cs' empty_plan" by (auto simp: packWithinGroup_def)
  from place_units_sound[OF cs'(1)] obtain loads where
    l: "packing_of (map reset_candidate cands) loads cs'" "mset (concat loads) = mset units" by blast
  show ?thesis
  proof (rule that)
    show "length loads = length cands" "mset (concat loads) = mset units"
      "plan = build_plan hero cfg (map2 loaded (map reset_candidate cands) loads) empty_plan"
      using l cs' by (simp_all add: packing_of_def)
    show "\<forall>i < length cands. loads ! i \<noteq> [] \<longrightarrow> sum_list (loads ! i) \<le> reclaimable (c_domain (cands ! i))"
      using l(1) by (simp add: packing_of_def reset_candidate_def)
  qed
qed

lemma filter_selected:
  "length loads = length cands \<Longrightarrow>
     filter c_selected (map2 loaded (map reset_candidate cands) loads) =
     map (\<lambda>(c, us). loaded (reset_candidate c) us) (filter (\<lambda>(c, us). us \<noteq> []) (zip cands loads))"
  by (induction cands loads rule: list_induct2') (auto simp: loaded_def reset_candidate_def)

lemma loaded_frame [simp]:
  "c_domain (loaded (reset_candidate c) us) = c_domain c" "c_victims (loaded (reset_candidate c) us) = c_victims c"
  by (simp_all add: loaded_def reset_candidate_def)

definition chosen :: "candidate list \<Rightarrow> quantity list list \<Rightarrow> (candidate \<times> quantity list) list" where
  "chosen cands loads = filter (\<lambda>(c, us). us \<noteq> []) (zip cands loads)"

lemma plan_of_packing:
  assumes "length loads = length cands"
    "plan = build_plan hero cfg (map2 loaded (map reset_candidate cands) loads) empty_plan"
  shows "dp_DomainIDs plan = map (\<lambda>x. d_ID (c_domain (fst x))) (chosen cands loads)"
    "dp_Nodes plan = concat (map (\<lambda>x. d_Nodes (c_domain (fst x))) (chosen cands loads))"
    "plan_ok hero cfg plan"
    "vw_Key ` set (dp_Victims plan) = (\<Union>x \<in> set (chosen cands loads). vw_Key ` set (c_victims (fst x)))"
    "set (dp_Victims plan) \<subseteq> (\<Union>x \<in> set (chosen cands loads). set (c_victims (fst x)))"
proof -
  have ok: "plan_ok hero cfg empty_plan" by (simp add: plan_ok_def empty_plan_def total_cost_def)
  let ?cs = "map2 loaded (map reset_candidate cands) loads"
  have sel: "{c \<in> set ?cs. c_selected c} = set (filter c_selected ?cs)" by (simp only: set_filter)
  note spec = build_plan_spec[OF ok assms(2)[symmetric]]
  note fs = filter_selected[OF assms(1), folded chosen_def]
  show "dp_DomainIDs plan = map (\<lambda>x. d_ID (c_domain (fst x))) (chosen cands loads)"
    "dp_Nodes plan = concat (map (\<lambda>x. d_Nodes (c_domain (fst x))) (chosen cands loads))"
    using spec by (simp_all add: fs empty_plan_def case_prod_beta comp_def)
  show "plan_ok hero cfg plan" using spec by blast
  show "vw_Key ` set (dp_Victims plan) = (\<Union>x \<in> set (chosen cands loads). vw_Key ` set (c_victims (fst x)))"
    "set (dp_Victims plan) \<subseteq> (\<Union>x \<in> set (chosen cands loads). set (c_victims (fst x)))"
    using spec unfolding sel fs by (auto simp: empty_plan_def case_prod_beta)
qed

definition wf_snapshot :: "Snapshot \<Rightarrow> bool" where
  "wf_snapshot s \<longleftrightarrow> distinct (map fst (s_Domains s)) \<and> (\<forall>(k, d) \<in> set (s_Domains s). d_ID d = k)"

lemma sorted_domains_ids: "wf_snapshot s \<Longrightarrow> map d_ID (sorted_domains s) = sort (map fst (s_Domains s))"
proof -
  assume wf: "wf_snapshot s"
  have "d_ID (the (map_of (s_Domains s) i)) = i" if "i \<in> set (sort (map fst (s_Domains s)))" for i
  proof -
    from that obtain d where "map_of (s_Domains s) i = Some d"
      by (metis domD dom_map_of_conv_image_fst list.set_map set_sort)
    with wf show ?thesis by (auto simp: wf_snapshot_def dest: map_of_SomeD)
  qed
  then show ?thesis by (auto simp: sorted_domains_def comp_def intro!: map_idI)
qed

lemma chosen_candidate:
  assumes "(c, us) \<in> set (chosen (group_candidates hero wls cfg now ds g) loads)"
    "length loads = length (group_candidates hero wls cfg now ds g)"
    "\<forall>i < length (group_candidates hero wls cfg now ds g). loads ! i \<noteq> [] \<longrightarrow>
       sum_list (loads ! i) \<le> reclaimable (c_domain (group_candidates hero wls cfg now ds g ! i))"
  shows "c_domain c \<in> set ds \<and> drainable hero wls now (c_domain c) \<and> d_Group (c_domain c) = g \<and>
     c_victims c = GroupVictims (c_domain c) wls now \<and> us \<noteq> [] \<and> sum_list us \<le> reclaimable (c_domain c)"
proof -
  from assms(1) have z: "(c, us) \<in> set (zip (group_candidates hero wls cfg now ds g) loads)" "us \<noteq> []"
    by (auto simp: chosen_def)
  from z(1) obtain i where i: "i < length (group_candidates hero wls cfg now ds g)"
    "c = group_candidates hero wls cfg now ds g ! i" "us = loads ! i"
    by (auto simp: in_set_zip)
  then have "c \<in> set (group_candidates hero wls cfg now ds g)" by simp
  with i z assms(3) show ?thesis
    by (auto simp: group_candidates_def candidate_of_def)
qed

text \<open>The candidates a plan selected, with the units each took.\<close>

definition selected_ok :: "Snapshot \<Rightarrow> HeroSpec \<Rightarrow> (namespaced_name \<rightharpoonup> workload) \<Rightarrow> time \<Rightarrow> string
    \<Rightarrow> candidate \<times> quantity list \<Rightarrow> bool" where
  "selected_ok s hero wls now g x \<longleftrightarrow>
     map_of (s_Domains s) (d_ID (c_domain (fst x))) = Some (c_domain (fst x)) \<and>
     drainable hero wls now (c_domain (fst x)) \<and> d_Group (c_domain (fst x)) = g \<and>
     c_victims (fst x) = GroupVictims (c_domain (fst x)) wls now \<and>
     snd x \<noteq> [] \<and> sum_list (snd x) \<le> reclaimable (c_domain (fst x))"

lemma distinct_chosen:
  assumes "wf_snapshot s" "length loads = length (group_candidates hero wls cfg now (sorted_domains s) g)"
  shows "distinct (map (\<lambda>x. d_ID (c_domain (fst x)))
     (chosen (group_candidates hero wls cfg now (sorted_domains s) g) loads))"
proof -
  let ?cands = "group_candidates hero wls cfg now (sorted_domains s) g"
  have "distinct (map d_ID (sorted_domains s))"
    using assms(1) by (simp add: sorted_domains_ids) (simp add: wf_snapshot_def)
  then have "distinct (map (\<lambda>c. d_ID (c_domain c)) ?cands)"
    by (simp add: group_candidates_def candidate_of_def comp_def distinct_map_filter)
  moreover have "map (\<lambda>c. d_ID (c_domain c)) ?cands = map (\<lambda>x. d_ID (c_domain (fst x))) (zip ?cands loads)"
    using assms(2) by (intro nth_equalityI) simp_all
  ultimately have "distinct (map (\<lambda>x. d_ID (c_domain (fst x))) (zip ?cands loads))" by (simp only:)
  then show ?thesis by (simp add: chosen_def distinct_map_filter)
qed

lemma plan_selected:
  assumes "SelectDomains s hero wls cfg now = Inr plan" "wf_snapshot s"
  obtains ch g where "\<And>x. x \<in> set ch \<Longrightarrow> selected_ok s hero wls now g x"
    "distinct (map (\<lambda>x. d_ID (c_domain (fst x))) ch)"
    "mset (concat (map snd ch)) = mset (demand_units (hs_Demand hero))" "plan_ok hero cfg plan"
    "dp_DomainIDs plan = map (\<lambda>x. d_ID (c_domain (fst x))) ch"
    "dp_Nodes plan = concat (map (\<lambda>x. d_Nodes (c_domain (fst x))) ch)"
    "vw_Key ` set (dp_Victims plan) = (\<Union>x \<in> set ch. vw_Key ` set (c_victims (fst x)))"
    "set (dp_Victims plan) \<subseteq> (\<Union>x \<in> set ch. set (c_victims (fst x)))"
proof -
  from SelectDomains_Inr(1)[OF assms(1)] obtain g where
    g: "group_plan s hero wls cfg now g = Some plan" by blast
  let ?cands = "group_candidates hero wls cfg now (sorted_domains s) g"
  from packed_domains[OF g[unfolded group_plan_def]] obtain loads where l:
    "length loads = length ?cands" "mset (concat loads) = mset (demand_units (hs_Demand hero))"
    "\<forall>i < length ?cands. loads ! i \<noteq> [] \<longrightarrow> sum_list (loads ! i) \<le> reclaimable (c_domain (?cands ! i))"
    "plan = build_plan hero cfg (map2 loaded (map reset_candidate ?cands) loads) empty_plan" .
  have "selected_ok s hero wls now g x" if "x \<in> set (chosen ?cands loads)" for x
  proof -
    obtain c us where x: "x = (c, us)" by (rule prod.exhaust)
    note cc = chosen_candidate[OF that[unfolded x] l(1,3)]
    with assms(2) have "c_domain c \<in> snd ` set (s_Domains s)"
      by (simp add: set_sorted_domains wf_snapshot_def)
    with assms(2) have "map_of (s_Domains s) (d_ID (c_domain c)) = Some (c_domain c)"
      by (auto simp: wf_snapshot_def)
    with cc show ?thesis by (simp add: selected_ok_def x)
  qed
  moreover have "concat (map snd (chosen ?cands loads)) = concat loads"
    using concat_map_filter_nonempty[OF l(1)[symmetric]] by (simp add: chosen_def)
  ultimately show ?thesis
    using that[of "chosen ?cands loads" g] plan_of_packing[OF l(1,4)] distinct_chosen[OF assms(2) l(1)] l(2)
    by metis
qed

subsection \<open>A concrete snapshot\<close>

definition ex_victim :: workload where
  "ex_victim = ex_hero\<lparr>wl_Key := NamespacedName ''b'' ''job'', wl_UID := ''u2'', wl_Priority := Some 50, wl_CreationTimestamp := 4 * hour,
     wl_PriorityClassRef := None, wl_QueueName := ''other'', wl_Conditions := [],
     wl_Admission := Some \<lparr>adm_ClusterQueue = ''oq'', adm_PodSetAssignments =
       [\<lparr>psa_Name = ''main'', psa_Count = Some 2, psa_TopologyAssignment = None\<rparr>]\<rparr>\<rparr>"

definition ex_domain :: "string \<Rightarrow> int \<Rightarrow> Victim list \<Rightarrow> Domain" where
  "ex_domain i gpus vs = \<lparr>d_ID = i, d_Group = [], d_Nodes = [i @ ''-n''], d_AllocatableGPU = gpus,
     d_NonReclaimableGPU = 0, d_Victims = vs, d_HasOtherHero = False\<rparr>"

definition ex_snapshot :: Snapshot where
  "ex_snapshot = \<lparr>s_Level = ''block'', s_Domains =
     [(''b2'', ex_domain ''b2'' 16 [\<lparr>vic_Pod = NamespacedName ''b'' ''p'', vic_Node = ''b2-n'',
         vic_Workload = NamespacedName ''b'' ''job'', vic_GPURequest = 8\<rparr>]),
      (''b1'', ex_domain ''b1'' 32 [])]\<rparr>"

definition ex_spec :: HeroSpec where
  "ex_spec = \<lparr>hs_Key = ex_hero_key, hs_Priority = 100, hs_PodCount = 2, hs_ClusterQueue = ''hq'',
     hs_Demand = [\<lparr>ch_Size = 16, ch_Count = 3\<rparr>]\<rparr>"

definition ex_workloads :: "namespaced_name \<rightharpoonup> workload" where
  "ex_workloads = [NamespacedName ''b'' ''job'' \<mapsto> ex_victim]"

definition ex_plan :: "InfeasibleReason + DrainPlan" where
  "ex_plan = SelectDomains ex_snapshot ex_spec ex_workloads ex_config (10 * hour)"

lemma ex_plan_ids: "\<exists>plan. ex_plan = Inr plan \<and> dp_DomainIDs plan = [''b1'', ''b2'']"
proof -
  have "(case ex_plan of Inl _ \<Rightarrow> [] | Inr plan \<Rightarrow> dp_DomainIDs plan) = [''b1'', ''b2'']"
    by code_simp
  then show ?thesis by (auto split: sum.splits)
qed

lemma ex_snapshot_wf: "wf_snapshot ex_snapshot"
  by (simp add: wf_snapshot_def ex_snapshot_def ex_domain_def)

subsection \<open>Plans\<close>

text \<open>C2: A plan is a packing: the demand units are distributed over the selected domains, every selected
  domain takes at least one unit, and no domain is loaded beyond what a full drain of it frees
  (allocatable minus non-reclaimable GPUs).\<close>

theorem plan_covers_demand:
  assumes "SelectDomains s hero wls cfg now = Inr plan" "wf_snapshot s"
  shows "\<exists>loads. map fst loads = dp_DomainIDs plan \<and>
     mset (concat (map snd loads)) = mset (demand_units (hs_Demand hero)) \<and>
     (\<forall>(i, us) \<in> set loads. us \<noteq> [] \<and>
        (\<exists>d. map_of (s_Domains s) i = Some d \<and> sum_list us \<le> reclaimable d))"
proof -
  obtain ch g where ch: "\<And>x. x \<in> set ch \<Longrightarrow> selected_ok s hero wls now g x"
    "mset (concat (map snd ch)) = mset (demand_units (hs_Demand hero))"
    "dp_DomainIDs plan = map (\<lambda>x. d_ID (c_domain (fst x))) ch"
    using plan_selected[OF assms] by metis
  let ?L = "map (\<lambda>x. (d_ID (c_domain (fst x)), snd x)) ch"
  have "us \<noteq> [] \<and> (\<exists>d. map_of (s_Domains s) i = Some d \<and> sum_list us \<le> reclaimable d)"
    if "(i, us) \<in> set ?L" for i us
    using that ch(1) by (auto simp: selected_ok_def)
  then show ?thesis using ch(2,3) by (intro exI[of _ ?L]) (auto simp: comp_def)
qed

theorem plan_covers_demand_witness:
  "\<exists>plan loads. ex_plan = Inr plan \<and> map fst loads = [''b1'', ''b2''] \<and>
     mset (concat (map snd loads)) = mset [16, 16, 16 :: int]"
proof -
  obtain plan where p: "ex_plan = Inr plan" "dp_DomainIDs plan = [''b1'', ''b2'']"
    using ex_plan_ids by blast
  have u: "demand_units (hs_Demand ex_spec) = [16, 16, 16]" by code_simp
  from plan_covers_demand[OF p(1)[unfolded ex_plan_def] ex_snapshot_wf] show ?thesis
  proof (elim exE conjE)
    fix loads assume "map fst loads = dp_DomainIDs plan"
      "mset (concat (map snd loads)) = mset (demand_units (hs_Demand ex_spec))"
    with p u show ?thesis by (intro exI[of _ plan] exI[of _ loads]) simp
  qed
qed

text \<open>C3: A plan drains only domains without another hero, all of one group, whose every victim is below the
  hero's priority; it taints exactly the nodes of those domains, evicts exactly their victims, each once,
  and its total cost is the sum of the costs of those victims.\<close>

theorem plan_is_safe:
  assumes "SelectDomains s hero wls cfg now = Inr plan" "wf_snapshot s"
  shows "\<exists>ds g. map d_ID ds = dp_DomainIDs plan \<and> distinct (dp_DomainIDs plan) \<and>
     (\<forall>d \<in> set ds. map_of (s_Domains s) (d_ID d) = Some d \<and> \<not> d_HasOtherHero d \<and> d_Group d = g \<and>
        (\<forall>v \<in> set (GroupVictims d wls now). sint (vw_Priority v) < sint (hs_Priority hero))) \<and>
     dp_Nodes plan = concat (map d_Nodes ds) \<and>
     distinct (map vw_Key (dp_Victims plan)) \<and>
     vw_Key ` set (dp_Victims plan) = (\<Union>d \<in> set ds. vw_Key ` set (GroupVictims d wls now)) \<and>
     set (dp_Victims plan) \<subseteq> (\<Union>d \<in> set ds. set (GroupVictims d wls now)) \<and>
     dp_TotalCost plan = total_cost hero cfg (dp_Victims plan)"
proof -
  obtain ch g where ch: "\<And>x. x \<in> set ch \<Longrightarrow> selected_ok s hero wls now g x"
    "distinct (map (\<lambda>x. d_ID (c_domain (fst x))) ch)" "plan_ok hero cfg plan"
    "dp_DomainIDs plan = map (\<lambda>x. d_ID (c_domain (fst x))) ch"
    "dp_Nodes plan = concat (map (\<lambda>x. d_Nodes (c_domain (fst x))) ch)"
    "vw_Key ` set (dp_Victims plan) = (\<Union>x \<in> set ch. vw_Key ` set (c_victims (fst x)))"
    "set (dp_Victims plan) \<subseteq> (\<Union>x \<in> set ch. set (c_victims (fst x)))"
    using plan_selected[OF assms] by metis
  let ?ds = "map (\<lambda>x. c_domain (fst x)) ch"
  have v: "c_victims (fst x) = GroupVictims (c_domain (fst x)) wls now" if "x \<in> set ch" for x
    using ch(1)[OF that] by (simp add: selected_ok_def)
  have "\<forall>d \<in> set ?ds. map_of (s_Domains s) (d_ID d) = Some d \<and> \<not> d_HasOtherHero d \<and> d_Group d = g \<and>
        (\<forall>v \<in> set (GroupVictims d wls now). sint (vw_Priority v) < sint (hs_Priority hero))"
    using ch(1) by (simp add: selected_ok_def drainable_def)
  moreover have "vw_Key ` set (dp_Victims plan) = (\<Union>d \<in> set ?ds. vw_Key ` set (GroupVictims d wls now))"
    "set (dp_Victims plan) \<subseteq> (\<Union>d \<in> set ?ds. set (GroupVictims d wls now))"
    using ch(6,7) v by simp_all
  ultimately show ?thesis
    using ch(2-5) by (intro exI[of _ ?ds] exI[of _ g]) (simp add: plan_ok_def comp_def)
qed

theorem plan_is_safe_witness:
  "\<exists>plan (ds :: Domain list). ex_plan = Inr plan \<and> map d_ID ds = [''b1'', ''b2''] \<and> dp_Nodes plan = concat (map d_Nodes ds)"
proof -
  obtain plan where p: "ex_plan = Inr plan" "dp_DomainIDs plan = [''b1'', ''b2'']"
    using ex_plan_ids by blast
  from plan_is_safe[OF p(1)[unfolded ex_plan_def] ex_snapshot_wf] show ?thesis
  proof (elim exE conjE)
    fix ds :: "Domain list" assume "map d_ID ds = dp_DomainIDs plan" "dp_Nodes plan = concat (map d_Nodes ds)"
    with p show ?thesis by (intro exI[of _ plan] exI[of _ ds]) simp
  qed
qed

text \<open>C16: The selection is exactly the cheapest greedy plan: it returns a plan just when the demand is not
  empty and the plan is what the greedy packing makes of the drainable domains of some group, strictly cheaper
  than the plan of any earlier group in order of the group labels and no dearer than that of any other.\<close>

theorem plan_is_cheapest_group:
  "SelectDomains s hero wls cfg now = Inr plan \<longleftrightarrow>
     demand_units (hs_Demand hero) \<noteq> [] \<and>
     (let greedy = (\<lambda>g. packWithinGroup (group_candidates hero wls cfg now (sorted_domains s) g)
             (demand_units (hs_Demand hero)) hero cfg)
      in \<exists>g. greedy g = Some plan \<and>
           (\<forall>h p. greedy h = Some p \<longrightarrow> dp_TotalCost plan \<le> dp_TotalCost p \<and> (h < g \<longrightarrow> dp_TotalCost plan < dp_TotalCost p)))"
  (is "?S \<longleftrightarrow> _ \<and> ?best plan")
proof -
  let ?greedy = "group_plan s hero wls cfg now"
  have best: "?best q \<longleftrightarrow> (\<exists>g. ?greedy g = Some q \<and>
      (\<forall>h p. ?greedy h = Some p \<longrightarrow> dp_TotalCost q \<le> dp_TotalCost p \<and> (h < g \<longrightarrow> dp_TotalCost q < dp_TotalCost p)))" for q
    by (simp add: group_plan_def Let_def)
  have returned: "demand_units (hs_Demand hero) \<noteq> [] \<and> ?best q" if "SelectDomains s hero wls cfg now = Inr q" for q
    unfolding best using SelectDomains_Inr(2-4)[OF that] by metis
  have "?S" if plan: "demand_units (hs_Demand hero) \<noteq> []" "?best plan"
  proof (cases "SelectDomains s hero wls cfg now")
    case (Inl r)
    with plan show ?thesis using SelectDomains_Inl[of s hero wls cfg now r] unfolding best by auto
  next
    case (Inr q)
    from returned[OF Inr] plan(2) obtain g h where
      "?greedy g = Some plan" "\<And>i p. ?greedy i = Some p \<Longrightarrow> dp_TotalCost plan \<le> dp_TotalCost p"
      "\<And>i p. ?greedy i = Some p \<Longrightarrow> i < g \<Longrightarrow> dp_TotalCost plan < dp_TotalCost p"
      "?greedy h = Some q" "\<And>i p. ?greedy i = Some p \<Longrightarrow> dp_TotalCost q \<le> dp_TotalCost p"
      "\<And>i p. ?greedy i = Some p \<Longrightarrow> i < h \<Longrightarrow> dp_TotalCost q < dp_TotalCost p"
      unfolding best by blast
    then have "g = h" by (metis linorder_less_linear not_le)
    with \<open>?greedy g = Some plan\<close> \<open>?greedy h = Some q\<close> Inr show ?thesis by simp
  qed
  with returned show ?thesis by blast
qed

theorem plan_is_cheapest_group_witness:
  "\<exists>plan. ex_plan = Inr plan \<and> group_plan ex_snapshot ex_spec ex_workloads ex_config (10 * hour) [] = Some plan \<and>
     dp_DomainIDs plan = [''b1'', ''b2'']"
proof -
  obtain plan where p: "ex_plan = Inr plan" "dp_DomainIDs plan = [''b1'', ''b2'']" using ex_plan_ids by blast
  from p(1)[unfolded ex_plan_def plan_is_cheapest_group] obtain g where
    g: "group_plan ex_snapshot ex_spec ex_workloads ex_config (10 * hour) g = Some plan"
    "demand_units (hs_Demand ex_spec) \<noteq> []"
    by (auto simp: group_plan_def Let_def)
  have "g = []"
  proof (rule ccontr)
    assume "g \<noteq> []"
    have "list_all (\<lambda>d. d_Group d = []) (sorted_domains ex_snapshot)" by code_simp
    with \<open>g \<noteq> []\<close> have "group_candidates ex_spec ex_workloads ex_config (10 * hour) (sorted_domains ex_snapshot) g = []"
      by (auto simp: group_candidates_def filter_empty_conv list_all_iff)
    with g show False by (simp add: group_plan_def pack_nothing)
  qed
  with g p show ?thesis by blast
qed

text \<open>C17: Without a plan the reason is exact: the selector reports that feasible domains are hero-occupied
  exactly when the demand is not empty, no group packs it, and some domain hosts another hero; otherwise it
  reports that there are no feasible domains.\<close>

theorem no_plan_reason:
  "SelectDomains s hero wls cfg now = Inl r \<longleftrightarrow>
     (demand_units (hs_Demand hero) = [] \<or>
      (\<forall>g. packWithinGroup (group_candidates hero wls cfg now (sorted_domains s) g)
             (demand_units (hs_Demand hero)) hero cfg = None)) \<and>
     r = (if demand_units (hs_Demand hero) \<noteq> [] \<and> (\<exists>d \<in> set (sorted_domains s). d_HasOtherHero d)
          then AllFeasibleHeroOccupied else NoFeasibleDomains)"
  unfolding SelectDomains_Inl group_plan_def by auto

text \<open>C22: The result does not depend on the iteration order of the snapshot's map of domains.\<close>

theorem selection_ignores_map_order:
  assumes "distinct (map fst (s_Domains s))" "distinct (map fst (s_Domains s'))"
    and "map_of (s_Domains s) = map_of (s_Domains s')"
  shows "SelectDomains s hero wls cfg now = SelectDomains s' hero wls cfg now"
proof -
  have "set (map fst (s_Domains s)) = set (map fst (s_Domains s'))"
    using assms(3) by (metis dom_map_of_conv_image_fst list.set_map)
  then have "sort (map fst (s_Domains s)) = sort (map fst (s_Domains s'))"
    using assms(1,2) by (intro sorted_distinct_set_unique) simp_all
  then have "sorted_domains s = sorted_domains s'"
    unfolding sorted_domains_def assms(3) by (simp only:)
  then show ?thesis by (simp add: SelectDomains_def)
qed

theorem selection_ignores_map_order_witness:
  "SelectDomains (ex_snapshot\<lparr>s_Domains := rev (s_Domains ex_snapshot)\<rparr>) ex_spec ex_workloads ex_config (10 * hour)
     = ex_plan"
  unfolding ex_plan_def
  by (rule selection_ignores_map_order) (auto simp: ex_snapshot_def)

lemma SelectDomains_plan_iff:
  "(\<exists>plan. SelectDomains s hero wls cfg now = Inr plan) \<longleftrightarrow>
     demand_units (hs_Demand hero) \<noteq> [] \<and> (\<exists>g. group_plan s hero wls cfg now g \<noteq> None)"
proof (cases "SelectDomains s hero wls cfg now")
  case (Inl r)
  then show ?thesis using SelectDomains_Inl[of s hero wls cfg now r] by auto
next
  case (Inr plan)
  then show ?thesis using SelectDomains_Inr(1,3)[OF Inr] by auto
qed

lemma replicate_units: "demand_units [\<lparr>ch_Size = u, ch_Count = int n\<rparr>] = replicate n u"
proof -
  have "insort u (replicate k u) = u # replicate k u" for k by (cases k) simp_all
  then have "sort (replicate n u) = replicate n u" by (induction n) simp_all
  then show ?thesis by (simp add: demand_units_def go_range_def)
qed

text \<open>C31: For a demand of equal units the greedy packing is complete and exact: there is a plan exactly when
  the drainable domains of one group hold the units, counting whole units per domain.\<close>

theorem uniform_demand_complete:
  assumes "0 < u" "0 < n" "hs_Demand hero = [\<lparr>ch_Size = u, ch_Count = int n\<rparr>]"
  shows "(\<exists>plan. SelectDomains s hero wls cfg now = Inr plan) \<longleftrightarrow>
     (\<exists>g. int n \<le> sum_list (map (\<lambda>d. reclaimable d div u)
        (filter (\<lambda>d. drainable hero wls now d \<and> d_Group d = g) (sorted_domains s))))"
proof -
  have units: "demand_units (hs_Demand hero) = replicate n u" by (simp add: assms(3) replicate_units)
  have fits: "group_plan s hero wls cfg now g \<noteq> None \<longleftrightarrow>
      int n \<le> sum_list (map (\<lambda>d. reclaimable d div u)
        (filter (\<lambda>d. drainable hero wls now d \<and> d_Group d = g) (sorted_domains s)))" for g
  proof -
    let ?cs = "map reset_candidate (group_candidates hero wls cfg now (sorted_domains s) g)"
    have "\<forall>c \<in> set ?cs. 0 \<le> c_remaining c"
      by (auto simp: reset_candidate_def reclaimable_def)
    from place_units_uniform[OF assms(1) this, of n] show ?thesis
      by (simp add: group_plan_def packWithinGroup_def units reset_candidate_def group_candidates_def
          candidate_of_def comp_def)
  qed
  show ?thesis
    using assms(2) unfolding SelectDomains_plan_iff by (simp only: fits) (simp add: units)
qed

theorem uniform_demand_complete_witness:
  "\<exists>plan. SelectDomains ex_snapshot ex_spec ex_workloads ex_config (10 * hour) = Inr plan"
proof -
  have "int 3 \<le> sum_list (map (\<lambda>d. reclaimable d div 16)
      (filter (\<lambda>d. drainable ex_spec ex_workloads (10 * hour) d \<and> d_Group d = []) (sorted_domains ex_snapshot)))"
    by code_simp
  moreover have "hs_Demand ex_spec = [\<lparr>ch_Size = 16, ch_Count = int 3\<rparr>]" by (simp add: ex_spec_def)
  ultimately show ?thesis
    using uniform_demand_complete[of 16 3 ex_spec ex_snapshot ex_workloads ex_config "10 * hour"] by fastforce
qed

text \<open>A demand that fits into one drainable domain as a whole always has a plan.\<close>

theorem single_domain_complete:
  assumes "drainable hero wls now d" "d \<in> set (sorted_domains s)"
    and "sum_list (demand_units (hs_Demand hero)) \<le> reclaimable d"
    and "demand_units (hs_Demand hero) \<noteq> []" "\<forall>u \<in> set (demand_units (hs_Demand hero)). 0 \<le> u"
  shows "\<exists>plan. SelectDomains s hero wls cfg now = Inr plan"
proof -
  let ?cs = "group_candidates hero wls cfg now (sorted_domains s) (d_Group d)"
  let ?c = "reset_candidate (candidate_of hero cfg (GroupVictims d wls now) d)"
  have "?c \<in> set (map reset_candidate ?cs)" using assms(1,2) by (auto simp: group_candidates_def)
  moreover have "c_remaining ?c = reclaimable d" by (simp add: reset_candidate_def candidate_of_def)
  ultimately have "place_units (map reset_candidate ?cs) (demand_units (hs_Demand hero)) \<noteq> None"
    using assms(3,5) place_units_one_domain[of ?c] by simp
  then have "group_plan s hero wls cfg now (d_Group d) \<noteq> None"
    by (simp add: group_plan_def packWithinGroup_def)
  with assms(4) show ?thesis
    unfolding SelectDomains_plan_iff by blast
qed

theorem single_domain_complete_witness:
  "\<exists>plan. SelectDomains ex_snapshot (ex_spec\<lparr>hs_Demand := [\<lparr>ch_Size = 16, ch_Count = 2\<rparr>]\<rparr>) ex_workloads ex_config 0
     = Inr plan"
proof (rule single_domain_complete)
  let ?h = "ex_spec\<lparr>hs_Demand := [\<lparr>ch_Size = 16, ch_Count = 2\<rparr>]\<rparr>"
  show "drainable ?h ex_workloads 0 (ex_domain ''b1'' 32 [])"
    by (simp add: drainable_def ex_domain_def reclaimable_def GroupVictims_def)
  show "ex_domain ''b1'' 32 [] \<in> set (sorted_domains ex_snapshot)"
    using ex_snapshot_wf by (simp add: set_sorted_domains wf_snapshot_def) (simp add: ex_snapshot_def)
  have "demand_units (hs_Demand ?h) = [16, 16]" by code_simp
  then show "sum_list (demand_units (hs_Demand ?h)) \<le> reclaimable (ex_domain ''b1'' 32 [])"
    "demand_units (hs_Demand ?h) \<noteq> []" "\<forall>u \<in> set (demand_units (hs_Demand ?h)). 0 \<le> u"
    by (simp_all add: reclaimable_def ex_domain_def)
qed


definition mixed_spec :: HeroSpec where
  "mixed_spec = ex_spec\<lparr>hs_Demand := [\<lparr>ch_Size = 6, ch_Count = 1\<rparr>, \<lparr>ch_Size = 4, ch_Count = 3\<rparr>]\<rparr>"

definition mixed_snapshot :: Snapshot where
  "mixed_snapshot = \<lparr>s_Level = ''block'', s_Domains =
     [(''a'', ex_domain ''a'' 8 []),
      (''b'', ex_domain ''b'' 10 [\<lparr>vic_Pod = NamespacedName ''b'' ''p'', vic_Node = ''b-n'',
         vic_Workload = NamespacedName ''b'' ''job'', vic_GPURequest = 8\<rparr>])]\<rparr>"

text \<open>The greedy choice is not complete for mixed units: these two domains hold 6 + 4 and 4 + 4, yet the
  first unit goes to the cheap domain of 8 and the demand is refused as having no feasible domains.\<close>

theorem greedy_incomplete:
  "SelectDomains mixed_snapshot mixed_spec ex_workloads ex_config (10 * hour) = Inl NoFeasibleDomains \<and>
   mset (demand_units (hs_Demand mixed_spec)) = mset ([4, 4] @ [6, 4]) \<and>
   sum_list [4, 4] \<le> reclaimable (snd (s_Domains mixed_snapshot ! 0)) \<and>
   sum_list [6, 4] \<le> reclaimable (snd (s_Domains mixed_snapshot ! 1))"
proof (intro conjI)
  show "SelectDomains mixed_snapshot mixed_spec ex_workloads ex_config (10 * hour) = Inl NoFeasibleDomains"
    by code_simp
  have "demand_units (hs_Demand mixed_spec) = [6, 4, 4, 4]" by code_simp
  then show "mset (demand_units (hs_Demand mixed_spec)) = mset ([4, 4] @ [6, 4])" by simp
qed (simp_all add: mixed_snapshot_def ex_domain_def reclaimable_def)

text \<open>C37: For a demand of mixed units the greedy packing misses a plan only for want of slack: when the drainable
  domains of one group can reclaim the demand and, for each of them but one, one unit of the largest size less
  the smallest quantity, there is a plan.\<close>

theorem slack_suffices:
  assumes "demand_units (hs_Demand hero) \<noteq> []" "\<forall>u \<in> set (demand_units (hs_Demand hero)). 0 < u \<and> u \<le> m"
    and "ds = filter (\<lambda>d. drainable hero wls now d \<and> d_Group d = g) (sorted_domains s)" "ds \<noteq> []"
    and "sum_list (demand_units (hs_Demand hero)) + (int (length ds) - 1) * (m - 1) \<le> sum_list (map reclaimable ds)"
  shows "\<exists>plan. SelectDomains s hero wls cfg now = Inr plan"
proof -
  let ?cs = "map reset_candidate (group_candidates hero wls cfg now (sorted_domains s) g)"
  have "?cs = map (\<lambda>d. reset_candidate (candidate_of hero cfg (GroupVictims d wls now) d)) ds"
    by (simp add: group_candidates_def assms(3))
  then have "?cs \<noteq> []" "length ?cs = length ds" "map c_remaining ?cs = map reclaimable ds"
    using assms(4) by (simp_all add: reset_candidate_def candidate_of_def comp_def)
  then have "place_units ?cs (demand_units (hs_Demand hero)) \<noteq> None"
    using assms(2,5) by (intro place_units_slack[where m = m]) simp_all
  then have "group_plan s hero wls cfg now g \<noteq> None" by (simp add: group_plan_def packWithinGroup_def)
  with assms(1) show ?thesis unfolding SelectDomains_plan_iff by blast
qed

text \<open>The mixed demand above has a plan on domains that leave that slack.\<close>

definition roomy_snapshot :: Snapshot where
  "roomy_snapshot = \<lparr>s_Level = ''block'', s_Domains =
     [(''a'', ex_domain ''a'' 11 []), (''b'', ex_domain ''b'' 12 [])]\<rparr>"

theorem slack_suffices_witness:
  "\<exists>plan. SelectDomains roomy_snapshot mixed_spec ex_workloads ex_config (10 * hour) = Inr plan"
proof (rule slack_suffices[where m = 6 and g = "[]" and ds = "[ex_domain ''a'' 11 [], ex_domain ''b'' 12 []]"])
  have u: "demand_units (hs_Demand mixed_spec) = [6, 4, 4, 4]" by code_simp
  then show "demand_units (hs_Demand mixed_spec) \<noteq> []" "\<forall>u \<in> set (demand_units (hs_Demand mixed_spec)). 0 < u \<and> u \<le> 6"
    by simp_all
  show "sum_list (demand_units (hs_Demand mixed_spec)) + (int (length [ex_domain ''a'' 11 [], ex_domain ''b'' 12 []]) - 1) * (6 - 1)
      \<le> sum_list (map reclaimable [ex_domain ''a'' 11 [], ex_domain ''b'' 12 []])"
    unfolding u by (simp add: reclaimable_def ex_domain_def)
  have "sorted_domains roomy_snapshot = [ex_domain ''a'' 11 [], ex_domain ''b'' 12 []]" 
    by (simp add: sorted_domains_def roomy_snapshot_def)
  then show "[ex_domain ''a'' 11 [], ex_domain ''b'' 12 []]
      = filter (\<lambda>d. drainable mixed_spec ex_workloads (10 * hour) d \<and> d_Group d = []) (sorted_domains roomy_snapshot)"
    by (simp add: drainable_def ex_domain_def reclaimable_def GroupVictims_def)
qed simp

subsection \<open>The snapshot\<close>

text \<open>C14: On nodes with distinct names and decoded assignments with one value per level, \<open>Build\<close> does not panic
  and returns one domain per non-empty value of the level label, each exactly as specified from the nodes, pods
  and heroes alone: its nodes in order, the first non-empty group label, the GPUs of the nodes open to this hero,
  the victims among the live GPU pods on its nodes, the GPUs of the unmanaged, not tolerated ones on nodes open
  to the hero, and whether the assignment of another hero names the domain, or a host in it.\<close>

theorem Build_refines_spec:
  assumes "distinct (map node_Name (in_Nodes inp))" "decodable L (in_OtherHeroes inp)"
  shows "\<exists>s. Build L inp = Some s \<and> s_Level s = in_Level inp \<and> distinct (map fst (s_Domains s)) \<and>
     map_of (s_Domains s) =
       (\<lambda>did. if did \<noteq> [] \<and> did \<in> (\<lambda>n. mget (node_Labels n) (in_Level inp)) ` set (in_Nodes inp)
        then Some (domain_spec L inp did) else None)"
  using Build_spec[OF assms] .

definition ex_input :: Input where
  "ex_input = \<lparr>in_Level = ''block'', in_GroupLevel = [], in_Nodes = [ex_node ''n1'' ''b1'', ex_node ''n2'' ''b2''],
     in_Pods = [], in_OtherHeroes = [ex_hero\<lparr>wl_Key := NamespacedName ''c'' ''h2'',
       wl_Admission := Some \<lparr>adm_ClusterQueue = ''hq'', adm_PodSetAssignments = [\<lparr>psa_Name = ''main'',
         psa_Count = Some 2, psa_TopologyAssignment = Some \<lparr>ta_Levels = [''block''], ta_Slices = []\<rparr>\<rparr>]\<rparr>\<rparr>],
     in_Self = ex_hero_key, in_Cfg = ex_config\<rparr>"

theorem Build_refines_spec_witness:
  "\<exists>s. Build ex_lib ex_input = Some s \<and> map_of (s_Domains s) ''b1'' = Some (domain_spec ex_lib ex_input ''b1'')"
proof -
  have "decodable ex_lib (in_OtherHeroes ex_input)" "distinct (map node_Name (in_Nodes ex_input))"
    by (simp_all add: decodable_def ex_lib_decodes ex_input_def ex_node_def)
  from Build_refines_spec[OF this(2,1)] obtain s where s: "Build ex_lib ex_input = Some s"
    "map_of (s_Domains s) = (\<lambda>did. if did \<noteq> [] \<and> did \<in> (\<lambda>n. mget (node_Labels n) (in_Level ex_input)) ` set (in_Nodes ex_input)
       then Some (domain_spec ex_lib ex_input did) else None)" by blast
  have "(\<lambda>n. mget (node_Labels n) (in_Level ex_input)) ` set (in_Nodes ex_input) = {''b1'', ''b2''}"
    by (simp add: ex_input_def ex_node_def mget_def)
  with s show ?thesis by simp
qed

text \<open>A node counts toward capacity exactly when it is schedulable, Ready, and every NoSchedule or
  NoExecute taint on it is the drain taint key of a node this very hero drains.\<close>

theorem NodeUsable_iff:
  "NodeUsable n key self \<longleftrightarrow>
     \<not> node_Unschedulable n \<and> nodeIsReady n \<and>
     (\<forall>t \<in> set (node_Taints n). taint_Effect t = NoSchedule \<or> taint_Effect t = NoExecute \<longrightarrow>
        taint_Key t = key \<and> Owner n key = Some self)"
proof -
  have "self \<noteq> zero_name" if "Owner n key = Some self"
    using that by (auto simp: Owner_Some wf_key_def zero_name_def)
  then show ?thesis by (auto simp: NodeUsable_def usable_loop_iff)
qed

theorem NodeUsable_iff_witness:
  "NodeUsable (add_drain_taint ''k'' ex_hero_key ''hq'' 0 (ex_node ''n1'' ''b1'')) ''k'' ex_hero_key"
proof -
  have "Owner (add_drain_taint ''k'' ex_hero_key ''hq'' 0 (ex_node ''n1'' ''b1'')) ''k'' = Some ex_hero_key"
    by (rule Owner_add_drain_taint) (simp add: wf_key_def ex_hero_key_def)
  then show ?thesis
    by (simp add: NodeUsable_iff)
      (simp add: add_drain_taint_def drain_taint_def ex_node_def nodeIsReady_def NodeReady_def Let_def)
qed

subsection \<open>Cost\<close>

text \<open>C32: With validated weights and pod counts that do not overflow, a victim's cost is not negative and at
  most the multiplier (1 for the hero's own queue, the cross-queue multiplier otherwise) times the weight sum,
  in the rounded arithmetic of the code.\<close>

theorem Cost_bounds:
  assumes "wf_cost_config cfg" "counts_fit v hero"
    and "fl (w_Priority (cfg_Weights cfg)) = w_Priority (cfg_Weights cfg)"
    and "fl (w_PodCount (cfg_Weights cfg)) = w_PodCount (cfg_Weights cfg)"
    and "fl (w_Runtime (cfg_Weights cfg)) = w_Runtime (cfg_Weights cfg)"
  shows "0 \<le> Cost v hero cfg \<and>
     Cost v hero cfg \<le> fmul (if vw_ClusterQueue v \<noteq> hs_ClusterQueue hero then cfg_CrossCQMultiplier cfg else 1)
       (weights_sum (cfg_Weights cfg))"
  using Cost_nonneg[OF assms(1,2)] Cost_upper[OF assms] by (simp add: multiplier_def)

theorem Cost_bounds_witness:
  "0 \<le> Cost (victim_workload (NamespacedName ''b'' ''job'') ex_victim (10 * hour)) ex_spec ex_config \<and>
   Cost (victim_workload (NamespacedName ''b'' ''job'') ex_victim (10 * hour)) ex_spec ex_config \<le> 5"
proof -
  let ?v = "victim_workload (NamespacedName ''b'' ''job'') ex_victim (10 * hour)"
  have w: "wf_cost_config ex_config" by (simp add: wf_cost_config_def ex_defs duration_units)
  have c: "counts_fit ?v ex_spec"
    by (simp add: counts_fit_def victim_workload_def admittedPodCount_def admitted_total_def ex_victim_def
        ex_spec_def)
  have f: "fl (w_Priority (cfg_Weights ex_config)) = w_Priority (cfg_Weights ex_config)"
    "fl (w_PodCount (cfg_Weights ex_config)) = w_PodCount (cfg_Weights ex_config)"
    "fl (w_Runtime (cfg_Weights ex_config)) = w_Runtime (cfg_Weights ex_config)"
    by code_simp+
  have "fmul (if vw_ClusterQueue ?v \<noteq> hs_ClusterQueue ex_spec then cfg_CrossCQMultiplier ex_config else 1)
       (weights_sum (cfg_Weights ex_config)) = 5" by code_simp
  with Cost_bounds[OF w c f] show ?thesis by simp
qed

text \<open>Between victims of the same queue and age the cost never falls with priority or pod count.\<close>

theorem Cost_monotone:
  assumes "wf_cost_config cfg" "counts_fit v hero" "counts_fit v' hero"
    and "vw_ClusterQueue v' = vw_ClusterQueue v" "vw_RunningFor v' = vw_RunningFor v"
    and "sint (vw_Priority v) \<le> sint (vw_Priority v')" "sint (vw_PodCount v) \<le> sint (vw_PodCount v')"
  shows "Cost v hero cfg \<le> Cost v' hero cfg"
  using Cost_mono[OF assms] .

theorem Cost_monotone_witness:
  "Cost (victim_workload (NamespacedName ''b'' ''job'') ex_victim (10 * hour)) ex_spec ex_config
     \<le> Cost (victim_workload (NamespacedName ''b'' ''job'') (ex_victim\<lparr>wl_Priority := Some 60\<rparr>) (10 * hour)) ex_spec ex_config"
  by (rule Cost_monotone)
    (simp_all add: wf_cost_config_def counts_fit_def victim_workload_def admittedPodCount_def admitted_total_def
      specPriority_def admittedClusterQueue_def runningFor_def FindStatusCondition_def ex_victim_def ex_spec_def ex_defs duration_units)

text \<open>\<open>GroupVictims\<close> lists each workload owning a victim pod of the domain exactly once, provided the
  workload still exists, with the cost fields of the whole workload.\<close>

theorem GroupVictims_spec:
  "distinct (map vw_Key (GroupVictims d workloads now)) \<and>
   set (GroupVictims d workloads now) =
     {victim_workload k wl now | k wl. k \<in> vic_Workload ` set (d_Victims d) \<and> workloads k = Some wl}"
proof -
  have keys: "distinct (map vw_Key (GroupVictims d workloads now))"
    "vw_Key ` set (GroupVictims d workloads now) = {k. k \<in> vic_Workload ` set (d_Victims d) \<and> workloads k \<noteq> None}"
    using group_victims_loop_keys[of workloads now "[]" "d_Victims d"] by (simp_all add: GroupVictims_def)
  have entry: "\<exists>wl. workloads (vw_Key x) = Some wl \<and> x = victim_workload (vw_Key x) wl now"
    if "x \<in> set (GroupVictims d workloads now)" for x
    using group_victims_loop_entries that by (simp add: GroupVictims_def)
  have "set (GroupVictims d workloads now) \<subseteq>
      {victim_workload k wl now | k wl. k \<in> vic_Workload ` set (d_Victims d) \<and> workloads k = Some wl}"
    using entry keys(2) by blast
  moreover have "victim_workload k wl now \<in> set (GroupVictims d workloads now)"
    if "k \<in> vic_Workload ` set (d_Victims d)" "workloads k = Some wl" for k wl
  proof -
    from that keys(2) have "k \<in> vw_Key ` set (GroupVictims d workloads now)" by simp
    then obtain x where x: "x \<in> set (GroupVictims d workloads now)" "vw_Key x = k" by blast
    from entry[OF x(1)] x(2) that(2) have "x = victim_workload k wl now" by simp
    with x(1) show ?thesis by simp
  qed
  ultimately show ?thesis using keys(1) by blast
qed

end
