(* ===== verification/Drain_Properties.thy ===== *)
theory Drain_Properties
  imports Decision Selection_Properties
begin

text \<open>
  Properties of the drain controller, each with a concrete instance: what a reconcile may write in any
  environment, when it drains, what it does to the victims, how a drain ends.
\<close>

subsection \<open>A cluster with a stuck hero and a victim\<close>

definition ex_pod :: pod where
  "ex_pod = \<lparr>pod_Key = NamespacedName ''b'' ''p'', pod_Labels = Map.empty,
     pod_Annotations = [WorkloadAnnotation \<mapsto> ''job''], pod_ManagedFields = [], pod_OwnerReferences = [],
     pod_Finalizers = [], pod_DeletionTimestamp = None, pod_NodeName = ''n1'',
     pod_Containers = [\<lparr>ctr_Requests = [''nvidia.com/gpu'' \<mapsto> 8 * 10 ^ 9], ctr_Limits = Map.empty, ctr_rest = []\<rparr>],
     pod_spec_rest = [], pod_Phase = PodRunning, pod_status_rest = []\<rparr>"

definition ex_job :: workload where
  "ex_job = ex_victim\<lparr>wl_Admission := Some \<lparr>adm_ClusterQueue = ''hq'', adm_PodSetAssignments =
     [\<lparr>psa_Name = ''main'', psa_Count = Some 1, psa_TopologyAssignment = None\<rparr>]\<rparr>\<rparr>"

definition ex_cluster :: world where
  "ex_cluster = ex_world [ex_node ''n1'' ''b1''] [ex_hero, ex_job] [ex_pod]"

lemma ex_cluster_wf:
  "quiet ex_cluster" "versions_ok ex_cluster" "w_Log ex_cluster = []" "wf_key ex_hero_key"
  "distinct (map wl_Key (w_Workloads ex_cluster))" "distinct (map node_Name (w_Nodes ex_cluster))"
  by (simp_all add: quiet_def versions_ok_new nodes_ok_def ex_cluster_def ex_world_def ex_node_def wf_key_def ex_hero_key_def
      ex_job_def ex_victim_def ex_hero_def)

lemma ex_cluster_hero: "find_workload ex_hero_key (w_Workloads ex_cluster) = Some ex_hero"
  by (simp add: find_workload_def ex_cluster_def ex_world_def ex_hero_def)

definition ex_idle_cluster :: world where
  "ex_idle_cluster = ex_world [ex_node ''n1'' ''b1''] [ex_hero] []"

lemma ex_idle_wf:
  "quiet ex_idle_cluster" "versions_ok ex_idle_cluster" "w_Log ex_idle_cluster = []"
  by (simp_all add: quiet_def versions_ok_new nodes_ok_def ex_idle_cluster_def ex_world_def ex_node_def)

subsection \<open>What a reconcile writes\<close>



subsection \<open>The decision\<close>

text \<open>C10: In an undisturbed cluster \<open>Reconcile\<close> performs the decision its specification takes from the
  cluster: nothing for a workload that is gone, else the action of \<open>decide\<close>.\<close>

theorem reconcile_refines_decision:
  assumes "quiet w"
  shows "Drain_Ctrl.Reconcile L cfg req w =
     (case find_workload req (w_Workloads w) of
        None \<Rightarrow> (Inr no_requeue, w)
      | Some wl \<Rightarrow> perform L cfg req wl (decide L cfg w req wl) w)"
  using Reconcile_decides[OF assms] .

theorem reconcile_refines_decision_witness:
  "Drain_Ctrl.Reconcile ex_lib ex_config (NamespacedName ''b'' ''job'') ex_cluster = (Inr no_requeue, ex_cluster)"
proof -
  have "find_workload (NamespacedName ''b'' ''job'') (w_Workloads ex_cluster) = Some ex_job"
    by (simp add: find_workload_def ex_cluster_def ex_world_def ex_job_def ex_victim_def ex_hero_def ex_hero_key_def)
  moreover have "case decide ex_lib ex_config ex_cluster (NamespacedName ''b'' ''job'') ex_job of
      Ignored \<Rightarrow> True | _ \<Rightarrow> False"
    by code_simp
  then have "decide ex_lib ex_config ex_cluster (NamespacedName ''b'' ''job'') ex_job = Ignored"
    by (simp split: decision.splits)
  ultimately show ?thesis
    by (simp add: reconcile_refines_decision[OF ex_cluster_wf(1)] ret_def)
qed

text \<open>The gates before a plan.\<close>

lemma planned_only_if:
  assumes "decide L cfg w req wl = Served cq n (Planned plan own)"
  shows "wl_Annotations wl DeactivatedForAnnotation = None \<and> \<not> deactivated wl \<and>
     cq_of w wl = Some cq \<and> IsHero wl (Some cq) cfg = ReasonIsHero \<and>
     IsStuckTASNoFit wl (cfg_StuckDetection cfg) \<and>
     GPURequest wl (cfg_GPUResourceName cfg) \<le> gpuNominalQuota cq (cfg_GPUResourceName cfg) \<and>
     node_owners (cfg_TaintKey cfg) (w_Nodes w) \<subseteq> {req} \<and>
     (node_owners (cfg_TaintKey cfg) (w_Nodes w) = {req} \<or> next_in_line L (stuck_heroes cfg w) wl) \<and>
     (\<exists>level group snap. levels_in w wl cq = Some (level, group) \<and> snapshot_in L cfg w req level group = Some snap \<and>
        SelectDomains snap (hero_spec cfg req wl cq) (workload_map (w_Workloads w)) cfg (w_Now w) = Inr plan)"
proof -
  have head: "wl_Annotations wl DeactivatedForAnnotation = None \<and> \<not> deactivated wl \<and> cq_of w wl = Some cq \<and>
      is_hero_in cfg w wl \<and> decide_hero L cfg w req wl cq = Planned plan own"
    using assms by (auto simp: decide_def split: option.splits if_splits)
  then have hero: "decide_hero L cfg w req wl cq = Planned plan own" by blast
  then have stuck: "IsStuckTASNoFit wl (cfg_StuckDetection cfg)" "BlockingDrain (drains_in cfg w) req = None"
    "\<not> gpuNominalQuota cq (cfg_GPUResourceName cfg) < GPURequest wl (cfg_GPUResourceName cfg)"
    "map_of (drains_in cfg w) req \<noteq> None \<or> next_in_line L (stuck_heroes cfg w) wl"
    "decide_plan L cfg w req wl cq (map_of (drains_in cfg w) req) = Planned plan own"
    by (auto simp: decide_hero_def Let_def split: option.splits if_splits)
  have owners: "fst ` set (drains_in cfg w) = node_owners (cfg_TaintKey cfg) (w_Nodes w)"
    by (simp add: drains_in_def FindDrains_keys node_owners_def)
  have "node_owners (cfg_TaintKey cfg) (w_Nodes w) \<subseteq> {req}"
    using not_blocked_owners[OF stuck(2)] by (simp add: owners)
  moreover from this have "node_owners (cfg_TaintKey cfg) (w_Nodes w) = {req}" if "map_of (drains_in cfg w) req \<noteq> None"
    using that owners by (auto simp: map_of_eq_None_iff)
  moreover have "\<exists>level group snap. levels_in w wl cq = Some (level, group) \<and>
      snapshot_in L cfg w req level group = Some snap \<and>
      SelectDomains snap (hero_spec cfg req wl cq) (workload_map (w_Workloads w)) cfg (w_Now w) = Inr plan"
    using stuck(5) by (auto simp: decide_plan_def split: option.splits sum.splits)
  ultimately show ?thesis
    using head stuck(1,3,4) by (auto simp: is_hero_in_def)
qed

text \<open>No update of a node that leaves it with an owner, but on the nodes \<open>S\<close>.\<close>

definition grabs_only :: "Config \<Rightarrow> string set \<Rightarrow> api_write \<Rightarrow> bool" where
  "grabs_only cfg S x \<longleftrightarrow>
     (\<forall>cur new. x = NodeUpdated cur new \<longrightarrow> Owner new (cfg_TaintKey cfg) \<noteq> None \<longrightarrow> node_Name new \<in> S)"

lemma grabs_only_patches [simp]:
  "grabs_only cfg S (NodePatched n m k)" "grabs_only cfg S (WorkloadPatched v u x)"
  "grabs_only cfg S (NodeUpdated n (persist_node rv n (strip_drain_taint (cfg_TaintKey cfg) n)))"
  by (simp_all add: grabs_only_def)

lemma grabs_victims [keeps_intro]: "keeps (versioned (grabs_only cfg S)) (cycleVictims cfg wl ns)"
  unfolding cycleVictims_def victimWorkloadsOn_def cycle_occupant_def deactivateVictim_def nudgeWhilePending_def Let_def
  by (intro keeps_intro versioned_patch_workload versioned_Reactivate versioned_NudgeKueue) simp_all

lemma grabs_abort [keeps_intro]: "keeps (versioned (grabs_only cfg S)) (abortDrain L cfg wl d reason)"
  unfolding abortDrain_def
  by (intro keeps_intro versioned_SweepFor versioned_RemoveOwnedTaint) simp_all

lemma grabs_event [keeps_intro]: "keeps (versioned (grabs_only cfg S)) (reconcileVictimEvent wl ref)"
  unfolding reconcileVictimEvent_def Let_def
  by (intro keeps_intro versioned_Reactivate) simp_all

lemma grabs_taint: "nm \<in> S \<Longrightarrow> keeps (versioned (grabs_only cfg S)) (taint_node L cfg req cq nm)"
  unfolding taint_node_def
  by (intro keeps_intro versioned_EnsureTaint) (simp add: grabs_only_def persist_node_def)

definition taintable :: "Config \<Rightarrow> decision \<Rightarrow> string set" where
  "taintable cfg d =
     (case d of Served cq n (Planned plan own) \<Rightarrow> if cfg_DryRun cfg then {} else set (dp_Nodes plan) | _ \<Rightarrow> {})"

lemma grabs_perform: "keeps (versioned (grabs_only cfg (taintable cfg d))) (perform L cfg req wl d)"
proof (cases d)
  case (Served cq n dec)
  have "keeps (versioned (grabs_only cfg (taintable cfg d))) (perform_hero L cfg req wl cq dec)"
  proof (cases dec)
    case (Planned plan own)
    with Served show ?thesis
      by (auto simp: taintable_def execute_plan_def
          intro!: keeps_seq keeps_for_each keeps_if grabs_taint grabs_victims versions.keeps_local keeps_ret)
  next
    case (Infeasible r own l)
    then show ?thesis by (cases own) (auto intro!: keeps_intro split: prod.split)
  next
    case (OverQuota own)
    then show ?thesis by (cases own) (auto intro!: keeps_intro)
  next
    case (Queued b)
    then show ?thesis by (simp add: reportDrainQueued_def keeps_intro)
  qed (auto intro!: keeps_intro)
  with Served show ?thesis by (auto intro!: keeps_intro)
qed (auto intro!: keeps_intro)

text \<open>C9: In an undisturbed cluster a reconcile taints a node only if all of this holds: dry-run is off, the
  workload is no suspended victim, is active, is a hero of an existing ClusterQueue, is stuck for
  lack of a fitting topology domain, fits its queue's nominal quota, no other hero owns a drain, it continues
  its own drain or is first in line among the stuck heroes, and the selection over the snapshot of the
  cluster returned a plan that contains the node.\<close>

theorem tainted_only_if:
  assumes "quiet w" "versions_ok w" "w_Log w = []" "find_workload req (w_Workloads w) = Some wl"
    and "NodeUpdated cur new \<in> set (w_Log (snd (Drain_Ctrl.Reconcile L cfg req w)))" "Owner new (cfg_TaintKey cfg) \<noteq> None"
  shows "\<not> cfg_DryRun cfg \<and> wl_Annotations wl DeactivatedForAnnotation = None \<and> \<not> deactivated wl \<and>
     IsStuckTASNoFit wl (cfg_StuckDetection cfg) \<and>
     (\<exists>cq plan level group snap. cq_of w wl = Some cq \<and> IsHero wl (Some cq) cfg = ReasonIsHero \<and>
        GPURequest wl (cfg_GPUResourceName cfg) \<le> gpuNominalQuota cq (cfg_GPUResourceName cfg) \<and>
        node_owners (cfg_TaintKey cfg) (w_Nodes w) \<subseteq> {req} \<and>
        (node_owners (cfg_TaintKey cfg) (w_Nodes w) = {req} \<or> next_in_line L (stuck_heroes cfg w) wl) \<and>
        levels_in w wl cq = Some (level, group) \<and> snapshot_in L cfg w req level group = Some snap \<and>
        SelectDomains snap (hero_spec cfg req wl cq) (workload_map (w_Workloads w)) cfg (w_Now w) = Inr plan \<and>
        node_Name new \<in> set (dp_Nodes plan))"
proof -
  let ?d = "decide L cfg w req wl"
  have "versioned (grabs_only cfg (taintable cfg ?d)) w"
    using assms(2,3) by (simp add: versioned_def writes_ok_def)
  from keepsD[OF grabs_perform this, of L req wl] assms(4,5)
  have "grabs_only cfg (taintable cfg ?d) (NodeUpdated cur new)"
    by (simp add: Reconcile_decides[OF assms(1)] versioned_def writes_ok_def)
  with assms(6) have "node_Name new \<in> taintable cfg ?d" by (simp add: grabs_only_def)
  then obtain cq n plan own where d: "?d = Served cq n (Planned plan own)" "\<not> cfg_DryRun cfg"
    "node_Name new \<in> set (dp_Nodes plan)"
    by (auto simp: taintable_def split: decision.splits hero_decision.splits if_splits)
  from planned_only_if[OF d(1)] d(2,3) show ?thesis by blast
qed

theorem tainted_only_if_witness:
  "next_in_line ex_lib (stuck_heroes ex_config ex_idle_cluster) ex_hero \<and> IsStuckTASNoFit ex_hero DetectionAuto"
proof -
  have "case w_Log (snd (Drain_Ctrl.Reconcile ex_lib ex_config ex_hero_key ex_idle_cluster)) of
      NodeUpdated cur new # rest \<Rightarrow> Owner new ''k'' = Some ex_hero_key | _ \<Rightarrow> False"
    by code_simp
  then obtain cur new rest where
    "w_Log (snd (Drain_Ctrl.Reconcile ex_lib ex_config ex_hero_key ex_idle_cluster)) = NodeUpdated cur new # rest"
    "Owner new ''k'' = Some ex_hero_key"
    by (auto split: list.splits api_write.splits)
  moreover have k: "cfg_TaintKey ex_config = ''k''" "cfg_StuckDetection ex_config = DetectionAuto"
    by (simp_all add: ex_config_def Default_def)
  moreover have "find_workload ex_hero_key (w_Workloads ex_idle_cluster) = Some ex_hero"
    by (simp add: find_workload_def ex_idle_cluster_def ex_world_def ex_hero_def)
  moreover have "node_owners ''k'' (w_Nodes ex_idle_cluster) = {}"
    by (simp add: node_owners_def ex_idle_cluster_def ex_world_def ex_node_def Owner_def)
  ultimately show ?thesis
    using tainted_only_if[OF ex_idle_wf, of ex_hero_key ex_hero cur new ex_lib ex_config] by auto
qed

subsection \<open>Suspending victims\<close>

lemma let_pair: "Let (a, b) (case_prod P) = P a b"
  by simp

text \<open>C8: A pass over the victims changes the workloads exactly so: one with a live pod on the tainted nodes
  that is neither the hero itself nor hero-classed and is still active is suspended and marked; one
  marked for the hero that is inactive and that Kueue has evicted for it is handed back; every other one
  keeps every field. As long as a workload that is neither the hero nor hero-classed has a live pod there,
  the pass comes back in 15 seconds and nudges nobody; once there is none and the hero is not admitted,
  it nudges Kueue through the first of the nodes, when that nudge is due, and comes back at the nudge interval.\<close>

theorem victim_pass_exact:
  assumes "quiet w" "distinct (map wl_Key (w_Workloads w))" "distinct (map node_Name (w_Nodes w))"
  shows "let (r, w') = cycleVictims cfg hero ns w in
     w_Workloads w' =
       map (\<lambda>v. let s = (if wl_Key v \<noteq> wl_Key hero \<and> lives_on w ns (wl_Key v) \<and> \<not> hero_classed cfg v \<and> \<not> deactivated v
                        then suspended (OwnerRef (wl_Key hero)) v else v)
                in if marked_for (wl_Key hero) s \<and> deactivated s \<and> evictedByDeactivation s then reactivated s else s)
         (w_Workloads w) \<and>
     r = (if occupied cfg w (wl_Key hero) ns then Inr (requeue_after requeueVictimCycling)
          else if wl_Admission hero \<noteq> None \<or> ns = [] then Inr no_requeue
          else if Min (set ns) \<in> node_Name ` set (w_Nodes w) then Inr (requeue_after (cfg_NudgeInterval cfg))
          else Inl NotFound) \<and>
     map (\<lambda>n. node_Annotations n NudgeAnnotation) (w_Nodes w') =
       (if occupied cfg w (wl_Key hero) ns \<or> wl_Admission hero \<noteq> None \<or> ns = []
        then map (\<lambda>n. node_Annotations n NudgeAnnotation) (w_Nodes w)
        else map (nudge_mark (w_Now w) (cfg_NudgeInterval cfg) (Min (set ns))) (w_Nodes w))"
proof -
  obtain r w' where run: "cycleVictims cfg hero ns w = (r, w')" by fastforce
  have "cycled cfg w (wl_Key hero) ns =
      (\<lambda>v. let s = (if wl_Key v \<noteq> wl_Key hero \<and> lives_on w ns (wl_Key v) \<and> \<not> hero_classed cfg v \<and> \<not> deactivated v
                    then suspended (OwnerRef (wl_Key hero)) v else v)
            in if marked_for (wl_Key hero) s \<and> deactivated s \<and> evictedByDeactivation s then reactivated s else s)"
    by (intro ext) (simp add: cycled_def hand_back_evicted_def suspend_all_def evictable_def marked_for_def Let_def)
  with quiet_cycleVictims[OF assms, of cfg hero ns] quiet_cycleVictims_result[OF assms, of cfg hero ns]
  show ?thesis by (simp only: run fst_conv snd_conv let_pair simp_thms)
qed

lemma ex_cluster_occupied: "occupied ex_config ex_cluster ex_hero_key [''n1'']"
proof -
  have "ex_job \<in> set (w_Workloads ex_cluster)" by (simp add: ex_cluster_def ex_world_def)
  then show ?thesis
    unfolding occupied_def
    by (rule bexI[rotated]) (simp add: ex_job_def ex_victim_def ex_hero_def ex_hero_key_def lives_on_def ex_cluster_def
        ex_world_def ex_pod_def pod_terminal_def hero_classed_def ex_config_def Default_def)
qed

theorem victim_pass_exact_witness:
  "let (r, w') = cycleVictims ex_config ex_hero [''n1''] ex_cluster in
     r = Inr (requeue_after (15 * second)) \<and> map wl_Active (w_Workloads w') = [None, Some False]"
proof -
  have "wl_Key ex_hero = ex_hero_key" by (simp add: ex_hero_def)
  with victim_pass_exact[OF ex_cluster_wf(1,5,6), of ex_config ex_hero "[''n1'']"] ex_cluster_occupied
  have r: "fst (cycleVictims ex_config ex_hero [''n1''] ex_cluster) = Inr (requeue_after (15 * second))"
    by (simp add: case_prod_beta requeue_intervals)
  have "map wl_Active (w_Workloads (snd (cycleVictims ex_config ex_hero [''n1''] ex_cluster))) = [None, Some False]"
    unfolding victim_pass_exact[OF ex_cluster_wf(1,5,6), of ex_config ex_hero "[''n1'']", unfolded case_prod_beta
      Let_def[of "cycleVictims ex_config ex_hero [''n1''] ex_cluster"], THEN conjunct1]
    by code_simp
  with r show ?thesis by (simp add: case_prod_beta)
qed

lemma quiet_planned:
  assumes "quiet w" "distinct (map wl_Key (w_Workloads w))" "distinct (map node_Name (w_Nodes w))"
    and "find_workload req (w_Workloads w) = Some wl" "decide L cfg w req wl = Served cq n (Planned plan own)"
    and "length (cq_Name cq) \<le> maxTaintValueLen" "\<not> cfg_DryRun cfg"
  shows "let (r, w') = Drain_Ctrl.Reconcile L cfg req w in
     if \<forall>nm \<in> set (dp_Nodes plan). claimable (cfg_TaintKey cfg) req nm w
     then w_Workloads w' = map (cycled cfg w req (dp_Nodes plan)) (w_Workloads w) \<and>
       (\<forall>nm \<in> set (dp_Nodes plan). tainted_for (cfg_TaintKey cfg) req nm w')
     else w_Workloads w' = w_Workloads w \<and> stops_at_unclaimable (cfg_TaintKey cfg) req w (dp_Nodes plan) r w'"
proof -
  have key: "wl_Key wl = req" using assms(4) by (auto simp: find_workload_def dest: find_mem)
  define w1 where "w1 = w\<lparr>w_Metrics := inc_selection SelectionPlanned (set_in_flight n (w_Metrics w))\<rparr>"
  have run: "Drain_Ctrl.Reconcile L cfg req w = execute_plan L cfg req wl cq own plan w1"
    unfolding Reconcile_decides[OF assms(1)] assms(4)
    by (simp add: assms(5) seq_def andthen_def count_metric_def w1_def)
  have w1: "quiet w1" "distinct (map wl_Key (w_Workloads w1))" "distinct (map node_Name (w_Nodes w1))"
    using assms(1-3) by (simp_all add: w1_def)
  have "claimable (cfg_TaintKey cfg) req nm w1 = claimable (cfg_TaintKey cfg) req nm w" for nm
    by (simp add: claimable_def w1_def)
  moreover from this have "stops_at_unclaimable (cfg_TaintKey cfg) req w1 nms r w' = stops_at_unclaimable (cfg_TaintKey cfg) req w nms r w'"
    for nms w' and r :: "error + Result" by (simp add: stops_at_unclaimable_def)
  moreover have "cycled cfg w1 k ns = cycled cfg w k ns" for k ns
    by (rule cycled_pods) (simp add: w1_def)
  moreover have "w_Workloads w1 = w_Workloads w" by (simp add: w1_def)
  ultimately show ?thesis
    using quiet_execute_plan[OF w1 assms(6,7), of L req wl own plan]
    by (simp add: run key case_prod_beta split: if_splits)
qed

text \<open>C11: A planned drain starts, and evicts no one before its taints are up. Undisturbed cluster, no dry-run, a
  plan due, and a ClusterQueue name of at most 63 characters: when every node of the plan exists and is free of
  the drain key or already marked for the hero, a reconcile leaves all of them marked for the hero and has run
  the victim pass over them. Otherwise it fails on the first node of the plan that is neither, with the nodes
  before it marked for the hero and every workload as it was.\<close>

theorem planned_drain_starts:
  assumes "quiet w" "distinct (map wl_Key (w_Workloads w))" "distinct (map node_Name (w_Nodes w))"
    and "find_workload req (w_Workloads w) = Some wl" "decide L cfg w req wl = Served cq n (Planned plan own)"
    and "length (cq_Name cq) \<le> maxTaintValueLen" "\<not> cfg_DryRun cfg"
  shows "let (r, w') = Drain_Ctrl.Reconcile L cfg req w in
     if \<forall>nm \<in> set (dp_Nodes plan). claimable (cfg_TaintKey cfg) req nm w
     then w_Workloads w' = map (cycled cfg w req (dp_Nodes plan)) (w_Workloads w) \<and>
       (\<forall>nm \<in> set (dp_Nodes plan). tainted_for (cfg_TaintKey cfg) req nm w')
     else w_Workloads w' = w_Workloads w \<and>
       (\<exists>before nm rest e. dp_Nodes plan = before @ nm # rest \<and> \<not> claimable (cfg_TaintKey cfg) req nm w \<and>
          r = Inl (TaintingFailed nm e) \<and>
          (\<forall>m \<in> set before. claimable (cfg_TaintKey cfg) req m w \<and> tainted_for (cfg_TaintKey cfg) req m w'))"
  by (rule quiet_planned[OF assms, unfolded stops_at_unclaimable_def])

fun planned :: "decision \<Rightarrow> (string \<times> string list) option" where
  "planned (Served cq n (Planned plan own)) = Some (cq_Name cq, dp_Nodes plan)"
| "planned d = None"

fun_cases planned_elim: "planned d = Some x"

lemma ex_idle_planned: "planned (decide ex_lib ex_config ex_idle_cluster ex_hero_key ex_hero) = Some (''hq'', [''n1''])"
  by code_simp

theorem planned_drain_starts_witness:
  "tainted_for ''k'' ex_hero_key ''n1'' (snd (Drain_Ctrl.Reconcile ex_lib ex_config ex_hero_key ex_idle_cluster))"
proof -
  obtain cq n plan own where d: "decide ex_lib ex_config ex_idle_cluster ex_hero_key ex_hero = Served cq n (Planned plan own)"
    "cq_Name cq = ''hq''" "dp_Nodes plan = [''n1'']"
    using ex_idle_planned by (auto elim: planned_elim)
  have c: "length (cq_Name cq) \<le> maxTaintValueLen" "\<not> cfg_DryRun ex_config" "cfg_TaintKey ex_config = ''k''"
    by (simp_all add: d(2) maxTaintValueLen_def ex_config_def Default_def)
  have w: "distinct (map wl_Key (w_Workloads ex_idle_cluster))" "distinct (map node_Name (w_Nodes ex_idle_cluster))"
    "find_workload ex_hero_key (w_Workloads ex_idle_cluster) = Some ex_hero"
    by (simp_all add: ex_idle_cluster_def ex_world_def find_workload_def ex_hero_def)
  have "claimable ''k'' ex_hero_key ''n1'' ex_idle_cluster"
    by (simp add: claimable_def ex_idle_cluster_def ex_world_def ex_node_def)
  with planned_drain_starts[OF ex_idle_wf(1) w d(1) c(1,2)] show ?thesis
    by (simp add: d(3) c(3) case_prod_beta Let_def)
qed

text \<open>Suspending a workload and sweeping the drain gives the workload back unchanged but for
  \<open>spec.active\<close>, which is set; the other workloads marked for the hero are handed back too.\<close>

theorem suspend_then_sweep:
  assumes "quiet w" "distinct (map wl_Key (w_Workloads w))" "v \<in> set (w_Workloads w)"
    and "wl_Annotations v DeactivatedForAnnotation = None"
  shows "\<exists>w1 n w2. deactivateVictim v hero (OwnerRef k) w = (Inr (), w1) \<and> SweepFor k w1 = (Inr n, w2) \<and>
     w_Workloads w2 = map (\<lambda>x. if x = v then v\<lparr>wl_Active := Some True\<rparr>
       else if marked_for k x then reactivated x else x) (w_Workloads w)"
proof -
  obtain w1 where w1: "deactivateVictim v hero (OwnerRef k) w = (Inr (), w1)" "same_but_workloads w w1"
    "w_Workloads w1 = map (\<lambda>x. if x = v then suspended (OwnerRef k) v else x) (w_Workloads w)"
    using quiet_deactivateVictim[OF assms(1-3)] by blast
  have "map wl_Key (w_Workloads w1) = map wl_Key (w_Workloads w)" by (simp add: w1(3))
  then have "quiet w1" "distinct (map wl_Key (w_Workloads w1))"
    using assms(1,2) w1(2) by (simp_all add: quiet_def same_but_workloads_def)
  from quiet_SweepFor[OF this, of k] obtain n w2 where w2: "SweepFor k w1 = (Inr n, w2)"
    "w_Workloads w2 = map (\<lambda>x. if wl_Annotations x DeactivatedForAnnotation = Some (OwnerRef k)
        then reactivated x else x) (w_Workloads w1)" by blast
  have "(wl_Annotations v)(DeactivatedForAnnotation := None) = wl_Annotations v"
    using assms(4) by (rule fun_upd_idem)
  then have "reactivated (suspended (OwnerRef k) v) = v\<lparr>wl_Active := Some True\<rparr>"
    by (simp add: reactivated_def suspended_def)
  moreover have "wl_Annotations (suspended (OwnerRef k) v) DeactivatedForAnnotation = Some (OwnerRef k)"
    by (simp add: suspended_def)
  ultimately have "w_Workloads w2 = map (\<lambda>x. if x = v then v\<lparr>wl_Active := Some True\<rparr>
       else if marked_for k x then reactivated x else x) (w_Workloads w)"
    by (simp add: w2(2) w1(3) marked_for_def)
  with w1(1) w2(1) show ?thesis by blast
qed

theorem suspend_then_sweep_witness:
  "\<exists>w1 n w2. deactivateVictim ex_job ex_hero (OwnerRef ex_hero_key) ex_cluster = (Inr (), w1) \<and>
     SweepFor ex_hero_key w1 = (Inr n, w2) \<and> w_Workloads w2 = [ex_hero, ex_job\<lparr>wl_Active := Some True\<rparr>]"
proof -
  have v: "ex_job \<in> set (w_Workloads ex_cluster)" "wl_Annotations ex_job DeactivatedForAnnotation = None"
    by (simp_all add: ex_cluster_def ex_world_def ex_job_def ex_victim_def ex_hero_def)
  have wls: "w_Workloads ex_cluster = [ex_hero, ex_job]" by (simp add: ex_cluster_def ex_world_def)
  have "wl_Key ex_hero \<noteq> wl_Key ex_job"
    by (simp add: ex_job_def ex_victim_def ex_hero_def ex_hero_key_def)
  then have "ex_hero \<noteq> ex_job" by metis
  moreover have "\<not> marked_for ex_hero_key ex_hero" by (simp add: marked_for_def ex_hero_def)
  ultimately have "map (\<lambda>x. if x = ex_job then ex_job\<lparr>wl_Active := Some True\<rparr>
      else if marked_for ex_hero_key x then reactivated x else x) (w_Workloads ex_cluster)
      = [ex_hero, ex_job\<lparr>wl_Active := Some True\<rparr>]"
    unfolding wls by (simp only: list.map if_True if_False simp_thms)
  with suspend_then_sweep[OF ex_cluster_wf(1,5) v, of ex_hero ex_hero_key] show ?thesis by (simp only:)
qed

subsection \<open>Ending a drain early\<close>

text \<open>C18: Aborting the drain of a hero, from the drain's record, succeeds in an undisturbed cluster: each node
  of the drain loses the taint and the drain annotations and keeps everything else, every other node, the
  nodes of other drains included, keeps every field, the hero owns nothing any more, and exactly the
  workloads marked for it are handed back.\<close>

theorem abort_ends_drain:
  assumes "quiet w" "distinct (map wl_Key (w_Workloads w))" "distinct (map node_Name (w_Nodes w))"
    and "map_of (drains_in cfg w) (wl_Key hero) = Some own"
  shows "\<exists>w'. abortDrain L cfg hero own reason w = (Inr (requeue_after requeueWhileQueued), w') \<and>
     list_all2 (cleared (cfg_TaintKey cfg) (wl_Key hero)) (w_Nodes w) (w_Nodes w') \<and>
     node_owners (cfg_TaintKey cfg) (w_Nodes w') = node_owners (cfg_TaintKey cfg) (w_Nodes w) - {wl_Key hero} \<and>
     w_Workloads w' = map (\<lambda>x. if marked_for (wl_Key hero) x then reactivated x else x) (w_Workloads w)"
proof -
  from FindDrains_Some[OF assms(4)[unfolded drains_in_def]]
  have own: "drain_Nodes own = owned_names (cfg_TaintKey cfg) (wl_Key hero) (w_Nodes w)"
    "owned_names (cfg_TaintKey cfg) (wl_Key hero) (w_Nodes w) \<noteq> []" by simp_all
  then obtain n where "Owner n (cfg_TaintKey cfg) = Some (wl_Key hero)"
    by (auto simp: owned_names_def filter_empty_conv)
  then have "wf_key (wl_Key hero)" by (simp add: Owner_Some)
  from quiet_abortDrain[OF assms(1-3) this, of L cfg own reason] obtain w' where w':
    "abortDrain L cfg hero own reason w = (Inr (requeue_after requeueWhileQueued), w')"
    "w_Workloads w' = map (\<lambda>x. if wl_Annotations x DeactivatedForAnnotation = Some (OwnerRef (wl_Key hero))
        then reactivated x else x) (w_Workloads w)"
    "list_all2 (untainted (cfg_TaintKey cfg) (wl_Key hero) (set (drain_Nodes own))) (w_Nodes w) (w_Nodes w')"
    by blast
  have "list_all2 (cleared (cfg_TaintKey cfg) (wl_Key hero)) (w_Nodes w) (w_Nodes w')"
    using untainted_cleared[OF w'(3)] own(1) by simp
  with cleared_owners[OF this] w'(1,2) show ?thesis
    by (intro exI[of _ w']) (simp add: marked_for_def)
qed

definition ex_drained_node :: node where
  "ex_drained_node = add_drain_taint ''k'' ex_hero_key ''hq'' (10 * hour) (ex_node ''n1'' ''b1'')"

definition ex_draining :: world where
  "ex_draining = ex_world [ex_drained_node] [ex_hero, suspended (OwnerRef ex_hero_key) ex_job] [ex_pod]"

lemma ex_drained_node_owner: "Owner ex_drained_node (cfg_TaintKey ex_config) = Some ex_hero_key"
  using Owner_add_drain_taint[OF ex_cluster_wf(4), of "''k''" "''hq''" "10 * hour" "ex_node ''n1'' ''b1''"]
  by (simp add: ex_drained_node_def ex_config_def)

lemma ex_draining_wf:
  "quiet ex_draining" "distinct (map wl_Key (w_Workloads ex_draining))"
  "distinct (map node_Name (w_Nodes ex_draining))"
  by (simp_all add: quiet_def ex_draining_def ex_world_def ex_job_def ex_victim_def ex_hero_def ex_hero_key_def)

lemma ex_draining_drain:
  "map_option drain_Nodes (map_of (drains_in ex_config ex_draining) ex_hero_key) = Some [''n1'']"
  unfolding drains_in_def FindDrains_nodes
  by (simp add: owned_names_def ex_draining_def ex_world_def ex_drained_node_owner)
    (simp add: ex_drained_node_def ex_node_def)

theorem abort_ends_drain_witness:
  "\<exists>own w'. map_of (drains_in ex_config ex_draining) ex_hero_key = Some own \<and>
     abortDrain ex_lib ex_config ex_hero own [] ex_draining = (Inr (requeue_after (30 * second)), w') \<and>
     node_owners ''k'' (w_Nodes w') = {} \<and> node_owners ''k'' (w_Nodes ex_draining) = {ex_hero_key}"
proof -
  have k: "wl_Key ex_hero = ex_hero_key" "cfg_TaintKey ex_config = ''k''"
    by (simp_all add: ex_hero_def ex_config_def)
  from ex_draining_drain obtain own where own: "map_of (drains_in ex_config ex_draining) (wl_Key ex_hero) = Some own"
    unfolding k(1) by blast
  have "node_owners ''k'' (w_Nodes ex_draining) = {ex_hero_key}"
    using ex_drained_node_owner by (simp add: node_owners_def ex_draining_def ex_world_def k)
  with abort_ends_drain[OF ex_draining_wf own, of ex_lib "[]"] own show ?thesis
    by (auto simp: k requeue_intervals)
qed

subsection \<open>Waiting and dry runs\<close>

definition untouched :: "world \<Rightarrow> world \<Rightarrow> bool" where
  "untouched w w' \<longleftrightarrow> w_Nodes w' = w_Nodes w \<and> w_Workloads w' = w_Workloads w \<and> w_Log w' = w_Log w"

lemma untouched_emit [simp]: "untouched w (snd (emit obj ty reason args w')) = untouched w w'"
  by (simp add: untouched_def emit_def)

lemma untouched_reportDrainQueued:
  assumes "quiet w"
  shows "untouched w (snd (reportDrainQueued wl d w))"
  by (cases "find_workload (drain_Owner d) (w_Workloads w)")
    (simp_all add: reportDrainQueued_def andthen_def attempt_def quiet_reads assms, simp_all add: untouched_def)

lemma untouched_decision:
  assumes "quiet w" "\<And>d. dec \<noteq> Cycle d" "\<And>d. dec \<noteq> OverQuota (Some d)"
    "\<And>r d l. dec \<noteq> Infeasible r (Some d) l" "\<And>plan own. dec = Planned plan own \<Longrightarrow> cfg_DryRun cfg"
  shows "untouched w (snd (perform_hero L cfg req wl cq dec w))"
proof (cases dec)
  case (OverQuota own)
  with assms(3) have "own = None" by (cases own) auto
  with OverQuota show ?thesis by (simp add: seq_def andthen_def emit_def ret_def untouched_def)
next
  case (Queued d)
  have "\<exists>w'. reportDrainQueued wl d w = (Inr (), w')"
    using assms(1) by (simp add: reportDrainQueued_def andthen_def attempt_def quiet_reads emit_def)
  with Queued untouched_reportDrainQueued[OF assms(1), of wl d] show ?thesis
    by (auto simp: seq_def andthen_def ret_def)
next
  case NoLevel
  obtain w' where "drainLevel wl cq w = (Inr (levels_in w wl cq), w')" "same_but_events w w'"
    using quiet_drainLevel[OF assms(1)] by blast
  with NoLevel show ?thesis by (auto simp: andthen_def ret_def untouched_def same_but_events_def)
next
  case (Infeasible r own l)
  with assms(4) have "own = None" by (cases own) auto
  with Infeasible show ?thesis
    by (simp add: seq_def andthen_def emit_def ret_def count_metric_def untouched_def split: prod.split)
next
  case (Planned plan own)
  with assms(5) show ?thesis
    by (simp add: seq_def andthen_def execute_plan_def emit_def ret_def count_metric_def untouched_def)
qed (use assms(2) in \<open>auto simp: ret_def fail_def untouched_def\<close>)

lemma decide_hero_without_drain:
  assumes "map_of (drains_in cfg w) req = None"
  shows "decide_hero L cfg w req wl cq \<noteq> Cycle d" "decide_hero L cfg w req wl cq \<noteq> OverQuota (Some d)"
    "decide_hero L cfg w req wl cq \<noteq> Infeasible r (Some d) l"
  using assms by (auto simp: decide_hero_def decide_plan_def Let_def split: option.split sum.split)

text \<open>A workload that owns no drain and is no suspended victim costs nothing while it waits: unless a
  plan is due and the controller is not in dry-run mode, its reconcile in an undisturbed cluster writes no
  object at all, whether it is no hero, not stuck, over quota, queued, not first in line, infeasible or
  only planned for in dry-run mode.\<close>

theorem no_drain_no_write:
  assumes "quiet w" "find_workload req (w_Workloads w) = Some wl"
    and "wl_Annotations wl DeactivatedForAnnotation = None" "map_of (drains_in cfg w) req = None"
    and "\<And>cq n plan own. decide L cfg w req wl = Served cq n (Planned plan own) \<Longrightarrow> cfg_DryRun cfg"
  shows "untouched w (snd (Drain_Ctrl.Reconcile L cfg req w))"
proof -
  have key: "wl_Key wl = req" using assms(2) by (auto simp: find_workload_def dest: find_mem)
  have run: "Drain_Ctrl.Reconcile L cfg req w = perform L cfg req wl (decide L cfg w req wl) w"
    by (simp add: Reconcile_decides[OF assms(1)] assms(2))
  show ?thesis
  proof (cases "decide L cfg w req wl")
    case (Served cq n dec)
    define w1 where "w1 = w\<lparr>w_Metrics := set_in_flight n (w_Metrics w)\<rparr>"
    have dec: "dec = decide_hero L cfg w req wl cq"
      using Served by (auto simp: decide_def split: option.splits if_splits)
    have "untouched w1 (snd (perform_hero L cfg req wl cq dec w1))"
      unfolding dec
    proof (rule untouched_decision)
      show "quiet w1" using assms(1) by (simp add: w1_def)
      fix plan own
      assume "decide_hero L cfg w req wl cq = Planned plan own"
      with Served dec assms(5) show "cfg_DryRun cfg" by metis
    qed (simp_all add: decide_hero_without_drain[OF assms(4)])
    with run Served show ?thesis
      by (simp add: seq_def andthen_def count_metric_def w1_def untouched_def)
  next
    case (Unwind d reason)
    with assms(4) key show ?thesis by (auto simp: decide_def split: option.splits if_splits)
  next
    case (FinishVictim ref)
    with assms(3) show ?thesis by (auto simp: decide_def split: option.splits if_splits)
  qed (simp add: run ret_def untouched_def)
qed

theorem no_drain_no_write_witness:
  "untouched ex_idle_cluster (snd (Drain_Ctrl.Reconcile ex_lib (ex_config\<lparr>cfg_DryRun := True\<rparr>) ex_hero_key ex_idle_cluster))"
proof (rule no_drain_no_write[OF ex_idle_wf(1), where wl = ex_hero])
  show "find_workload ex_hero_key (w_Workloads ex_idle_cluster) = Some ex_hero"
    by (simp add: find_workload_def ex_idle_cluster_def ex_world_def ex_hero_def)
  show "wl_Annotations ex_hero DeactivatedForAnnotation = None" by (simp add: ex_hero_def)
  show "map_of (drains_in (ex_config\<lparr>cfg_DryRun := True\<rparr>) ex_idle_cluster) ex_hero_key = None"
    by (simp add: drains_in_def FindDrains_None ex_idle_cluster_def ex_world_def ex_node_def Owner_def)
qed simp

lemma decide_Cycle:
  "decide L cfg w req wl = Served cq n (Cycle own) \<longleftrightarrow>
     wl_Annotations wl DeactivatedForAnnotation = None \<and> \<not> deactivated wl \<and> cq_of w wl = Some cq \<and>
     is_hero_in cfg w wl \<and> n = length (drains_in cfg w) \<and>
     \<not> IsStuckTASNoFit wl (cfg_StuckDetection cfg) \<and> map_of (drains_in cfg w) req = Some own"
  by (auto simp: decide_def decide_hero_def decide_plan_def Let_def split: option.split sum.split)

lemma dry_run_reads:
  "drains_in (cfg\<lparr>cfg_DryRun := b\<rparr>) w = drains_in cfg w"
  "is_hero_in (cfg\<lparr>cfg_DryRun := b\<rparr>) w wl = is_hero_in cfg w wl"
  by (simp_all add: drains_in_def is_hero_in_def IsHero_def hero_taint_def cong: option.case_cong if_cong)

lemma dry_run_cycle: "cycleVictims (cfg\<lparr>cfg_DryRun := b\<rparr>) = cycleVictims cfg"
proof -
  have "hero_classed (cfg\<lparr>cfg_DryRun := b\<rparr>) = hero_classed cfg"
    by (intro ext) (simp add: hero_classed_def cong: option.case_cong)
  then have "cycle_occupant (cfg\<lparr>cfg_DryRun := b\<rparr>) = cycle_occupant cfg"
    unfolding cycle_occupant_def[abs_def] by presburger
  moreover have "nudgeWhilePending (cfg\<lparr>cfg_DryRun := b\<rparr>) = nudgeWhilePending cfg"
    by (intro ext) (simp add: nudgeWhilePending_def cong: if_cong)
  ultimately show ?thesis unfolding cycleVictims_def[abs_def] by presburger
qed

text \<open>C39: Dry-run mode does not hold back a drain already in flight: for a hero that is no longer stuck and
  still owns tainted nodes a dry-run reconcile does all that one without dry-run does, so it suspends the
  workloads on the nodes of the drain.\<close>

theorem dry_run_still_suspends:
  assumes "quiet w" "distinct (map wl_Key (w_Workloads w))" "distinct (map node_Name (w_Nodes w))"
    and "find_workload req (w_Workloads w) = Some wl" "decide L cfg w req wl = Served cq n (Cycle own)"
  shows "Drain_Ctrl.Reconcile L (cfg\<lparr>cfg_DryRun := True\<rparr>) req w = Drain_Ctrl.Reconcile L cfg req w \<and>
     w_Workloads (snd (Drain_Ctrl.Reconcile L (cfg\<lparr>cfg_DryRun := True\<rparr>) req w))
     = map (cycled cfg w (wl_Key wl) (drain_Nodes own)) (w_Workloads w)"
proof -
  let ?dry = "cfg\<lparr>cfg_DryRun := True\<rparr>" and ?w = "w\<lparr>w_Metrics := set_in_flight n (w_Metrics w)\<rparr>"
  have "decide L ?dry w req wl = Served cq n (Cycle own)"
    using assms(5) unfolding decide_Cycle dry_run_reads by simp
  then have dry: "Drain_Ctrl.Reconcile L ?dry req w = cycleVictims cfg wl (drain_Nodes own) ?w"
    by (simp add: Reconcile_decides[OF assms(1)] assms(4) dry_run_cycle seq_def andthen_def count_metric_def)
  have live: "Drain_Ctrl.Reconcile L cfg req w = cycleVictims cfg wl (drain_Nodes own) ?w"
    by (simp add: Reconcile_decides[OF assms(1)] assms(4,5) seq_def andthen_def count_metric_def)
  have "cycled cfg ?w (wl_Key wl) (drain_Nodes own) = cycled cfg w (wl_Key wl) (drain_Nodes own)"
    by (simp add: cycled_def[abs_def] suspend_all_def evictable_def lives_on_def)
  moreover have "w_Workloads (snd (cycleVictims cfg wl (drain_Nodes own) ?w))
      = map (cycled cfg ?w (wl_Key wl) (drain_Nodes own)) (w_Workloads ?w)"
    by (rule quiet_cycleVictims[THEN conjunct1]) (use assms(1-3) in simp_all)
  ultimately show ?thesis using dry live by simp
qed

definition ex_served_hero :: workload where
  "ex_served_hero = ex_hero\<lparr>wl_Conditions := []\<rparr>"

definition ex_served :: world where
  "ex_served = ex_world [ex_drained_node] [ex_served_hero, ex_job] [ex_pod]"

lemma ex_served_wf:
  "quiet ex_served" "distinct (map wl_Key (w_Workloads ex_served))" "distinct (map node_Name (w_Nodes ex_served))"
  "find_workload ex_hero_key (w_Workloads ex_served) = Some ex_served_hero"
  by (simp_all add: quiet_def ex_served_def ex_world_def ex_served_hero_def ex_job_def ex_victim_def ex_hero_def
      ex_hero_key_def find_workload_def)

lemma ex_served_cycles:
  "\<exists>cq n own. decide ex_lib ex_config ex_served ex_hero_key ex_served_hero = Served cq n (Cycle own) \<and>
     drain_Nodes own = [''n1'']"
proof -
  have "case decide ex_lib ex_config ex_served ex_hero_key ex_served_hero of
      Served cq n (Cycle own) \<Rightarrow> drain_Nodes own = [''n1''] | _ \<Rightarrow> False"
    by code_simp
  then show ?thesis by (auto split: decision.splits hero_decision.splits)
qed

theorem dry_run_still_suspends_witness:
  "map wl_Active (w_Workloads (snd (Drain_Ctrl.Reconcile ex_lib (ex_config\<lparr>cfg_DryRun := True\<rparr>) ex_hero_key ex_served)))
     = [None, Some False]"
proof -
  obtain cq n own where d: "decide ex_lib ex_config ex_served ex_hero_key ex_served_hero = Served cq n (Cycle own)"
    "drain_Nodes own = [''n1'']"
    using ex_served_cycles by blast
  have "w_Workloads (snd (Drain_Ctrl.Reconcile ex_lib (ex_config\<lparr>cfg_DryRun := True\<rparr>) ex_hero_key ex_served))
      = map (cycled ex_config ex_served (wl_Key ex_served_hero) [''n1'']) (w_Workloads ex_served)"
    using dry_run_still_suspends[OF ex_served_wf d(1)] unfolding d(2) by blast
  moreover have "map wl_Active (map (cycled ex_config ex_served (wl_Key ex_served_hero) [''n1'']) (w_Workloads ex_served))
      = [None, Some False]"
    unfolding cycled_def[abs_def] suspend_all_def[abs_def] hand_back_evicted_def[abs_def] evictable_def mem_Collect_eq
    by code_simp
  ultimately show ?thesis by simp
qed

end
