(* ===== verification/Janitor_Properties.thy ===== *)
theory Janitor_Properties
  imports Janitor_Runs Drain_Properties
begin

text \<open>
  Properties of the janitor: the verdict it reaches on a tainted node, the deadline of a drain, and the
  end of a drain whose hero no longer wants it.
\<close>

subsection \<open>The verdict\<close>

text \<open>In an undisturbed cluster a reconcile of the janitor carries out the verdict of the ladder on the node's
  owner: nothing for a node that is gone or carries no resolvable drain taint.\<close>

theorem janitor_refines_verdict:
  assumes "quiet w"
  shows "Janitor.Reconcile L cfg nm w =
     (case find_node nm (w_Nodes w) of
        None \<Rightarrow> (Inr no_requeue, w)
      | Some n \<Rightarrow>
          (case Owner n (cfg_TaintKey cfg) of
             None \<Rightarrow> (Inr no_requeue, w)
           | Some owner \<Rightarrow> carry_out L cfg nm owner (verdict L cfg w n owner) w))"
  using quiet_janitor[OF assms] .

lemma ex_draining_node: "find_node ''n1'' (w_Nodes ex_draining) = Some ex_drained_node"
  by (simp add: find_node_def ex_draining_def ex_world_def ex_drained_node_def ex_node_def)

lemma ex_draining_verdict: "verdict ex_lib ex_config ex_draining ex_drained_node ex_hero_key = Wait (30 * minute)"
proof -
  have "case verdict ex_lib ex_config ex_draining ex_drained_node ex_hero_key of Wait d \<Rightarrow> d = 30 * minute | _ \<Rightarrow> False"
    by code_simp
  then show ?thesis by (simp split: verdict.splits)
qed

theorem janitor_refines_verdict_witness:
  "Janitor.Reconcile ex_lib ex_config ''n1'' ex_draining = (Inr (requeue_after (30 * minute)), ex_draining)"
  by (simp add: janitor_refines_verdict[OF ex_draining_wf(1)] ex_draining_node ex_drained_node_owner
      ex_draining_verdict ret_def)

subsection \<open>The deadline\<close>

text \<open>C27: In an undisturbed cluster the deadline of a drain with a readable start time is exact over all 64-bit
  durations: as long as its hero waits, a reconcile of the node requeues after what is left of the timeout and
  changes nothing when that is positive and below the range of a Go duration, and otherwise warns the hero and
  tears the node down as timed out. A start time so far in the future that what is left overflows therefore
  times out at once.\<close>

theorem deadline_exact:
  assumes "quiet w" "find_node nm (w_Nodes w) = Some n" "Owner n (cfg_TaintKey cfg) = Some k"
    and "find_workload k (w_Workloads w) = Some hero" "waits L w n hero"
    and "drainStartedAt n = Some t" "0 \<le> cfg_DrainTimeout cfg" "cfg_DrainTimeout cfg < 2 ^ 63"
  shows "Janitor.Reconcile L cfg nm w =
     (let left = t + cfg_DrainTimeout cfg - w_Now w
      in if 0 < left \<and> left < 2 ^ 63 then (Inr (requeue_after left), w)
         else seq (emit k EventTypeWarning EventDrainTimedOut [ArgInt (cfg_DrainTimeout cfg)])
                (teardown L cfg nm k OutcomeTimedOut) w)"
  using deadline_verdict_exact[OF assms(6-8), of w]
  by (simp add: quiet_janitor[OF assms(1)] assms(2,3) waits_verdict[OF assms(4,5)] Let_def ret_def warn_timeout_def)

definition ex_future_node :: node where
  "ex_future_node = ex_drained_node\<lparr>node_Annotations :=
     (node_Annotations ex_drained_node)(StartedAtAnnotation \<mapsto> ''0400-01-01T00:00:00Z'')\<rparr>"

definition ex_future :: world where
  "ex_future = ex_world [ex_future_node] [ex_hero] []"

lemma ex_hero_waits: "wl_Admission ex_hero = None" "waits ex_lib w n ex_hero"
  by (simp_all add: waits_def deactivated_def ex_hero_def IsStatusConditionTrue_def FindStatusCondition_def
      WorkloadFinished_def)

lemma ex_future_node_owner: "Owner ex_future_node (cfg_TaintKey ex_config) = Some ex_hero_key"
  using ex_drained_node_owner Owner_cong[of ex_future_node ex_drained_node] by (simp add: ex_future_node_def)

theorem deadline_exact_witness:
  "Janitor.Reconcile ex_lib ex_config ''n1'' ex_draining = (Inr (requeue_after (30 * minute)), ex_draining) \<and>
   Janitor.Reconcile ex_lib ex_config ''n1'' ex_future
     = seq (emit ex_hero_key EventTypeWarning EventDrainTimedOut [ArgInt (30 * minute)])
         (teardown ex_lib ex_config ''n1'' ex_hero_key OutcomeTimedOut) ex_future"
proof -
  have t: "drainStartedAt ex_drained_node = Some (10 * hour)"
    "drainStartedAt ex_future_node = Some (date_time 400 1 1 0 0 0)"
    by code_simp+
  have c: "0 \<le> cfg_DrainTimeout ex_config" "cfg_DrainTimeout ex_config < 2 ^ 63"
    "w_Now ex_draining = 10 * hour" "w_Now ex_future = 10 * hour" "cfg_DrainTimeout ex_config = 30 * minute"
    by (simp_all add: ex_config_def Default_def minute_def ex_draining_def ex_future_def ex_world_def)
  have h: "find_workload ex_hero_key (w_Workloads ex_draining) = Some ex_hero"
    "find_workload ex_hero_key (w_Workloads ex_future) = Some ex_hero"
    by (simp_all add: find_workload_def ex_draining_def ex_future_def ex_world_def ex_hero_def)
  have f: "quiet ex_future" "find_node ''n1'' (w_Nodes ex_future) = Some ex_future_node"
    by (simp_all add: quiet_def ex_future_def ex_world_def find_node_def ex_future_node_def ex_drained_node_def ex_node_def)
  have "2 ^ 63 \<le> date_time 400 1 1 0 0 0 - 10 * hour" by code_simp
  with deadline_exact[OF ex_draining_wf(1) ex_draining_node ex_drained_node_owner h(1) ex_hero_waits(2) t(1) c(1,2)]
    deadline_exact[OF f ex_future_node_owner h(2) ex_hero_waits(2) t(2) c(1,2)] c(3-5)
  show ?thesis by (simp add: Let_def minute_def)
qed

text \<open>C28: A missing or unreadable start time never times a drain out. In an undisturbed cluster, with a timeout of
  at least a second, the janitor keeps the taint of a node whose hero waits, records the present as the start
  of the drain and changes nothing else; a reconcile of the node after any further delay within the timeout,
  less the fraction of a second RFC 3339 drops, still keeps the taint and requeues for exactly the rest.\<close>

theorem lost_clock_restarts:
  assumes "quiet w" "distinct (map node_Name (w_Nodes w))"
    and "find_node nm (w_Nodes w) = Some n" "Owner n (cfg_TaintKey cfg) = Some k"
    and "find_workload k (w_Workloads w) = Some hero" "waits L w n hero" "drainStartedAt n = None"
    and "0 \<le> w_Now w" "w_Now w < year_10000" "second \<le> cfg_DrainTimeout cfg" "cfg_DrainTimeout cfg < 2 ^ 63"
  shows "\<exists>w' rv. Janitor.Reconcile L cfg nm w = (Inr (requeue_after (cfg_DrainTimeout cfg)), w') \<and>
     w_Workloads w' = w_Workloads w \<and> w_Pods w' = w_Pods w \<and> w_Now w' = w_Now w \<and>
     w_Nodes w' = map (\<lambda>m. if m = n then (restart_clock_on (w_Now w) n)\<lparr>node_ResourceVersion := rv\<rparr> else m) (w_Nodes w) \<and>
     (let rest = cfg_DrainTimeout cfg - w_Now w mod second in
      0 < rest \<and> (\<forall>d. 0 \<le> d \<and> d < rest \<longrightarrow> (let later = w'\<lparr>w_Now := w_Now w + d\<rparr> in
        Janitor.Reconcile L cfg nm later = (Inr (requeue_after (rest - d)), later))))"
proof -
  let ?n' = "clocked w n"
  define w' where "w' = log_write (NodePatched n n ?n') (put_node ?n' w)"
  have run: "Janitor.Reconcile L cfg nm w = (Inr (requeue_after (cfg_DrainTimeout cfg)), w')"
    using waits_verdict[OF assms(5,6), of cfg]
    by (simp add: quiet_janitor[OF assms(1)] assms(3,4,7) deadline_verdict_def seq_def andthen_def ret_def
        quiet_restartClock[OF assms(1,3)] w'_def)
  have keep: "w_Workloads w' = w_Workloads w" "w_Pods w' = w_Pods w" "w_Now w' = w_Now w"
    "w_Nodes w' = map (\<lambda>m. if m = n then ?n' else m) (w_Nodes w)" "quiet w'"
    using clocked_nodes[OF assms(2,3)] assms(1) by (simp_all add: w'_def log_write_def put_node_def)
  have n': "find_node nm (w_Nodes w') = Some ?n'"
    using find_put_node[of nm w n ?n' nm] assms(3) find_node_name[OF assms(3)] by (simp add: w'_def log_write_def)
  let ?rest = "cfg_DrainTimeout cfg - w_Now w mod second"
  have frac: "0 \<le> w_Now w mod second" "w_Now w mod second < second" by (simp_all add: second_def)
  have later: "Janitor.Reconcile L cfg nm (w'\<lparr>w_Now := w_Now w + d\<rparr>) = (Inr (requeue_after (?rest - d)), w'\<lparr>w_Now := w_Now w + d\<rparr>)"
    if d: "0 \<le> d" "d < ?rest" for d
  proof -
    let ?l = "w'\<lparr>w_Now := w_Now w + d\<rparr>"
    have l: "quiet ?l" "find_node nm (w_Nodes ?l) = Some ?n'" "find_workload k (w_Workloads ?l) = Some hero"
      "Owner ?n' (cfg_TaintKey cfg) = Some k" "waits L ?l ?n' hero"
      using keep n' assms(4,5) waits_clocked[OF assms(6), of ?l] by simp_all
    have "deadline_verdict cfg ?l ?n' = Wait (?rest - d)"
      using deadline_verdict_exact[OF clocked_clock[OF assms(8,9), of n] _ assms(11), of ?l] frac d assms(10,11)
      by (simp add: Let_def algebra_simps)
    then show ?thesis by (simp only: quiet_janitor[OF l(1)] l(2,4) waits_verdict[OF l(3,5)] option.case carry_out.simps ret_def)
  qed
  have "0 < ?rest" using frac assms(10) by linarith
  with later run keep(1-3) keep(4)[unfolded clocked_eq] show ?thesis
    by (intro exI[of _ w'] exI[of _ "Suc (w_Revision w)"]) (simp add: Let_def)
qed

definition ex_clockless_node :: node where
  "ex_clockless_node = ex_drained_node\<lparr>node_Annotations := (node_Annotations ex_drained_node)(StartedAtAnnotation := None)\<rparr>"

definition ex_clockless :: world where
  "ex_clockless = ex_world [ex_clockless_node] [ex_hero] []"

theorem lost_clock_restarts_witness:
  "\<exists>w'. Janitor.Reconcile ex_lib ex_config ''n1'' ex_clockless = (Inr (requeue_after (30 * minute)), w') \<and>
     map (\<lambda>n. node_Annotations n StartedAtAnnotation) (w_Nodes w') = [Some ''0001-01-01T10:00:00Z''] \<and>
     (let later = w'\<lparr>w_Now := 10 * hour + minute\<rparr> in
      Janitor.Reconcile ex_lib ex_config ''n1'' later = (Inr (requeue_after (29 * minute)), later))"
proof -
  have c: "cfg_DrainTimeout ex_config = 30 * minute" "cfg_TaintKey ex_config = ''k''" "w_Now ex_clockless = 10 * hour"
    "w_Nodes ex_clockless = [ex_clockless_node]"
    by (simp_all add: ex_config_def Default_def ex_clockless_def ex_world_def)
  have w: "quiet ex_clockless" "distinct (map node_Name (w_Nodes ex_clockless))"
    "find_node ''n1'' (w_Nodes ex_clockless) = Some ex_clockless_node"
    "find_workload ex_hero_key (w_Workloads ex_clockless) = Some ex_hero"
    by (simp_all add: quiet_def ex_clockless_def ex_world_def find_node_def find_workload_def ex_clockless_node_def
        ex_drained_node_def ex_node_def ex_hero_def)
  have o: "Owner ex_clockless_node (cfg_TaintKey ex_config) = Some ex_hero_key"
    using ex_drained_node_owner Owner_cong[of ex_clockless_node ex_drained_node]
    by (simp add: ex_clockless_node_def)
  have v: "drainStartedAt ex_clockless_node = None" by (simp add: drainStartedAt_def ex_clockless_node_def)
  have t: "w_Now ex_clockless < year_10000" "0 \<le> w_Now ex_clockless" "second \<le> cfg_DrainTimeout ex_config"
    "cfg_DrainTimeout ex_config < 2 ^ 63" "10 * hour mod second = 0"
    unfolding c by (simp_all add: year_10000_def days_before_year_def duration_units)
  have f: "format_RFC3339 (10 * hour) = ''0001-01-01T10:00:00Z''" by code_simp
  from lost_clock_restarts[OF w(1-3) o w(4) ex_hero_waits(2) v t(2,1,3,4)] obtain w' rv where
    "Janitor.Reconcile ex_lib ex_config ''n1'' ex_clockless = (Inr (requeue_after (30 * minute)), w')"
    "w_Nodes w' = [(restart_clock_on (10 * hour) ex_clockless_node)\<lparr>node_ResourceVersion := rv\<rparr>]"
    "\<And>d. 0 \<le> d \<Longrightarrow> d < 30 * minute \<Longrightarrow> (let later = w'\<lparr>w_Now := 10 * hour + d\<rparr> in
        Janitor.Reconcile ex_lib ex_config ''n1'' later = (Inr (requeue_after (30 * minute - d)), later))"
    unfolding c t(5) Let_def by auto
  from this(1,2) this(3)[of minute] f show ?thesis
    by (intro exI[of _ w']) (simp add: restart_clock_on_def minute_def Let_def)
qed

subsection \<open>A taint that serves its hero\<close>

text \<open>When a taint is still wanted: its hero exists, is active and unfinished, is not admitted or is admitted
  onto this node with pods still to start, and the drain has time left or has lost its clock.\<close>

definition serves :: "kueue_lib \<Rightarrow> Config \<Rightarrow> world \<Rightarrow> node \<Rightarrow> namespaced_name \<Rightarrow> bool" where
  "serves L cfg w n k \<longleftrightarrow>
     (\<exists>hero. find_workload k (w_Workloads w) = Some hero \<and> waits L w n hero \<and>
        (\<forall>t. drainStartedAt n = Some t \<longrightarrow> 0 < time_left cfg (w_Now w) t))"

lemma serves_verdict: "serves L cfg w n k \<longleftrightarrow> (\<forall>oc. verdict L cfg w n k \<noteq> Remove oc)"
  by (auto simp: serves_def waits_def verdict_def deadline_verdict_def not_le split: option.splits if_splits)

text \<open>C15: In an undisturbed cluster the janitor takes the drain taint off a node exactly when it no longer serves
  its hero. If it serves, every node keeps every field, except that a drain whose start time is missing or
  unreadable has the present recorded on this node as its start time, and no workload and no pod changes.
  Otherwise this node loses the taint and the drain annotations and keeps everything else, every other node
  keeps every field, and exactly the workloads marked for the hero are handed back.\<close>

theorem janitor_removes_exactly_the_useless:
  assumes "quiet w" "distinct (map wl_Key (w_Workloads w))" "distinct (map node_Name (w_Nodes w))"
    and "find_node nm (w_Nodes w) = Some n" "Owner n (cfg_TaintKey cfg) = Some k"
  shows "let w' = snd (Janitor.Reconcile L cfg nm w) in
     if serves L cfg w n k
     then w_Workloads w' = w_Workloads w \<and> w_Pods w' = w_Pods w \<and>
       (\<exists>rv. w_Nodes w' = map (\<lambda>m. if m = n \<and> drainStartedAt n = None
          then (restart_clock_on (w_Now w) n)\<lparr>node_ResourceVersion := rv\<rparr> else m) (w_Nodes w))
     else w_Workloads w' = map (handed_back k) (w_Workloads w) \<and>
       list_all2 (untainted (cfg_TaintKey cfg) k {nm}) (w_Nodes w) (w_Nodes w')"
proof (cases "verdict L cfg w n k")
  case (Remove oc)
  obtain evs where "seq (if oc = OutcomeTimedOut then warn_timeout cfg k else ret ()) (teardown L cfg nm k oc) w
      = teardown L cfg nm k oc (w\<lparr>w_Events := evs\<rparr>)"
    by (cases "oc = OutcomeTimedOut")
      (auto simp: seq_def andthen_def ret_def warn_timeout_def emit_def intro: that[of "w_Events w"])
  then have "Janitor.Reconcile L cfg nm w = teardown L cfg nm k oc (w\<lparr>w_Events := evs\<rparr>)"
    using Remove assms by (simp add: quiet_janitor)
  moreover have "wf_key k" using assms(5) by (simp add: Owner_Some)
  ultimately show ?thesis
    using quiet_teardown[of "w\<lparr>w_Events := evs\<rparr>" k L cfg nm oc] assms(1-3) Remove serves_verdict[of L cfg w n k]
    by (auto simp: handed_back_def[abs_def] marked_for_def)
next
  case (Wait d)
  then have "drainStartedAt n \<noteq> None" by (auto simp: verdict_def deadline_verdict_def split: option.splits if_splits)
  with Wait show ?thesis
    using assms serves_verdict[of L cfg w n k] by (auto simp: quiet_janitor ret_def)
next
  case RestartClock
  then have lost: "drainStartedAt n = None" by (auto simp: verdict_def deadline_verdict_def split: option.splits if_splits)
  have "snd (Janitor.Reconcile L cfg nm w) = log_write (NodePatched n n (clocked w n)) (put_node (clocked w n) w)"
    using RestartClock
    by (simp add: quiet_janitor[OF assms(1)] assms(4,5) seq_def andthen_def ret_def quiet_restartClock[OF assms(1,4)])
  moreover have "w_Nodes (log_write (NodePatched n n (clocked w n)) (put_node (clocked w n) w))
      = map (\<lambda>m. if m = n \<and> drainStartedAt n = None
          then (restart_clock_on (w_Now w) n)\<lparr>node_ResourceVersion := Suc (w_Revision w)\<rparr> else m) (w_Nodes w)"
    using clocked_nodes[OF assms(3,4)] by (simp add: clocked_eq lost log_write_def)
  ultimately show ?thesis
    using RestartClock serves_verdict[of L cfg w n k] by (auto simp: Let_def log_write_def put_node_def)
qed

definition ex_orphaned :: world where
  "ex_orphaned = ex_world [ex_drained_node] [suspended (OwnerRef ex_hero_key) ex_job] [ex_pod]"

lemma ex_orphaned_wf:
  "quiet ex_orphaned" "distinct (map wl_Key (w_Workloads ex_orphaned))" "distinct (map node_Name (w_Nodes ex_orphaned))"
  "find_node ''n1'' (w_Nodes ex_orphaned) = Some ex_drained_node"
  by (simp_all add: quiet_def ex_orphaned_def ex_world_def find_node_def ex_drained_node_def ex_node_def)

lemma ex_orphaned_gone: "find_workload ex_hero_key (w_Workloads ex_orphaned) = None"
  by (simp add: ex_orphaned_def ex_world_def find_workload_def ex_job_def ex_victim_def ex_hero_key_def)

lemma ex_orphaned_owned: "owned_names ''k'' ex_hero_key (w_Nodes ex_orphaned) = [''n1'']"
  using ex_drained_node_owner
  by (simp add: owned_names_def ex_orphaned_def ex_world_def ex_config_def ex_drained_node_def ex_node_def)

lemma ex_handed_back:
  "map (handed_back ex_hero_key) (w_Workloads ex_orphaned) = [ex_job\<lparr>wl_Active := Some True\<rparr>]"
proof -
  have "(wl_Annotations ex_job)(DeactivatedForAnnotation := None) = wl_Annotations ex_job"
    by (rule fun_upd_idem) (simp add: ex_job_def ex_victim_def ex_hero_def)
  then show ?thesis
    by (simp add: ex_orphaned_def ex_world_def handed_back_def marked_for_def suspended_def reactivated_def)
qed

theorem janitor_removes_exactly_the_useless_witness:
  "w_Workloads (snd (Janitor.Reconcile ex_lib ex_config ''n1'' ex_orphaned)) = [ex_job\<lparr>wl_Active := Some True\<rparr>] \<and>
   w_Workloads (snd (Janitor.Reconcile ex_lib ex_config ''n1'' ex_draining)) = w_Workloads ex_draining"
proof -
  have "\<not> serves ex_lib ex_config ex_orphaned ex_drained_node ex_hero_key"
    by (simp add: serves_def ex_orphaned_gone)
  moreover have "serves ex_lib ex_config ex_draining ex_drained_node ex_hero_key"
    by (simp add: serves_verdict ex_draining_verdict)
  ultimately show ?thesis
    using janitor_removes_exactly_the_useless[OF ex_orphaned_wf ex_drained_node_owner, of ex_lib]
      janitor_removes_exactly_the_useless[OF ex_draining_wf ex_draining_node ex_drained_node_owner, of ex_lib]
    by (simp add: Let_def ex_handed_back)
qed

subsection \<open>A drain ends\<close>

text \<open>C6: In an undisturbed cluster whose caches are current, a drain ends once the janitor's verdict on each of
  its nodes is to take the taint off, be it that the hero is deleted, deactivated, finished, placed elsewhere or
  fully running, or that the drain is past its deadline, provided the hero, if deactivated, is not itself marked
  as a victim of its own drain: after the janitor has visited each node of the drain once, in any order,
  each of them has lost the taint and the drain annotations and kept everything else, every other node keeps
  every field, so every other owner keeps its nodes, exactly the workloads marked for the hero are handed back,
  and the drain is counted once, under the reason found on the last node. The gate is open again: a hero that
  waited for this drain alone is no longer blocked.\<close>

theorem drain_ends:
  assumes "quiet w" "distinct (map wl_Key (w_Workloads w))" "distinct (map node_Name (w_Nodes w))"
    and "\<And>n. n \<in> set (w_Nodes w) \<Longrightarrow> Owner n (cfg_TaintKey cfg) = Some k \<Longrightarrow> verdict L cfg w n k = Remove (oc (node_Name n))"
    and "\<And>hero. find_workload k (w_Workloads w) = Some hero \<Longrightarrow> deactivated hero \<Longrightarrow> \<not> marked_for k hero"
    and "distinct nms" "set nms = {node_Name n | n. n \<in> set (w_Nodes w) \<and> Owner n (cfg_TaintKey cfg) = Some k}" "nms \<noteq> []"
  shows "let w' = visit_nodes L cfg nms w; reason = oc (last nms) in
     list_all2 (cleared (cfg_TaintKey cfg) k) (w_Nodes w) (w_Nodes w') \<and>
     node_owners (cfg_TaintKey cfg) (w_Nodes w') = node_owners (cfg_TaintKey cfg) (w_Nodes w) - {k} \<and>
     w_Workloads w' = map (\<lambda>wl. if marked_for k wl then reactivated wl else wl) (w_Workloads w) \<and>
     DrainsCompleted (w_Metrics w') = (DrainsCompleted (w_Metrics w))(reason := Suc (DrainsCompleted (w_Metrics w) reason)) \<and>
     DrainsTimedOut (w_Metrics w') = DrainsTimedOut (w_Metrics w) + (if reason = OutcomeTimedOut then 1 else 0) \<and>
     (\<forall>j. node_owners (cfg_TaintKey cfg) (w_Nodes w) \<subseteq> {j, k} \<longrightarrow> BlockingDrain (drains_in cfg w') j = None)"
proof -
  have "set nms = set (owned_names (cfg_TaintKey cfg) k (w_Nodes w))"
    using assms(7) by (auto simp: owned_names_def)
  moreover have "ended L cfg w k oc" using assms(4,5) by (simp add: ended_def)
  ultimately have visited: "list_all2 (untainted (cfg_TaintKey cfg) k (set nms)) (w_Nodes w) (w_Nodes (visit_nodes L cfg nms w))"
    and rest: "w_Workloads (visit_nodes L cfg nms w) = map (handed_back k) (w_Workloads w)"
    "completes (oc (last nms)) w (visit_nodes L cfg nms w)"
    using ended_drain_visited[OF assms(1-3) _ _ assms(6,8)] by blast+
  have cleared: "list_all2 (cleared (cfg_TaintKey cfg) k) (w_Nodes w) (w_Nodes (visit_nodes L cfg nms w))"
    using untainted_cleared[OF visited] assms(7) by (auto simp: owned_names_def)
  note fin = cleared_owners[OF cleared] rest cleared
  have "BlockingDrain (drains_in cfg (visit_nodes L cfg nms w)) j = None"
    if "node_owners (cfg_TaintKey cfg) (w_Nodes w) \<subseteq> {j, k}" for j
  proof -
    have "fst ` set (drains_in cfg (visit_nodes L cfg nms w)) \<subseteq> {j}"
      using that fin(1) by (auto simp: drains_in_def FindDrains_keys node_owners_def)
    then show ?thesis by (simp add: drains_in_def BlockingDrain_None[OF wf_FindDrains])
  qed
  with fin show ?thesis
    by (simp add: Let_def completes_def handed_back_def[abs_def] of_bool_def)
qed

text \<open>A drain of two nodes, a minute past its deadline, with a victim still suspended.\<close>

definition ex_overdue :: world where
  "ex_overdue = (ex_world [ex_drained_node, add_drain_taint ''k'' ex_hero_key ''hq'' (10 * hour) (ex_node ''n2'' ''b2'')]
     [ex_hero, suspended (OwnerRef ex_hero_key) ex_job] [])\<lparr>w_Now := 10 * hour + 31 * minute\<rparr>"

lemma ex_overdue_wf:
  "quiet ex_overdue" "distinct (map wl_Key (w_Workloads ex_overdue))" "distinct (map node_Name (w_Nodes ex_overdue))"
  "find_workload ex_hero_key (w_Workloads ex_overdue) = Some ex_hero"
  by (simp_all add: quiet_def ex_overdue_def ex_world_def ex_job_def ex_victim_def ex_hero_def ex_hero_key_def
      ex_drained_node_def ex_node_def find_workload_def)

lemma ex_overdue_owned:
  "map node_Name (w_Nodes ex_overdue) = [''n1'', ''n2'']"
  "map (\<lambda>n. Owner n (cfg_TaintKey ex_config)) (w_Nodes ex_overdue) = [Some ex_hero_key, Some ex_hero_key]"
  using ex_drained_node_owner Owner_add_drain_taint[OF ex_cluster_wf(4), of "''k''"]
  by (simp_all add: ex_overdue_def ex_world_def ex_drained_node_def ex_node_def ex_config_def)

lemma ex_overdue_verdicts:
  assumes "n \<in> set (w_Nodes ex_overdue)"
  shows "verdict ex_lib ex_config ex_overdue n ex_hero_key = Remove OutcomeTimedOut"
proof -
  have "list_all (\<lambda>n. case verdict ex_lib ex_config ex_overdue n ex_hero_key of Remove OutcomeTimedOut \<Rightarrow> True | _ \<Rightarrow> False)
      (w_Nodes ex_overdue)"
    by code_simp
  with assms have "case verdict ex_lib ex_config ex_overdue n ex_hero_key of Remove OutcomeTimedOut \<Rightarrow> True | _ \<Rightarrow> False"
    by (simp add: list_all_iff)
  then show ?thesis by (simp split: verdict.splits outcome.splits)
qed

theorem drain_ends_witness:
  "let w' = visit_nodes ex_lib ex_config [''n2'', ''n1''] ex_overdue in
     node_owners ''k'' (w_Nodes ex_overdue) = {ex_hero_key} \<and> node_owners ''k'' (w_Nodes w') = {} \<and>
     map wl_Active (w_Workloads w') = [None, Some True] \<and> DrainsCompleted (w_Metrics w') OutcomeTimedOut = 1 \<and>
     DrainsTimedOut (w_Metrics w') = 1 \<and> BlockingDrain (drains_in ex_config w') (NamespacedName ''b'' ''rival'') = None"
proof -
  have k: "cfg_TaintKey ex_config = ''k''" by (simp add: ex_config_def)
  obtain n1 n2 where ns: "w_Nodes ex_overdue = [n1, n2]" "node_Name n1 = ''n1''" "node_Name n2 = ''n2''"
    "Owner n1 (cfg_TaintKey ex_config) = Some ex_hero_key" "Owner n2 (cfg_TaintKey ex_config) = Some ex_hero_key"
    using ex_overdue_owned by (auto simp: map_eq_Cons_conv)
  have owners: "node_owners ''k'' (w_Nodes ex_overdue) = {ex_hero_key}"
    using ns(4,5) unfolding ns(1) k by (auto simp: node_owners_def)
  have visited: "set [''n2'', ''n1''] = {node_Name n | n. n \<in> set (w_Nodes ex_overdue) \<and>
      Owner n (cfg_TaintKey ex_config) = Some ex_hero_key}"
    using ns by (auto intro: exI[of _ n1] exI[of _ n2])
  have "\<not> marked_for ex_hero_key hero" if "find_workload ex_hero_key (w_Workloads ex_overdue) = Some hero" for hero
  proof -
    have "hero = ex_hero" using that ex_overdue_wf(4) by simp
    then show ?thesis by (simp add: marked_for_def ex_hero_def)
  qed
  with drain_ends[OF ex_overdue_wf(1-3), where k = ex_hero_key and L = ex_lib and cfg = ex_config
      and oc = "\<lambda>_. OutcomeTimedOut", OF ex_overdue_verdicts _ _ visited]
  have fin: "let w' = visit_nodes ex_lib ex_config [''n2'', ''n1''] ex_overdue in
     node_owners ''k'' (w_Nodes w') = {} \<and>
     w_Workloads w' = map (\<lambda>wl. if marked_for ex_hero_key wl then reactivated wl else wl) (w_Workloads ex_overdue) \<and>
     DrainsCompleted (w_Metrics w') OutcomeTimedOut = Suc (DrainsCompleted (w_Metrics ex_overdue) OutcomeTimedOut) \<and>
     DrainsTimedOut (w_Metrics w') = DrainsTimedOut (w_Metrics ex_overdue) + 1 \<and>
     BlockingDrain (drains_in ex_config w') (NamespacedName ''b'' ''rival'') = None"
    by (simp add: Let_def k owners)
  have "map (\<lambda>wl. wl_Active (if marked_for ex_hero_key wl then reactivated wl else wl)) (w_Workloads ex_overdue) = [None, Some True]"
    by (simp add: ex_overdue_def ex_world_def marked_for_def suspended_def reactivated_def ex_hero_def)
  moreover have "DrainsCompleted (w_Metrics ex_overdue) OutcomeTimedOut = 0" "DrainsTimedOut (w_Metrics ex_overdue) = 0"
    by (simp_all add: ex_overdue_def ex_world_def ex_metrics_def)
  ultimately show ?thesis using fin owners by (simp add: Let_def comp_def)
qed

end
