(* ===== verification/System_Properties.thy ===== *)
theory System_Properties
  imports System Janitor_Properties
begin

text \<open>
  Properties of both controllers together: what holds in every cluster reachable by their reconciles,
  in any order, with other actors and failing calls in between.
\<close>

lemma ex_idle_reachable: "reachable K ex_lib ex_config ex_idle_cluster"
  by (rule reachable.fresh[where k = ex_hero_key])
    (simp_all add: ex_idle_wf, simp_all add: node_owners_def ex_idle_cluster_def ex_world_def ex_node_def Owner_def
      honest_script_def)

definition ex_started :: world where
  "ex_started = handle ex_lib ex_config (DrainRequest ex_hero_key) ex_idle_cluster"

lemma ex_started_reachable: "reachable K ex_lib ex_config ex_started"
  unfolding ex_started_def
  by (rule reachable_quiet[OF ex_idle_reachable ex_idle_wf(1)]) (simp add: ex_cluster_wf(4))

text \<open>C1: One drain at a time: as long as the cache of nodes has caught up with the cluster each reconcile starts
  in, in every reachable cluster all drain taints belong to one hero, whatever order the two controllers'
  reconciles come in, whatever other actors do between their calls short of forging drain marks,
  whichever calls fail or are lost, and however far the caches of all other kinds of object lag.\<close>

theorem one_drain_at_a_time:
  assumes "reachable K L cfg w" "KNode \<notin> K" "n \<in> set (w_Nodes w)" "n' \<in> set (w_Nodes w)"
    and "Owner n (cfg_TaintKey cfg) = Some a" "Owner n' (cfg_TaintKey cfg) = Some b"
  shows "a = b"
  using reachable_one_owner[OF assms(2,1)] assms(3-)
  by (auto simp: one_owner_def owners_in_def node_owners_def)

text \<open>A domain of two nodes, drained: both nodes are owned, by the same hero.\<close>

definition ex_pair :: world where
  "ex_pair = ex_world [ex_node ''n1'' ''b1'', ex_node ''n2'' ''b1''] [ex_hero] []"

lemma ex_pair_reachable: "reachable K ex_lib ex_config (handle ex_lib ex_config (DrainRequest ex_hero_key) ex_pair)"
proof (rule reachable_quiet)
  show "reachable K ex_lib ex_config ex_pair"
    by (rule reachable.fresh[where k = ex_hero_key])
      (simp_all add: versions_ok_new nodes_ok_def node_owners_def ex_pair_def ex_world_def ex_node_def Owner_def honest_script_def)
qed (simp_all add: quiet_def ex_pair_def ex_world_def ex_cluster_wf(4))

theorem one_drain_at_a_time_witness:
  "\<exists>n n' a b. w_Nodes (handle ex_lib ex_config (DrainRequest ex_hero_key) ex_pair) = [n, n'] \<and>
     Owner n ''k'' = Some a \<and> Owner n' ''k'' = Some b \<and> a = b"
proof -
  let ?w = "handle ex_lib ex_config (DrainRequest ex_hero_key) ex_pair"
  have "case w_Nodes ?w of [n, n'] \<Rightarrow> Owner n ''k'' \<noteq> None \<and> Owner n' ''k'' \<noteq> None | _ \<Rightarrow> False"
    by code_simp
  then obtain n n' a b where n: "w_Nodes ?w = [n, n']" "Owner n ''k'' = Some a" "Owner n' ''k'' = Some b"
    by (auto split: list.splits)
  then have mem: "n \<in> set (w_Nodes ?w)" "n' \<in> set (w_Nodes ?w)" by simp_all
  have "cfg_TaintKey ex_config = ''k''" by (simp add: ex_config_def)
  with one_drain_at_a_time[OF ex_pair_reachable[of "{}"] _ mem, of a b] n have "a = b" by simp
  with n show ?thesis by blast
qed

text \<open>C4: No workload is suspended that was read as a hero: in every history of the two controllers, however far
  the caches lag, a workload write that turns a workload inactive was made on a workload that does not name
  the hero priority class when read, and the workload ends marked for the hero it makes room for, unless
  it was marked so already.\<close>

theorem only_victims_are_suspended:
  assumes "reachable K L cfg w" "WorkloadPatched old cur new \<in> set (w_Log w)"
    and "deactivated new" "\<not> deactivated cur"
  shows "\<not> hero_classed cfg old \<and> \<not> deactivated old \<and> workload_frame cur new \<and>
     (\<exists>hero. wf_key hero \<and> wl_Key old \<noteq> hero \<and> (marked_for hero new \<or> marked_for hero old))"
proof -
  have "allowed_write cfg (WorkloadPatched old cur new)"
    using reachable_writes[OF assms(1)] assms(2) by (auto simp: versioned_def writes_ok_def)
  then show ?thesis
    using assms(3,4) by (auto simp: allowed_write_def suspends_def hands_back_def deactivated_def split: if_splits)
qed

lemma ex_served_reachable: "reachable K ex_lib ex_config ex_served"
  by (rule reachable.fresh[where k = ex_hero_key])
    (use ex_drained_node_owner in \<open>auto simp: node_owners_def ex_served_def ex_world_def honest_script_def
       versions_ok_new nodes_ok_def ex_drained_node_def ex_node_def\<close>)

lemma one_suspension:
  "(case l of [WorkloadPatched old cur new] \<Rightarrow> P old cur new | _ \<Rightarrow> False) \<Longrightarrow>
     \<exists>old cur new. l = [WorkloadPatched old cur new] \<and> P old cur new"
  by (cases l; cases "tl l"; cases "hd l") auto

lemma one_update:
  "(case l of NodeUpdated cur new # rest \<Rightarrow> P cur new | _ \<Rightarrow> False) \<Longrightarrow>
     \<exists>cur new rest. l = NodeUpdated cur new # rest \<and> P cur new"
  by (cases l; cases "hd l") auto

definition ex_history :: "api_write list" where
  "ex_history = w_Log (handle ex_lib ex_config (DrainRequest ex_hero_key) ex_served)"

theorem only_victims_are_suspended_witness:
  "\<exists>old cur new. ex_history = [WorkloadPatched old cur new] \<and> \<not> hero_classed ex_config old \<and> workload_frame cur new"
proof -
  have "case ex_history of [WorkloadPatched old cur new] \<Rightarrow> deactivated new \<and> \<not> deactivated cur | _ \<Rightarrow> False"
    by code_simp
  then obtain old cur new where h: "ex_history = [WorkloadPatched old cur new]" "deactivated new" "\<not> deactivated cur"
    by (rule one_suspension[THEN exE]) blast
  have "reachable UNIV ex_lib ex_config (handle ex_lib ex_config (DrainRequest ex_hero_key) ex_served)"
    by (rule reachable_quiet[OF ex_served_reachable ex_served_wf(1)]) (simp add: ex_cluster_wf(4))
  from only_victims_are_suspended[OF this _ h(2,3), of old] h show ?thesis
    by (auto simp: ex_history_def)
qed

text \<open>Every node write in every history leaves the node as it was but for the drain key and the drain
  annotations; a node update hands the node to a new owner only when no taint of the key was on it, and a
  node patch never changes the owner.\<close>

theorem node_writes_touch_marks_only:
  assumes "reachable K L cfg w"
  shows "(\<forall>cur new. NodeUpdated cur new \<in> set (w_Log w) \<longrightarrow>
       marks_only (cfg_TaintKey cfg) cur new \<and>
       (Owner new (cfg_TaintKey cfg) \<noteq> None \<longrightarrow> (\<forall>t \<in> set (node_Taints cur). taint_Key t \<noteq> cfg_TaintKey cfg))) \<and>
     (\<forall>old cur new. NodePatched old cur new \<in> set (w_Log w) \<longrightarrow>
       marks_only (cfg_TaintKey cfg) cur new \<and> Owner new (cfg_TaintKey cfg) = Owner cur (cfg_TaintKey cfg))"
proof -
  have "\<forall>x \<in> set (w_Log w). allowed_write cfg x"
    using reachable_writes[OF assms] by (simp add: versioned_def writes_ok_def)
  then show ?thesis
    by (fastforce simp: allowed_write_def taints_for_def untaints_for_def)
qed

theorem node_writes_touch_marks_only_witness:
  "\<exists>cur new rest. w_Log ex_started = NodeUpdated cur new # rest \<and> marks_only ''k'' cur new \<and>
     list_all (\<lambda>t. taint_Key t \<noteq> ''k'') (node_Taints cur)"
proof -
  have "case w_Log ex_started of NodeUpdated cur new # rest \<Rightarrow> Owner new ''k'' = Some ex_hero_key | _ \<Rightarrow> False"
    by code_simp
  then have "\<exists>cur new rest. w_Log ex_started = NodeUpdated cur new # rest \<and> Owner new ''k'' = Some ex_hero_key"
    by (rule one_update)
  then obtain cur new rest where h: "w_Log ex_started = NodeUpdated cur new # rest" "Owner new ''k'' = Some ex_hero_key"
    by blast
  moreover have "cfg_TaintKey ex_config = ''k''" by (simp add: ex_config_def)
  ultimately show ?thesis
    using node_writes_touch_marks_only[OF ex_started_reachable[of UNIV]] by (auto simp: list_all_iff)
qed

end
