(* ===== verification/Lag_Properties.thy ===== *)
theory Lag_Properties
  imports System_Properties
begin

text \<open>
  The controllers under lagging caches. The gate that serializes drains reads the cache of nodes: while
  that cache is behind, a second drain can start, and of two drains neither hero's reconcile moves. The
  count of completed drains reads the same cache. What lag cannot break is the exclusive ownership of
  each node, which the optimistic update protects.
\<close>

subsection \<open>A second drain behind a stale cache\<close>

text \<open>A second hero, of higher priority, that appears right after the first drain has tainted its node.\<close>

definition ex_rival_key :: namespaced_name where
  "ex_rival_key = NamespacedName ''a'' ''rival''"

definition ex_rival :: workload where
  "ex_rival = ex_hero\<lparr>wl_Key := ex_rival_key, wl_UID := ''u9'', wl_Priority := Some 200\<rparr>"

definition ex_two_blocks :: world where
  "ex_two_blocks = ex_world [ex_node ''n1'' ''b1'', ex_node ''n2'' ''b2''] [ex_hero] []"

text \<open>The fourth call of the reconcile, the list of the drains in flight, is answered from before that taint.\<close>

definition stale_gate :: "(interference list \<times> fault option) list" where
  "stale_gate = [([], None), ([], None), ([], None), ([], Some (Lagging (\<lambda>k. if k = KNode then 3 else 0)))]"

definition ex_race :: world where
  "ex_race =
     (let w1 = handle ex_lib ex_config (DrainRequest ex_hero_key) ex_two_blocks;
          w2 = interfere [AddWorkload ex_rival] w1
      in handle ex_lib ex_config (DrainRequest ex_rival_key) (w2\<lparr>w_Script := stale_gate\<rparr>))"

lemma ex_two_blocks_reachable: "reachable K ex_lib ex_config ex_two_blocks"
  by (rule reachable.fresh[where k = ex_hero_key])
    (simp_all add: versions_ok_new nodes_ok_def node_owners_def honest_script_def ex_two_blocks_def ex_world_def
      ex_node_def Owner_def)

lemma ex_race_reachable: "reachable {KNode} ex_lib ex_config ex_race"
proof -
  have start: "quiet ex_two_blocks" by (simp add: quiet_def ex_two_blocks_def ex_world_def)
  have script: "honest_script key (w\<lparr>w_Script := stale_gate\<rparr>)" "caught_up {KNode} 0 stale_gate" for key w
    by (simp_all add: stale_gate_def honest_script_def)
  show ?thesis
    unfolding ex_race_def Let_def
    by (intro reachable.reconcile[OF reachable.others[OF reachable_quiet[OF ex_two_blocks_reachable start]]] script)
      (simp_all add: ex_rival_key_def ex_hero_key_def wf_key_def)
qed

text \<open>The gate that lets one hero drain at a time is only as good as the cache of nodes it reads. In this cluster a
  hero comes first in line right after another one has tainted its domain, and its reconcile is answered from
  before that taint: it taints a domain of its own, and two heroes own drains in a reachable cluster.\<close>

theorem stale_gate_starts_second_drain:
  "reachable {KNode} ex_lib ex_config ex_race \<and>
   map (\<lambda>n. Owner n (cfg_TaintKey ex_config)) (w_Nodes ex_race) = [Some ex_hero_key, Some ex_rival_key]"
proof
  show "map (\<lambda>n. Owner n (cfg_TaintKey ex_config)) (w_Nodes ex_race) = [Some ex_hero_key, Some ex_rival_key]"
    by code_simp
qed (rule ex_race_reachable)

subsection \<open>Two drains stand still\<close>

lemma owner_drain: "n \<in> set (w_Nodes w) \<Longrightarrow> Owner n (cfg_TaintKey cfg) = Some k \<Longrightarrow> k \<in> fst ` set (drains_in cfg w)"
  by (auto simp: drains_in_def FindDrains_keys)

lemma decide_blocked:
  assumes "wl \<in> set (stuck_heroes cfg w)" "wl_Annotations wl DeactivatedForAnnotation = None"
    and "\<And>cq. cq_of w wl = Some cq \<Longrightarrow>
      GPURequest wl (cfg_GPUResourceName cfg) \<le> gpuNominalQuota cq (cfg_GPUResourceName cfg)"
    and "n \<in> set (w_Nodes w)" "Owner n (cfg_TaintKey cfg) = Some other" "other \<noteq> k"
  obtains cq blocking where "decide L cfg w k wl = Served cq (length (drains_in cfg w)) (Queued blocking)"
proof -
  have wl: "\<not> deactivated wl" "IsStuckTASNoFit wl (cfg_StuckDetection cfg)" "is_hero_in cfg w wl"
    using assms(1) by (auto simp: stuck_heroes_def)
  then obtain cq where cq: "cq_of w wl = Some cq"
    by (cases "cq_of w wl") (auto simp: is_hero_in_def IsHero_def)
  have "BlockingDrain (drains_in cfg w) k \<noteq> None"
    using owner_drain[OF assms(4,5)] assms(6) BlockingDrain_None[OF wf_FindDrains]
    by (auto simp: drains_in_def)
  then obtain blocking where "BlockingDrain (drains_in cfg w) k = Some blocking" by blast
  with wl cq assms(2) assms(3)[OF cq] have "decide L cfg w k wl = Served cq (length (drains_in cfg w)) (Queued blocking)"
    by (simp add: decide_def decide_hero_def not_less)
  then show ?thesis by (rule that)
qed

text \<open>C20: A drain waits behind another one, also for its own cleanup. In an undisturbed cluster where another hero owns a
  drain taint, the reconcile of a stuck active hero, no victim itself and within the nominal GPU quota of its queue,
  asks to be called again after 30 seconds and writes nothing, whether or not the hero owns a drain: it taints no node,
  suspends no victim and hands none back. And the janitor, visiting a node of that hero's own drain that
  still serves it, its deadline ahead and its start time readable, leaves everything as it is. So of two
  such drains neither hero's reconcile advances or ends its own; its victims may still come back by their own
  events.\<close>

theorem two_drains_stand_still:
  assumes "quiet w" "distinct (map node_Name (w_Nodes w))"
    and "find_workload k (w_Workloads w) = Some wl" "wl \<in> set (stuck_heroes cfg w)"
    and "wl_Annotations wl DeactivatedForAnnotation = None"
    and "\<And>cq. cq_of w wl = Some cq \<Longrightarrow>
      GPURequest wl (cfg_GPUResourceName cfg) \<le> gpuNominalQuota cq (cfg_GPUResourceName cfg)"
    and "n \<in> set (w_Nodes w)" "Owner n (cfg_TaintKey cfg) = Some other" "other \<noteq> k"
  shows "fst (Drain_Ctrl.Reconcile L cfg k w) = Inr (requeue_after requeueWhileQueued) \<and>
     untouched w (snd (Drain_Ctrl.Reconcile L cfg k w)) \<and>
     (\<forall>m \<in> set (w_Nodes w). Owner m (cfg_TaintKey cfg) = Some k \<and> serves L cfg w m k \<and> drainStartedAt m \<noteq> None \<longrightarrow>
        snd (Janitor.Reconcile L cfg (node_Name m) w) = w)"
proof (intro conjI ballI impI)
  obtain cq blocking where d: "decide L cfg w k wl = Served cq (length (drains_in cfg w)) (Queued blocking)"
    using decide_blocked[OF assms(4-9)] by metis
  define w1 where "w1 = w\<lparr>w_Metrics := set_in_flight (length (drains_in cfg w)) (w_Metrics w)\<rparr>"
  obtain w2 where w2: "reportDrainQueued wl blocking w1 = (Inr (), w2)" "untouched w1 w2"
    using untouched_reportDrainQueued[of w1 wl blocking] assms(1)
    by (simp add: w1_def reportDrainQueued_def andthen_def attempt_def quiet_reads emit_def)
  have "Drain_Ctrl.Reconcile L cfg k w = (Inr (requeue_after requeueWhileQueued), w2)"
    unfolding Reconcile_decides[OF assms(1)] assms(3)
    by (simp add: d seq_def andthen_def count_metric_def w1_def[symmetric] w2(1) ret_def)
  with w2(2) show "fst (Drain_Ctrl.Reconcile L cfg k w) = Inr (requeue_after requeueWhileQueued)"
    "untouched w (snd (Drain_Ctrl.Reconcile L cfg k w))"
    by (simp_all add: untouched_def w1_def)
next
  fix m assume m: "m \<in> set (w_Nodes w)"
    "Owner m (cfg_TaintKey cfg) = Some k \<and> serves L cfg w m k \<and> drainStartedAt m \<noteq> None"
  then have "\<forall>oc. verdict L cfg w m k \<noteq> Remove oc" by (simp add: serves_verdict)
  moreover have "verdict L cfg w m k \<noteq> RestartClock"
    using m(2) by (auto simp: verdict_def deadline_verdict_def split: option.splits if_splits)
  ultimately obtain d where "verdict L cfg w m k = Wait d" by (cases "verdict L cfg w m k") auto
  moreover have "find_node (node_Name m) (w_Nodes w) = Some m"
    using assms(2) m(1) by (rule find_node_distinct)
  ultimately show "snd (Janitor.Reconcile L cfg (node_Name m) w) = w"
    using m(2) by (simp add: quiet_janitor[OF assms(1)] ret_def)
qed

definition ex_two_drains :: world where
  "ex_two_drains = ex_world
     [ex_drained_node, add_drain_taint ''k'' ex_rival_key ''hq'' (10 * hour) (ex_node ''n2'' ''b2'')] [ex_hero, ex_rival] []"

lemma ex_two_drains_wf: "quiet ex_two_drains" "distinct (map node_Name (w_Nodes ex_two_drains))"
  by (simp_all add: quiet_def ex_two_drains_def ex_world_def ex_drained_node_def ex_node_def)

lemma ex_two_drains_stuck:
  "map wl_Key (stuck_heroes ex_config ex_two_drains) = [ex_hero_key, ex_rival_key]"
  "list_all (\<lambda>wl. case cq_of ex_two_drains wl of None \<Rightarrow> False
     | Some cq \<Rightarrow> GPURequest wl (cfg_GPUResourceName ex_config) \<le> gpuNominalQuota cq (cfg_GPUResourceName ex_config))
     (w_Workloads ex_two_drains)"
  by code_simp+

theorem two_drains_stand_still_witness:
  "fst (Drain_Ctrl.Reconcile ex_lib ex_config ex_hero_key ex_two_drains) = Inr (requeue_after requeueWhileQueued) \<and>
   untouched ex_two_drains (snd (Drain_Ctrl.Reconcile ex_lib ex_config ex_hero_key ex_two_drains)) \<and>
   untouched ex_two_drains (snd (Drain_Ctrl.Reconcile ex_lib ex_config ex_rival_key ex_two_drains))"
proof -
  have keys: "wl_Key ex_hero = ex_hero_key" "wl_Key ex_rival = ex_rival_key" "ex_hero_key \<noteq> ex_rival_key"
    by (simp_all add: ex_hero_def ex_rival_def ex_hero_key_def ex_rival_key_def)
  have wls: "w_Workloads ex_two_drains = [ex_hero, ex_rival]" by (simp add: ex_two_drains_def ex_world_def)
  have "stuck_heroes ex_config ex_two_drains = [ex_hero, ex_rival]"
    using ex_two_drains_stuck(1) keys wls by (auto simp: stuck_heroes_def split: if_splits)
  then have stuck: "wl \<in> set (stuck_heroes ex_config ex_two_drains)" if "wl = ex_hero \<or> wl = ex_rival" for wl
    using that by auto
  have quota: "GPURequest wl (cfg_GPUResourceName ex_config) \<le> gpuNominalQuota cq (cfg_GPUResourceName ex_config)"
    if "wl = ex_hero \<or> wl = ex_rival" "cq_of ex_two_drains wl = Some cq" for wl cq
    using ex_two_drains_stuck(2) that wls by auto
  let ?n2 = "add_drain_taint ''k'' ex_rival_key ''hq'' (10 * hour) (ex_node ''n2'' ''b2'')"
  have mem: "ex_drained_node \<in> set (w_Nodes ex_two_drains)" "?n2 \<in> set (w_Nodes ex_two_drains)"
    by (simp_all add: ex_two_drains_def ex_world_def)
  have own: "Owner ?n2 (cfg_TaintKey ex_config) = Some ex_rival_key"
    using Owner_add_drain_taint[of ex_rival_key "''k''"] by (simp add: ex_config_def ex_rival_key_def wf_key_def)
  have find: "find_workload ex_hero_key (w_Workloads ex_two_drains) = Some ex_hero"
    "find_workload ex_rival_key (w_Workloads ex_two_drains) = Some ex_rival"
    using keys by (simp_all add: wls find_workload_def)
  have marks: "wl_Annotations ex_hero DeactivatedForAnnotation = None" "wl_Annotations ex_rival DeactivatedForAnnotation = None"
    by (simp_all add: ex_hero_def ex_rival_def)
  show ?thesis
    using two_drains_stand_still[OF ex_two_drains_wf find(1) stuck marks(1) quota mem(2) own, of ex_lib]
      two_drains_stand_still[OF ex_two_drains_wf find(2) stuck marks(2) quota mem(1) ex_drained_node_owner, of ex_lib] keys(3)
    by auto
qed

subsection \<open>What the count of completed drains sees\<close>

lemma lagging_list_nodes:
  assumes "w_Script w = [([], Some (Lagging l))]"
  shows "list_nodes sel w = (Inr (filter sel (behind (l KNode) v_Nodes (w_Past w) (w_Nodes w))), w\<lparr>w_Script := []\<rparr>)"
  using assms by (simp add: list_nodes_def read_def call_def lag_def interfere_def as_of_def)

lemma last_node_owned:
  "last_node_of (map_of (FindDrains ns key) k) nm \<longleftrightarrow> owned_names key k ns = [nm]"
  using FindDrains_nodes[of ns key k]
  by (cases "map_of (FindDrains ns key) k") (auto simp: last_node_of_def split: if_splits)

text \<open>C21: The count of completed drains is as good as the cache the teardown lists the tainted nodes from. When that
  one list is answered from an arbitrarily old state of the cluster, and every later call of the teardown is undisturbed
  and answered from the current one, the teardown takes the hero's taint off the node and hands its suspended
  victims back; but it counts the drain exactly when the list shows this node as the drain's only one. So a
  teardown of the last node that is answered from before the previous one counts nothing, and one whose list
  misses the other nodes counts a drain that goes on.\<close>

theorem teardown_counts_what_the_cache_shows:
  assumes "w_Script w = [([], Some (Lagging l))]" "wf_key owner"
    and "distinct (map wl_Key (w_Workloads w))" "distinct (map node_Name (w_Nodes w))"
  shows "let w' = snd (teardown L cfg nm owner oc w);
       shown = behind (l KNode) v_Nodes (w_Past w) (w_Nodes w) in
     list_all2 (untainted (cfg_TaintKey cfg) owner {nm}) (w_Nodes w) (w_Nodes w') \<and>
     w_Workloads w' = map (handed_back owner) (w_Workloads w) \<and>
     DrainsCompleted (w_Metrics w') =
       (if owned_names (cfg_TaintKey cfg) owner shown = [nm]
        then (DrainsCompleted (w_Metrics w))(oc := Suc (DrainsCompleted (w_Metrics w) oc))
        else DrainsCompleted (w_Metrics w))"
proof -
  let ?shown = "behind (l KNode) v_Nodes (w_Past w) (w_Nodes w)" and ?w0 = "w\<lparr>w_Script := []\<rparr>"
  have list: "list_nodes (MatchingFields (NodeDrainTainted cfg) index_true) w
      = (Inr (filter (\<lambda>n. Owner n (cfg_TaintKey cfg) \<noteq> None) ?shown), ?w0)"
    by (simp only: lagging_list_nodes[OF assms(1)] index_selects)
  have "quiet ?w0" "distinct (map wl_Key (w_Workloads ?w0))" "distinct (map node_Name (w_Nodes ?w0))"
    using assms(3,4) by (simp_all add: quiet_def)
  from teardown_after_list[OF list this assms(2), of L nm oc, unfolded FindDrains_filter last_node_owned]
  show ?thesis by (auto simp: handed_back_def[abs_def] marked_for_def Let_def)
qed

text \<open>An abandoned drain of two nodes, the first one just torn down.\<close>

definition ex_half_done :: world where
  "ex_half_done = handle ex_lib ex_config (JanitorRequest ''n1'') (ex_world
     [ex_drained_node, add_drain_taint ''k'' ex_hero_key ''hq'' (10 * hour) (ex_node ''n2'' ''b2'')] [] [])"

definition stale_teardown :: world where
  "stale_teardown = ex_half_done\<lparr>w_Script := [([], Some (Lagging (\<lambda>k. if k = KNode then 1 else 0)))]\<rparr>"

theorem teardown_counts_what_the_cache_shows_witness:
  "let w' = snd (teardown ex_lib ex_config ''n2'' ex_hero_key OutcomeAbandoned stale_teardown) in
     node_owners ''k'' (w_Nodes w') = {} \<and> DrainsCompleted (w_Metrics w') OutcomeAbandoned = 0"
proof -
  have state: "map node_Name (w_Nodes stale_teardown) = [''n1'', ''n2'']"
    "map (\<lambda>n. Owner n ''k'') (w_Nodes stale_teardown) = [None, Some ex_hero_key]"
    "w_Workloads stale_teardown = []" "DrainsCompleted (w_Metrics stale_teardown) OutcomeAbandoned = 0"
    "owned_names ''k'' ex_hero_key (behind 1 v_Nodes (w_Past stale_teardown) (w_Nodes stale_teardown)) = [''n1'', ''n2'']"
    by code_simp+
  have owned: "node_owners ''k'' (w_Nodes stale_teardown) \<subseteq> {ex_hero_key}"
    "set (owned_names ''k'' ex_hero_key (w_Nodes stale_teardown)) \<subseteq> {''n2''}"
    using state(1,2) by (auto simp: node_owners_def owned_names_def map_eq_Cons_conv)
  have k: "cfg_TaintKey ex_config = ''k''" by (simp add: ex_config_def)
  have "wf_key ex_hero_key" by (simp add: wf_key_def ex_hero_key_def)
  from teardown_counts_what_the_cache_shows[of stale_teardown, OF _ this, of _ ex_lib ex_config "''n2''" OutcomeAbandoned]
  have "list_all2 (untainted ''k'' ex_hero_key {''n2''}) (w_Nodes stale_teardown)
      (w_Nodes (snd (teardown ex_lib ex_config ''n2'' ex_hero_key OutcomeAbandoned stale_teardown)))"
    "DrainsCompleted (w_Metrics (snd (teardown ex_lib ex_config ''n2'' ex_hero_key OutcomeAbandoned stale_teardown)))
      = DrainsCompleted (w_Metrics stale_teardown)"
    using state by (simp_all add: Let_def k stale_teardown_def)
  with untainted_owners[OF this(1) owned(2)] owned(1) state(4) show ?thesis
    by (auto simp: Let_def)
qed

end
