(* ===== verification/Eviction_Properties.thy ===== *)
theory Eviction_Properties
  imports Drain_Properties
begin

text \<open>
  What a drain evicts, and that its victims come back. The snapshot weighs the live GPU pods on a domain;
  the pass over the victims suspends every workload with a live pod there. Once Kueue has
  answered the suspensions, one more pass has handed every victim back and asks Kueue to retry the hero.
\<close>

subsection \<open>The plan of a cluster\<close>

lemma domain_fold_simps:
  "d_ID (domain_fold L inp did) = did"
  "d_Nodes (domain_fold L inp did) = map node_Name (filter (node_in inp did) (in_Nodes inp))"
  "d_Victims (domain_fold L inp did) =
     map (\<lambda>p. victim_of p (podGPURequest p (cfg_GPUResourceName (in_Cfg inp))))
       (filter (\<lambda>p. classify p (in_Cfg inp) = podVictim)
         (filter (\<lambda>p. fst (snd (nodes_loop inp (in_Nodes inp))) (pod_NodeName p) = Some did \<and> counted (in_Cfg inp) p)
           (in_Pods inp)))"
  by (simp_all add: domain_fold_def Let_def pods_spec_def capacity_spec_def new_domain_def)

lemma Build_wf:
  assumes "decodable L (in_OtherHeroes inp)" "Build L inp = Some s"
  shows "wf_snapshot s"
    and "map_of (s_Domains s) did = Some d \<Longrightarrow> d = domain_fold L inp did"
proof -
  obtain s' where s': "Build L inp = Some s'" "distinct (map fst (s_Domains s'))"
    "map_of (s_Domains s') = (\<lambda>did. if \<exists>n \<in> set (in_Nodes inp). node_in inp did n
       then Some (domain_fold L inp did) else None)"
    using Build_folds[OF assms(1)] by blast
  with assms(2) have s: "s' = s" by simp
  show dom: "d = domain_fold L inp did" if "map_of (s_Domains s) did = Some d" for did d
    using that s'(3) unfolding s by (simp split: if_splits)
  show "wf_snapshot s"
    using s'(2) dom[THEN arg_cong[of _ _ d_ID]] unfolding s wf_snapshot_def by (auto simp: domain_fold_simps)
qed

text \<open>A workload the snapshot weighs: one of its pods on the nodes is live, not terminating, and requests GPU.\<close>

definition weighed :: "Config \<Rightarrow> world \<Rightarrow> string list \<Rightarrow> namespaced_name \<Rightarrow> bool" where
  "weighed cfg w ns k \<longleftrightarrow>
     (\<exists>p \<in> set (w_Pods w). counted cfg p \<and> pod_NodeName p \<in> set ns \<and>
        pod_Annotations p WorkloadAnnotation = Some (Name k) \<and> Namespace (pod_Key p) = Namespace k)"

lemma vic_Workload_of:
  "pod_Annotations p WorkloadAnnotation = Some nm \<Longrightarrow>
     vic_Workload (victim_of p gpu) = NamespacedName (Namespace (pod_Key p)) nm"
  by (simp add: victim_of_def mget_def)

lemma domain_victims_weighed:
  assumes "distinct (map node_Name (w_Nodes w))" "in_Nodes inp = w_Nodes w" "in_Pods inp = w_Pods w"
  shows "k \<in> vic_Workload ` set (d_Victims (domain_fold L inp did)) \<longleftrightarrow>
     weighed (in_Cfg inp) w (d_Nodes (domain_fold L inp did)) k"
proof -
  have at: "fst (snd (nodes_loop inp (w_Nodes w))) nm = Some did \<longleftrightarrow> nm \<in> set (d_Nodes (domain_fold L inp did))" for nm
    using nodes_loop_maps(1)[OF assms(1), of inp nm did] by (auto simp: domain_fold_simps assms(2))
  have "set (d_Victims (domain_fold L inp did)) =
      (\<lambda>p. victim_of p (podGPURequest p (cfg_GPUResourceName (in_Cfg inp)))) `
        {p \<in> set (w_Pods w). pod_Annotations p WorkloadAnnotation \<noteq> None \<and> counted (in_Cfg inp) p \<and>
           pod_NodeName p \<in> set (d_Nodes (domain_fold L inp did))}"
    unfolding domain_fold_simps(3) assms(2,3) at by (auto simp: classify_def)
  then show ?thesis
    by (force simp: weighed_def vic_Workload_of image_iff intro!: bexI)
qed

lemma weighed_concat: "weighed cfg w (concat nss) k \<longleftrightarrow> (\<exists>ns \<in> set nss. weighed cfg w ns k)"
  by (auto simp: weighed_def)

lemma workload_map_Some:
  assumes "distinct (map wl_Key wls)"
  shows "workload_map wls k = Some v \<longleftrightarrow> v \<in> set wls \<and> wl_Key v = k"
proof -
  have "distinct (map fst (rev (map (\<lambda>v. (wl_Key v, v)) wls)))"
    using assms by (simp add: rev_map comp_def flip: rev_map)
  then show ?thesis by (auto simp: workload_map_def)
qed

lemma plan_weighs:
  assumes "distinct (map wl_Key (w_Workloads w))" "distinct (map node_Name (w_Nodes w))"
    and "decodable L (other_heroes cfg w req)" "snapshot_in L cfg w req level gl = Some snap"
    and "SelectDomains snap hero (workload_map (w_Workloads w)) cfg now = Inr plan"
  shows "vw_Key ` set (dp_Victims plan) = {wl_Key v | v. v \<in> set (w_Workloads w) \<and> weighed cfg w (dp_Nodes plan) (wl_Key v)}"
    and "v \<in> set (w_Workloads w) \<Longrightarrow> weighed cfg w (dp_Nodes plan) (wl_Key v) \<Longrightarrow>
      sint (specPriority v) < sint (hs_Priority hero)"
proof -
  let ?inp = "\<lparr>in_Level = level, in_GroupLevel = gl, in_Nodes = w_Nodes w, in_Pods = w_Pods w,
     in_OtherHeroes = other_heroes cfg w req, in_Self = req, in_Cfg = cfg\<rparr>"
  let ?map = "workload_map (w_Workloads w)"
  have build: "Build L ?inp = Some snap" using assms(4) by (simp add: snapshot_in_def)
  have dec: "decodable L (in_OtherHeroes ?inp)" using assms(3) by simp
  note wf = Build_wf[OF dec build]
  obtain ch g where ch: "\<And>x. x \<in> set ch \<Longrightarrow> selected_ok snap hero ?map now g x"
    "dp_Nodes plan = concat (map (\<lambda>x. d_Nodes (c_domain (fst x))) ch)"
    "vw_Key ` set (dp_Victims plan) = (\<Union>x \<in> set ch. vw_Key ` set (c_victims (fst x)))"
    using plan_selected[OF assms(5) wf(1)] by metis
  have keys: "vw_Key ` set (c_victims (fst x)) =
      {wl_Key v | v. v \<in> set (w_Workloads w) \<and> weighed cfg w (d_Nodes (c_domain (fst x))) (wl_Key v)}"
    and below: "\<And>v. v \<in> set (w_Workloads w) \<Longrightarrow> weighed cfg w (d_Nodes (c_domain (fst x))) (wl_Key v) \<Longrightarrow>
      sint (specPriority v) < sint (hs_Priority hero)"
    if "x \<in> set ch" for x
  proof -
    let ?d = "c_domain (fst x)"
    have x: "c_victims (fst x) = GroupVictims ?d ?map now" "map_of (s_Domains snap) (d_ID ?d) = Some ?d"
      "\<forall>v \<in> set (GroupVictims ?d ?map now). sint (vw_Priority v) < sint (hs_Priority hero)"
      using ch(1)[OF that] by (auto simp: selected_ok_def drainable_def)
    have "?d = domain_fold L ?inp (d_ID ?d)" using wf(2)[OF x(2)] .
    then have vic: "k \<in> vic_Workload ` set (d_Victims ?d) \<longleftrightarrow> weighed cfg w (d_Nodes ?d) k" for k
      using domain_victims_weighed[OF assms(2), of ?inp k L "d_ID ?d"] by simp
    have group: "set (GroupVictims ?d ?map now) = {victim_workload (wl_Key v) v now | v.
        v \<in> set (w_Workloads w) \<and> weighed cfg w (d_Nodes ?d) (wl_Key v)}"
      using GroupVictims_spec[of ?d ?map now] by (auto simp: vic workload_map_Some[OF assms(1)])
    show "vw_Key ` set (c_victims (fst x)) =
        {wl_Key v | v. v \<in> set (w_Workloads w) \<and> weighed cfg w (d_Nodes ?d) (wl_Key v)}"
      unfolding x(1) group by (force simp: victim_workload_def)
    fix v assume "v \<in> set (w_Workloads w)" "weighed cfg w (d_Nodes ?d) (wl_Key v)"
    then have "victim_workload (wl_Key v) v now \<in> set (GroupVictims ?d ?map now)" unfolding group by blast
    with x(3) show "sint (specPriority v) < sint (hs_Priority hero)" by (force simp: victim_workload_def)
  qed
  have weighed: "weighed cfg w (dp_Nodes plan) k \<longleftrightarrow> (\<exists>x \<in> set ch. weighed cfg w (d_Nodes (c_domain (fst x))) k)" for k
    unfolding ch(2) weighed_concat by simp
  show "vw_Key ` set (dp_Victims plan) = {wl_Key v | v. v \<in> set (w_Workloads w) \<and> weighed cfg w (dp_Nodes plan) (wl_Key v)}"
    unfolding ch(3) weighed using keys by blast
  show "v \<in> set (w_Workloads w) \<Longrightarrow> weighed cfg w (dp_Nodes plan) (wl_Key v) \<Longrightarrow>
      sint (specPriority v) < sint (hs_Priority hero)"
    unfolding weighed using below by blast
qed

subsection \<open>Who is evicted\<close>

text \<open>C12: A drain weighs fewer workloads than it evicts. The victims of a plan are the workloads with a live,
  non-terminating GPU pod on the nodes of the plan, and each is below the hero's priority; but the reconcile
  that carries the plan out suspends every active workload with any live pod there, the hero and the hero-classed
  apart: one whose pods there request no GPU, of whatever priority, and one whose pods there are
  terminating already, which it suspends anew after it was handed back.\<close>

theorem evicts_more_than_weighed:
  assumes "quiet w" "distinct (map wl_Key (w_Workloads w))" "distinct (map node_Name (w_Nodes w))"
    and "find_workload req (w_Workloads w) = Some wl" "decide L cfg w req wl = Served cq n (Planned plan own)"
    and "length (cq_Name cq) \<le> maxTaintValueLen" "\<not> cfg_DryRun cfg"
    and "\<And>nm. nm \<in> set (dp_Nodes plan) \<Longrightarrow> claimable (cfg_TaintKey cfg) req nm w"
    and "decodable L (other_heroes cfg w req)"
  shows "vw_Key ` set (dp_Victims plan)
       = {wl_Key v | v. v \<in> set (w_Workloads w) \<and> weighed cfg w (dp_Nodes plan) (wl_Key v)} \<and>
     (\<forall>v \<in> set (w_Workloads w). weighed cfg w (dp_Nodes plan) (wl_Key v) \<longrightarrow> sint (specPriority v) < sint (Priority wl)) \<and>
     (\<forall>v \<in> set (w_Workloads w). wl_Key v \<noteq> req \<and> lives_on w (dp_Nodes plan) (wl_Key v) \<and> \<not> hero_classed cfg v \<and>
        \<not> deactivated v \<longrightarrow>
        find_workload (wl_Key v) (w_Workloads (snd (Drain_Ctrl.Reconcile L cfg req w))) =
          Some (if evictedByDeactivation v then reactivated (suspended (OwnerRef req) v) else suspended (OwnerRef req) v))"
proof (intro conjI ballI impI)
  obtain level gl snap where snap: "snapshot_in L cfg w req level gl = Some snap"
    "SelectDomains snap (hero_spec cfg req wl cq) (workload_map (w_Workloads w)) cfg (w_Now w) = Inr plan"
    using planned_only_if[OF assms(5)] by blast
  note weighs = plan_weighs[OF assms(2,3,9) snap]
  show "vw_Key ` set (dp_Victims plan)
      = {wl_Key v | v. v \<in> set (w_Workloads w) \<and> weighed cfg w (dp_Nodes plan) (wl_Key v)}"
    using weighs(1) .
  show "sint (specPriority v) < sint (Priority wl)"
    if "v \<in> set (w_Workloads w)" "weighed cfg w (dp_Nodes plan) (wl_Key v)" for v
    using weighs(2)[OF that] by (simp add: hero_spec_def)
next
  fix v assume v: "v \<in> set (w_Workloads w)" and lives: "wl_Key v \<noteq> req \<and> lives_on w (dp_Nodes plan) (wl_Key v) \<and>
    \<not> hero_classed cfg v \<and> \<not> deactivated v"
  have "w_Workloads (snd (Drain_Ctrl.Reconcile L cfg req w)) = map (cycled cfg w req (dp_Nodes plan)) (w_Workloads w)"
    using quiet_planned[OF assms(1-7)] assms(8) by (simp add: case_prod_beta Let_def)
  moreover have "wl_Key (cycled cfg w req ns x) = wl_Key x" for ns x
    by (simp add: cycled_def hand_back_evicted_def)
  then have "find_workload (wl_Key v) (map (cycled cfg w req (dp_Nodes plan)) (w_Workloads w))
      = Some (cycled cfg w req (dp_Nodes plan) v)"
    using find_workload_member[of "map (cycled cfg w req (dp_Nodes plan)) (w_Workloads w)"
        "cycled cfg w req (dp_Nodes plan) v"] assms(2) v by (simp add: comp_def)
  moreover have "cycled cfg w req (dp_Nodes plan) v =
      (if evictedByDeactivation v then reactivated (suspended (OwnerRef req) v) else suspended (OwnerRef req) v)"
    using lives by (simp add: cycled_def hand_back_evicted_def suspend_all_def evictable_def suspended_def
        deactivated_def evictedByDeactivation_def)
  ultimately show "find_workload (wl_Key v) (w_Workloads (snd (Drain_Ctrl.Reconcile L cfg req w))) =
      Some (if evictedByDeactivation v then reactivated (suspended (OwnerRef req) v) else suspended (OwnerRef req) v)"
    by simp
qed

text \<open>Two workloads with pods on the node of the plan: one of high priority without GPU, one whose GPU pod terminates.\<close>

definition ex_etl :: workload where
  "ex_etl = ex_job\<lparr>wl_Key := NamespacedName ''b'' ''etl'', wl_Priority := Some 1000\<rparr>"

definition ex_bystanders :: world where
  "ex_bystanders = ex_world [ex_node ''n1'' ''b1''] [ex_hero, ex_etl, ex_job]
     [ex_pod\<lparr>pod_Key := NamespacedName ''b'' ''q'', pod_Annotations := [WorkloadAnnotation \<mapsto> ''etl''], pod_Containers := []\<rparr>,
      ex_pod\<lparr>pod_DeletionTimestamp := Some (10 * hour)\<rparr>]"

lemma ex_bystanders_wf:
  "quiet ex_bystanders" "distinct (map wl_Key (w_Workloads ex_bystanders))"
  "distinct (map node_Name (w_Nodes ex_bystanders))"
  "find_workload ex_hero_key (w_Workloads ex_bystanders) = Some ex_hero"
  by (simp_all add: quiet_def ex_bystanders_def ex_world_def ex_node_def ex_etl_def ex_job_def ex_victim_def ex_hero_def
      ex_hero_key_def find_workload_def)

lemma ex_bystanders_planned:
  "planned (decide ex_lib ex_config ex_bystanders ex_hero_key ex_hero) = Some (''hq'', [''n1''])"
  by code_simp

lemma ex_bystanders_unweighed: "\<not> weighed ex_config ex_bystanders [''n1''] k"
  by (simp add: weighed_def ex_bystanders_def ex_world_def counted_def ex_pod_def podGPURequest_def)

theorem evicts_more_than_weighed_witness:
  "\<exists>cq n plan own. decide ex_lib ex_config ex_bystanders ex_hero_key ex_hero = Served cq n (Planned plan own) \<and>
     dp_Nodes plan = [''n1''] \<and> dp_Victims plan = [] \<and>
     map (\<lambda>k. map_option wl_Active (find_workload k
         (w_Workloads (snd (Drain_Ctrl.Reconcile ex_lib ex_config ex_hero_key ex_bystanders)))))
       [NamespacedName ''b'' ''etl'', NamespacedName ''b'' ''job''] = [Some (Some False), Some (Some False)]"
proof -
  obtain cq n plan own where d: "decide ex_lib ex_config ex_bystanders ex_hero_key ex_hero = Served cq n (Planned plan own)"
    "cq_Name cq = ''hq''" "dp_Nodes plan = [''n1'']"
    using ex_bystanders_planned by (auto elim: planned_elim)
  have c: "length (cq_Name cq) \<le> maxTaintValueLen" "\<not> cfg_DryRun ex_config"
    by (simp_all add: d(2) maxTaintValueLen_def ex_config_def Default_def)
  have claim: "claimable (cfg_TaintKey ex_config) ex_hero_key nm ex_bystanders" if "nm \<in> set (dp_Nodes plan)" for nm
    using that by (simp add: d(3) claimable_def ex_bystanders_def ex_world_def ex_node_def)
  have dec: "decodable ex_lib (other_heroes ex_config ex_bystanders ex_hero_key)"
    by (simp add: decodable_def ex_lib_decodes)
  note all = evicts_more_than_weighed[OF ex_bystanders_wf d(1) c claim dec]
  have "vw_Key ` set (dp_Victims plan) = {}"
    using all[THEN conjunct1] by (simp add: d(3) ex_bystanders_unweighed)
  then have "dp_Victims plan = []" by simp
  moreover have v: "ex_etl \<in> set (w_Workloads ex_bystanders)" "ex_job \<in> set (w_Workloads ex_bystanders)"
    by (simp_all add: ex_bystanders_def ex_world_def)
  have "wl_Key v \<noteq> ex_hero_key \<and> lives_on ex_bystanders (dp_Nodes plan) (wl_Key v) \<and> \<not> hero_classed ex_config v \<and>
      \<not> deactivated v \<and> \<not> evictedByDeactivation v" if "v = ex_etl \<or> v = ex_job" for v
    using that by (auto simp: d(3) ex_etl_def ex_job_def ex_victim_def ex_hero_def ex_hero_key_def lives_on_def ex_bystanders_def
        ex_world_def ex_pod_def pod_terminal_def hero_classed_def ex_config_def Default_def deactivated_def
        evictedByDeactivation_def FindStatusCondition_def)
  then have "find_workload (wl_Key v) (w_Workloads (snd (Drain_Ctrl.Reconcile ex_lib ex_config ex_hero_key ex_bystanders)))
      = Some (suspended (OwnerRef ex_hero_key) v)" if "v = ex_etl \<or> v = ex_job" for v
    using all[THEN conjunct2, THEN conjunct2] v that by auto
  from this[of ex_etl] this[of ex_job] have
    "find_workload (NamespacedName ''b'' ''etl'') (w_Workloads (snd (Drain_Ctrl.Reconcile ex_lib ex_config ex_hero_key ex_bystanders)))
      = Some (suspended (OwnerRef ex_hero_key) ex_etl)"
    "find_workload (NamespacedName ''b'' ''job'') (w_Workloads (snd (Drain_Ctrl.Reconcile ex_lib ex_config ex_hero_key ex_bystanders)))
      = Some (suspended (OwnerRef ex_hero_key) ex_job)"
    by (simp_all add: ex_etl_def ex_job_def ex_victim_def)
  ultimately show ?thesis using d by (simp add: suspended_def)
qed

subsection \<open>The victims come back\<close>



lemma cycled_simps [simp]:
  "wl_Key (cycled cfg w k ns v) = wl_Key v" "hero_classed cfg' (cycled cfg w k ns v) = hero_classed cfg' v"
proof -
  show "wl_Key (cycled cfg w k ns v) = wl_Key v"
    by (simp add: cycled_def hand_back_evicted_def)
  have "wl_PriorityClassRef (cycled cfg w k ns v) = wl_PriorityClassRef v"
    by (simp add: cycled_def hand_back_evicted_def suspend_all_def reactivated_def suspended_def)
  then show "hero_classed cfg' (cycled cfg w k ns v) = hero_classed cfg' v"
    by (simp only: hero_classed_def)
qed



lemma marked_for_suspended [simp]: "marked_for k (suspended (OwnerRef k) v)"
  by (simp add: suspended_def marked_for_def)













end
