(* ===== verification/Taint_Properties.thy ===== *)
theory Taint_Properties
  imports Taint_Laws Core_Properties
begin

text \<open>
  Properties of the drain taint: tainting and untainting a node, the drains read back from the nodes, the
  rate limit of the nudge, what retries on conflict achieve.
\<close>

subsection \<open>Tainting a node\<close>

text \<open>C25: In an undisturbed cluster \<open>EnsureTaint\<close> on an existing node refuses a ClusterQueue name over 63
  characters; on a node free of the key it appends the taint, and the node then belongs to the owner,
  keeps its earlier taints and an earlier start time, and differs in nothing but the drain marks; a
  node already marked for the owner is left alone with success; any other owner of the key is an error
  and the node is left alone.\<close>

theorem EnsureTaint_cases:
  assumes "quiet w" "find_node nm (w_Nodes w) = Some n" "wf_key owner"
  shows "let (r, w') = EnsureTaint L nm key owner cq now w in
     if maxTaintValueLen < length cq then r = Inl (CQNameTooLong cq) \<and> w' = w
     else if (\<forall>t \<in> set (node_Taints n). taint_Key t \<noteq> key)
     then r = Inr () \<and> (\<exists>n'. find_node nm (w_Nodes w') = Some n' \<and> Owner n' key = Some owner \<and> marks_only key n n' \<and>
       node_Taints n' = node_Taints n @ [drain_taint key cq] \<and>
       node_Annotations n' StartedAtAnnotation =
         Some (case node_Annotations n StartedAtAnnotation of None \<Rightarrow> format_RFC3339 now | Some t \<Rightarrow> t))
     else w' = w \<and> (if mget (node_Annotations n) OwnerAnnotation = owner_ref owner then r = Inr ()
       else \<exists>v. r = Inl (ForeignOwner nm key v))"
proof -
  consider (long) "maxTaintValueLen < length cq"
    | (free) "length cq \<le> maxTaintValueLen" "\<forall>t \<in> set (node_Taints n). taint_Key t \<noteq> key"
    | (taken) "length cq \<le> maxTaintValueLen" "\<exists>t \<in> set (node_Taints n). taint_Key t = key"
    by force
  then show ?thesis
  proof cases
    case long
    then show ?thesis by (simp add: EnsureTaint_def fail_def)
  next
    case free
    let ?n' = "persist_node (Suc (w_Revision w)) n (add_drain_taint key owner cq now n)"
    have "find_node nm (w_Nodes (log_write x (put_node ?n' w))) = Some ?n'" for x
      using find_put_node[OF assms(2), of ?n' nm] find_node_name[OF assms(2)] by (simp add: log_write_def persist_node_def)
    moreover have "Owner ?n' key = Some owner" "marks_only key n ?n'"
      by (simp_all add: Owner_add_drain_taint[OF assms(3)] marks_only_add)
    moreover have "node_Taints ?n' = node_Taints n @ [drain_taint key cq]"
      by (simp add: persist_node_def add_drain_taint_def Let_def)
    moreover have "node_Annotations ?n' StartedAtAnnotation =
        Some (case node_Annotations n StartedAtAnnotation of None \<Rightarrow> format_RFC3339 now | Some t \<Rightarrow> t)"
      by (simp add: persist_node_def add_drain_taint_def Let_def split: option.split)
    ultimately show ?thesis
      using free by (simp add: quiet_EnsureTaint[OF assms(1,2) free] Let_def)
  next
    case taken
    then show ?thesis by (auto simp: quiet_EnsureTaint_owned[OF assms(1,2) taken] Let_def)
  qed
qed

definition ex_node_world :: world where
  "ex_node_world = ex_world [ex_node ''n1'' ''b1''] [] []"

lemma ex_node_world_wf:
  "quiet ex_node_world" "find_node ''n1'' (w_Nodes ex_node_world) = Some (ex_node ''n1'' ''b1'')" "wf_key ex_hero_key"
  by (simp_all add: quiet_def ex_node_world_def ex_world_def find_node_def ex_node_def wf_key_def ex_hero_key_def)

theorem EnsureTaint_cases_witness:
  "\<exists>n'. find_node ''n1'' (w_Nodes (snd (EnsureTaint ex_lib ''n1'' ''k'' ex_hero_key ''hq'' 0 ex_node_world))) = Some n' \<and>
     Owner n' ''k'' = Some ex_hero_key"
  using EnsureTaint_cases[OF ex_node_world_wf, of ex_lib "''k''" "''hq''" 0]
  by (auto simp: maxTaintValueLen_def ex_node_def Let_def split: prod.splits)

text \<open>C38: Tainting is idempotent: in an undisturbed cluster a second \<open>EnsureTaint\<close> for the same owner, at any
  later time and for any ClusterQueue whose name has at most 63 characters, succeeds and changes nothing.\<close>

theorem EnsureTaint_idempotent:
  assumes "quiet w" "wf_key owner" "EnsureTaint L nm key owner cq now w = (Inr (), w')" "length cq' \<le> maxTaintValueLen"
  shows "EnsureTaint L nm key owner cq' now' w' = (Inr (), w')"
proof -
  have cq: "length cq \<le> maxTaintValueLen"
    using assms(3) by (auto simp: EnsureTaint_def fail_def split: if_splits)
  obtain n where n: "find_node nm (w_Nodes w) = Some n"
  proof (cases "find_node nm (w_Nodes w)")
    case None
    have "RetryOnConflict k (andthen (get_node nm) (ensure_on nm key owner cq now)) w = (Inl NotFound, w)" for k
      by (rule quiet_retry) (simp_all add: quiet_simps assms(1) None)
    with assms(3) cq show ?thesis by (simp add: EnsureTaint_def)
  qed
  show ?thesis
  proof (cases "\<forall>t \<in> set (node_Taints n). taint_Key t \<noteq> key")
    case True
    let ?n' = "persist_node (Suc (w_Revision w)) n (add_drain_taint key owner cq now n)"
    have w': "w' = log_write (NodeUpdated n ?n') (put_node ?n' w)"
      using assms(3) quiet_EnsureTaint[OF assms(1) n cq True, of L owner now] by (simp add: Let_def)
    then have "find_node nm (w_Nodes w') = Some ?n'"
      using find_put_node[OF n, of ?n' nm] find_node_name[OF n] by (simp add: log_write_def persist_node_def)
    moreover have "\<exists>t \<in> set (node_Taints ?n'). taint_Key t = key"
      by (simp add: persist_node_def add_drain_taint_def drain_taint_def Let_def)
    moreover have "mget (node_Annotations ?n') OwnerAnnotation = owner_ref owner"
      by (simp add: persist_node_def add_drain_taint_def Let_def mget_def split: option.split)
    moreover have "quiet w'" using assms(1) by (simp add: w')
    ultimately show ?thesis using quiet_EnsureTaint_owned[OF _ _ assms(4)] by simp
  next
    case False
    then have own: "mget (node_Annotations n) OwnerAnnotation = owner_ref owner" "w' = w"
      using assms(3) quiet_EnsureTaint_owned[OF assms(1) n cq, of key L owner now] by (auto split: if_splits)
    with False show ?thesis
      using quiet_EnsureTaint_owned[OF assms(1) n assms(4), of key L owner now'] by auto
  qed
qed

theorem EnsureTaint_idempotent_witness:
  "let w' = snd (EnsureTaint ex_lib ''n1'' ''k'' ex_hero_key ''hq'' 0 ex_node_world)
   in EnsureTaint ex_lib ''n1'' ''k'' ex_hero_key ''hq'' (5 * hour) w' = (Inr (), w')"
proof -
  have "fst (EnsureTaint ex_lib ''n1'' ''k'' ex_hero_key ''hq'' 0 ex_node_world) = Inr ()"
    using EnsureTaint_cases[OF ex_node_world_wf, of ex_lib "''k''" "''hq''" 0]
    by (auto simp: maxTaintValueLen_def ex_node_def Let_def split: prod.splits)
  then have "EnsureTaint ex_lib ''n1'' ''k'' ex_hero_key ''hq'' 0 ex_node_world
      = (Inr (), snd (EnsureTaint ex_lib ''n1'' ''k'' ex_hero_key ''hq'' 0 ex_node_world))"
    by (simp add: prod_eq_iff)
  from EnsureTaint_idempotent[OF ex_node_world_wf(1,3) this] show ?thesis
    by (simp add: Let_def maxTaintValueLen_def)
qed

subsection \<open>Untainting\<close>

lemma strip_add:
  assumes "\<forall>t \<in> set (node_Taints n). taint_Key t \<noteq> key" "\<forall>a \<in> drain_annotations. node_Annotations n a = None"
  shows "strip_drain_taint key (add_drain_taint key owner cq now n) = n"
proof -
  have "filter (\<lambda>t. \<not> is_drain_taint key t) (node_Taints n) = node_Taints n"
    using assms(1) by (intro filter_True) (simp add: is_drain_taint_def)
  moreover have "f(OwnerAnnotation := None, StartedAtAnnotation := None, NudgeAnnotation := None) = node_Annotations n"
    if "\<And>a. a \<notin> drain_annotations \<Longrightarrow> f a = node_Annotations n a" for f
    using assms(2) that by (auto simp: drain_annotations_def fun_eq_iff)
  ultimately show ?thesis
    by (simp add: strip_drain_taint_def add_drain_taint_def Let_def drain_taint_def is_drain_taint_def
        drain_annotations_def split: option.split)
qed

text \<open>C26: Tainting a node and untainting it for the same owner is a round trip: on a node free of the key and
  of drain annotations the two succeed in an undisturbed cluster and leave every node as it was, the
  resource version of this one aside.\<close>

theorem taint_untaint_roundtrip:
  assumes "quiet w" "find_node nm (w_Nodes w) = Some n" "wf_key owner" "length cq \<le> maxTaintValueLen"
    and "\<forall>t \<in> set (node_Taints n). taint_Key t \<noteq> key" "\<forall>a \<in> drain_annotations. node_Annotations n a = None"
  shows "\<exists>w1 w2 rv. EnsureTaint L nm key owner cq now w = (Inr (), w1) \<and>
     RemoveOwnedTaint L nm key owner w1 = (Inr True, w2) \<and>
     w_Nodes w2 = map (\<lambda>m. if node_Name m = nm then n\<lparr>node_ResourceVersion := rv\<rparr> else m) (w_Nodes w)"
proof -
  let ?n1 = "persist_node (Suc (w_Revision w)) n (add_drain_taint key owner cq now n)"
  define w1 where "w1 = log_write (NodeUpdated n ?n1) (put_node ?n1 w)"
  have ensure: "EnsureTaint L nm key owner cq now w = (Inr (), w1)"
    using quiet_EnsureTaint[OF assms(1,2,4,5)] by (simp add: Let_def w1_def)
  have name: "node_Name n = nm" "node_Name ?n1 = nm"
    using find_node_name[OF assms(2)] by (simp_all add: persist_node_def)
  have w1: "quiet w1" "find_node nm (w_Nodes w1) = Some ?n1"
    using assms(1) find_put_node[OF assms(2) name(2), of nm] by (simp_all add: w1_def log_write_def)
  have own: "mget (node_Annotations ?n1) OwnerAnnotation = owner_ref owner \<and> list_ex (is_drain_taint key) (node_Taints ?n1)"
    unfolding Owner_by_mark[OF assms(3)] by (simp add: Owner_add_drain_taint[OF assms(3)])
  let ?n2 = "persist_node (Suc (w_Revision w1)) ?n1 (strip_drain_taint key ?n1)"
  let ?w2 = "log_write (NodeUpdated ?n1 ?n2) (put_node ?n2 w1)"
  have remove: "RemoveOwnedTaint L nm key owner w1 = (Inr True, ?w2)"
    using quiet_RemoveOwnedTaint[OF w1, of L key owner] own by (simp add: Let_def)
  have "?n2 = (strip_drain_taint key (add_drain_taint key owner cq now n))\<lparr>node_ResourceVersion := Suc (w_Revision w1)\<rparr>"
    by (simp add: persist_node_def strip_drain_taint_def)
  then have n2: "?n2 = n\<lparr>node_ResourceVersion := Suc (w_Revision w1)\<rparr>" by (simp only: strip_add[OF assms(5,6)])
  have "w_Nodes ?w2 = map (\<lambda>m. if node_Name m = nm then ?n2 else m) (w_Nodes w)"
    using name n2 by (simp add: w1_def log_write_def put_node_def comp_def if_distrib cong: if_cong)
  then have "w_Nodes ?w2 = map (\<lambda>m. if node_Name m = nm then n\<lparr>node_ResourceVersion := Suc (w_Revision w1)\<rparr> else m)
      (w_Nodes w)"
    unfolding n2 .
  with ensure remove show ?thesis
    by (intro exI[of _ w1] exI[of _ ?w2] exI[of _ "Suc (w_Revision w1)"] conjI)
qed

theorem taint_untaint_roundtrip_witness:
  "\<exists>w1 w2 rv. EnsureTaint ex_lib ''n1'' ''k'' ex_hero_key ''hq'' 0 ex_node_world = (Inr (), w1) \<and>
     RemoveOwnedTaint ex_lib ''n1'' ''k'' ex_hero_key w1 = (Inr True, w2) \<and>
     w_Nodes w2 = [(ex_node ''n1'' ''b1'')\<lparr>node_ResourceVersion := rv\<rparr>]"
proof -
  have "\<forall>t \<in> set (node_Taints (ex_node ''n1'' ''b1'')). taint_Key t \<noteq> ''k''"
    "\<forall>a \<in> drain_annotations. node_Annotations (ex_node ''n1'' ''b1'') a = None" "length ''hq'' \<le> maxTaintValueLen"
    by (simp_all add: ex_node_def maxTaintValueLen_def)
  from taint_untaint_roundtrip[OF ex_node_world_wf this(3,1,2), of ex_lib 0] show ?thesis
    by (simp add: ex_node_world_def ex_world_def ex_node_def)
qed

subsection \<open>Nudges\<close>

text \<open>C34: Nudges of a node are rate limited where nobody else writes and the cache of nodes has caught up: once a
  nudge went through, further attempts on the node within the interval, less the second that RFC 3339 drops,
  succeed without writing anything. The interval is read from the cached annotation, so behind a lagging
  cache a nudge may be repeated.\<close>

theorem nudge_rate_limited:
  assumes "quiet w" "NudgeKueue nm now iv w = (Inr True, w')"
    and "0 \<le> now" "now < year_10000" "now \<le> now'" "now' + second \<le> now + iv" "iv < 2 ^ 63"
  shows "NudgeKueue nm now' iv w' = (Inr False, w')"
proof -
  obtain n where n: "find_node nm (w_Nodes w) = Some n"
    using assms(1,2) by (cases "find_node nm (w_Nodes w)") (auto simp: NudgeKueue_def quiet_simps)
  let ?m = "merge_node (Suc (w_Revision w)) n (bump_nudge now n) n"
  have w': "w' = log_write (NodePatched n n ?m) (put_node ?m w)"
    using assms(2) quiet_NudgeKueue[OF assms(1) n, of now iv] by (auto simp: Let_def split: if_splits)
  have m: "find_node nm (w_Nodes w') = Some ?m"
    using find_put_node[OF n, of ?m nm] find_node_name[OF n] by (simp add: w' log_write_def merge_node_def)
  have prev: "parse_RFC3339 (mget (node_Annotations ?m) NudgeAnnotation) = Some (now - now mod second)"
    using parse_format_RFC3339[OF assms(3,4)]
    by (auto simp: merge_node_def merge_map_def bump_nudge_def mget_def second_def)
  have "0 \<le> now mod second" "now mod second < second" by (simp_all add: second_def)
  then have "time_Sub now' (now - now mod second) < iv"
    using assms(5-7) by (subst time_Sub_exact) simp_all
  then have "\<not> nudge_due ?m now' iv" unfolding nudge_due_def prev by simp
  then show ?thesis using quiet_NudgeKueue[OF _ m, of now' iv] assms(1) w' by simp
qed

theorem nudge_rate_limited_witness:
  "let w' = snd (NudgeKueue ''n1'' (10 * hour) (2 * minute) ex_node_world)
   in NudgeKueue ''n1'' (10 * hour + minute) (2 * minute) w' = (Inr False, w')"
proof -
  let ?run = "NudgeKueue ''n1'' (10 * hour) (2 * minute) ex_node_world"
  have "nudge_due (ex_node ''n1'' ''b1'') (10 * hour) (2 * minute)"
    by (simp add: nudge_due_def ex_node_def mget_def)
  then have "fst ?run = Inr True"
    using quiet_NudgeKueue[OF ex_node_world_wf(1,2)] by (simp add: Let_def)
  then have run: "?run = (Inr True, snd ?run)" by (simp add: prod_eq_iff)
  have "(0::int) \<le> 10 * hour" "10 * hour < year_10000" "10 * hour \<le> 10 * hour + minute"
    "10 * hour + minute + second \<le> 10 * hour + 2 * minute" "2 * minute < 2 ^ 63"
    by (simp_all add: duration_units year_10000_def days_before_year_def)
  from nudge_rate_limited[OF ex_node_world_wf(1) run this] show ?thesis by (simp add: Let_def)
qed

subsection \<open>The drains in flight\<close>

text \<open>The earliest start time of the owner's nodes, 0 (Go's zero time) when none is readable.\<close>

definition earliest_start :: "string \<Rightarrow> namespaced_name \<Rightarrow> node list \<Rightarrow> time" where
  "earliest_start key k ns =
     (case List.map_filter started_at (filter (\<lambda>n. Owner n key = Some k) ns) of
        [] \<Rightarrow> 0 | t # ts \<Rightarrow> foldl min t ts)"

lemma earliest_start_Nil: "filter (\<lambda>n. Owner n key = Some k) ns = [] \<Longrightarrow> earliest_start key k ns = 0"
  by (simp add: earliest_start_def List.map_filter_simps)

lemma map_filter_append: "List.map_filter f (xs @ ys) = List.map_filter f xs @ List.map_filter f ys"
  by (simp add: List.map_filter_def)

lemma foldl_min_in: "foldl min t ts \<in> insert t (set ts)" for t :: "'a :: linorder"
  by (induction ts arbitrary: t) (auto simp: min_def split: if_splits)

lemma FindDrains_StartedAt:
  assumes "map_of (FindDrains ns key) k = Some d" "\<forall>n \<in> set ns. \<forall>t. started_at n = Some t \<longrightarrow> 0 < t"
  shows "drain_StartedAt d = earliest_start key k ns"
  using assms
proof (induction ns arbitrary: d rule: rev_induct)
  case (snoc n ns)
  show ?case
  proof (cases "Owner n key = Some k")
    case False
    then have "map_of (FindDrains ns key) k = Some d"
      using snoc.prems(1)
      by (auto simp: FindDrains_snoc find_drains_step_def map_of_assoc_update split: option.splits if_splits)
    with False snoc show ?thesis by (simp add: earliest_start_def)
  next
    case True
    let ?ts = "List.map_filter started_at (filter (\<lambda>n. Owner n key = Some k) ns)"
    define z where "z = (case map_of (FindDrains ns key) k of None \<Rightarrow> 0 | Some d' \<Rightarrow> drain_StartedAt d')"
    have z: "z = earliest_start key k ns"
    proof (cases "map_of (FindDrains ns key) k")
      case None
      then have "filter (\<lambda>n. Owner n key = Some k) ns = []" by (simp add: FindDrains_None filter_empty_conv)
      with None show ?thesis by (simp add: z_def earliest_start_Nil)
    qed (use snoc in \<open>simp add: z_def\<close>)
    have "d = join_drain n (case map_of (FindDrains ns key) k of
        None \<Rightarrow> \<lparr>drain_Owner = k, drain_Nodes = [], drain_StartedAt = 0\<rparr> | Some d' \<Rightarrow> d')"
      using snoc.prems(1) True
      by (simp add: FindDrains_snoc find_drains_step_def map_of_assoc_update split: option.splits)
    then have "drain_StartedAt d = (case started_at n of None \<Rightarrow> z | Some t \<Rightarrow> if z = 0 \<or> t < z then t else z)"
      by (simp add: join_drain_def z_def IsZero_def split: option.splits)
    moreover have "0 < t" if "t \<in> set ?ts" for t
      using that snoc.prems(2) by (force simp: List.map_filter_def)
    then have "z \<noteq> 0" if "?ts = a # as" for a as
      using that foldl_min_in[of a as] by (force simp: z earliest_start_def)
    ultimately show ?thesis
      using True
      by (cases ?ts; cases "started_at n")
        (auto simp: z earliest_start_def map_filter_append List.map_filter_simps)
  qed
qed simp

text \<open>C24: The drains rebuilt from the nodes are exact, provided no start time is Go's zero time or earlier: a
  hero has a drain exactly when some node resolves to it, and the drain lists the names of just those
  nodes in order with the earliest readable start time.\<close>

theorem FindDrains_exact:
  assumes "\<forall>n \<in> set ns. \<forall>t. started_at n = Some t \<longrightarrow> 0 < t"
  shows "map_of (FindDrains ns key) k =
     (let own = filter (\<lambda>n. Owner n key = Some k) ns in
      if own = [] then None
      else Some \<lparr>drain_Owner = k, drain_Nodes = map node_Name own, drain_StartedAt = earliest_start key k ns\<rparr>)"
proof (cases "map_of (FindDrains ns key) k")
  case None
  then show ?thesis by (simp add: FindDrains_None filter_empty_conv Let_def)
next
  case (Some d)
  from FindDrains_Some[OF Some] FindDrains_StartedAt[OF Some assms] Some show ?thesis
    by (cases d) (auto simp: owned_names_def Let_def)
qed

theorem FindDrains_exact_witness:
  "map_of (FindDrains [add_drain_taint ''k'' ex_hero_key ''hq'' (10 * hour) (ex_node ''n1'' ''b1'')] ''k'') ex_hero_key
     = Some \<lparr>drain_Owner = ex_hero_key, drain_Nodes = [''n1''], drain_StartedAt = 10 * hour\<rparr>"
proof -
  let ?n = "add_drain_taint ''k'' ex_hero_key ''hq'' (10 * hour) (ex_node ''n1'' ''b1'')"
  have s: "started_at ?n = Some (10 * hour)" by code_simp
  then have "\<forall>n \<in> set [?n]. \<forall>t. started_at n = Some t \<longrightarrow> 0 < t" by (simp add: hour_def)
  moreover have "Owner ?n ''k'' = Some ex_hero_key" by (rule Owner_add_drain_taint[OF ex_node_world_wf(3)])
  ultimately show ?thesis
    using FindDrains_exact[of "[?n]" "''k''" ex_hero_key] s
    by (simp add: earliest_start_def List.map_filter_simps ex_node_def)
qed

subsection \<open>Retries\<close>

text \<open>Another actor edits the node between the read and the update of each of the first attempts.\<close>

definition contention :: "string \<Rightarrow> (node \<Rightarrow> node) list \<Rightarrow> (interference list \<times> fault option) list" where
  "contention nm fs = concat (map (\<lambda>f. [([], None), ([EditNode nm f], None)]) fs)"

text \<open>The node after these edits, \<open>rv\<close> the revision of the store before them.\<close>

fun edits :: "string \<Rightarrow> nat \<Rightarrow> (node \<Rightarrow> node) list \<Rightarrow> node \<Rightarrow> node" where
  "edits nm rv [] n = n"
| "edits nm rv (f # fs) n = edits nm (Suc rv) fs ((f n)\<lparr>node_Name := nm, node_ResourceVersion := Suc rv\<rparr>)"

definition free_of :: "string \<Rightarrow> node \<Rightarrow> bool" where
  "free_of key n \<longleftrightarrow> (\<forall>t \<in> set (node_Taints n). taint_Key t \<noteq> key)"

abbreviation others_of :: "string \<Rightarrow> world \<Rightarrow> node list" where
  "others_of nm w \<equiv> filter (\<lambda>m. node_Name m \<noteq> nm) (w_Nodes w)"

lemma free_of_ensure:
  assumes "free_of key n"
  shows "ensure_on nm key owner cq now n = update_node (add_drain_taint key owner cq now n)"
proof -
  have "find (\<lambda>t. taint_Key t = key) (node_Taints n) = None"
    using assms by (simp add: find_None_iff free_of_def)
  then show ?thesis by (simp add: ensure_on_def fun_eq_iff)
qed

lemma edited_node:
  "find_node nm ns = Some n \<Longrightarrow>
     find_node nm (edit_node rv nm f ns) = Some ((f n)\<lparr>node_Name := nm, node_ResourceVersion := rv\<rparr>) \<and>
     filter (\<lambda>m. node_Name m \<noteq> nm) (edit_node rv nm f ns) = filter (\<lambda>m. node_Name m \<noteq> nm) ns"
proof
  show "find_node nm ns = Some n \<Longrightarrow>
      find_node nm (edit_node rv nm f ns) = Some ((f n)\<lparr>node_Name := nm, node_ResourceVersion := rv\<rparr>)"
    by (induction ns) (auto simp: find_node_def edit_node_def split: if_splits)
  show "filter (\<lambda>m. node_Name m \<noteq> nm) (edit_node rv nm f ns) = filter (\<lambda>m. node_Name m \<noteq> nm) ns"
    by (induction ns) (auto simp: edit_node_def)
qed

text \<open>An attempt someone gets in between of conflicts, and leaves nothing but that edit.\<close>

lemma contended_attempt:
  assumes "w_Script w = ([], None) # ([EditNode nm f], None) # rest" "find_node nm (w_Nodes w) = Some n"
    and "node_ResourceVersion n \<le> w_Revision w" "free_of key n"
  obtains w1 where "andthen (get_node nm) (ensure_on nm key owner cq now) w = (Inl Conflict, w1)"
    "w_Script w1 = rest" "w_Revision w1 = Suc (w_Revision w)" "others_of nm w1 = others_of nm w"
    "find_node nm (w_Nodes w1) = Some ((f n)\<lparr>node_Name := nm, node_ResourceVersion := Suc (w_Revision w)\<rparr>)"
proof -
  let ?w0 = "w\<lparr>w_Script := ([EditNode nm f], None) # rest\<rparr>"
  let ?w1 = "interfere [EditNode nm f] (w\<lparr>w_Script := rest\<rparr>)"
  have get: "get_node nm w = (Inr n, ?w0)"
    using assms(1,2)
    by (simp add: get_node_def fetch_def call_def lag_def as_of_def behind_def interfere_def)
  have w1: "w_Nodes ?w1 = edit_node (Suc (w_Revision w)) nm f (w_Nodes w)" "w_Script ?w1 = rest"
    "w_Revision ?w1 = Suc (w_Revision w)"
    by (simp_all add: interfere_def set_nodes_def remember_def)
  note edited = edited_node[OF assms(2), of "Suc (w_Revision w)" f]
  have "update_node (add_drain_taint key owner cq now n) ?w0 = (Inl Conflict, ?w1)"
    using assms(3) edited find_node_name[OF assms(2)]
    by (simp add: update_node_def call_def w1)
  then have "andthen (get_node nm) (ensure_on nm key owner cq now) w = (Inl Conflict, ?w1)"
    by (simp add: andthen_def get free_of_ensure[OF assms(4)])
  with edited w1 that show ?thesis by simp
qed

lemma contended_retries:
  assumes "w_Script w = contention nm fs" "find_node nm (w_Nodes w) = Some n"
    and "node_ResourceVersion n \<le> w_Revision w" "free_of key n"
    and "\<And>f m. f \<in> set fs \<Longrightarrow> free_of key m \<Longrightarrow> free_of key (f m)"
  shows "let (r, w') = RetryOnConflict (Suc k) (andthen (get_node nm) (ensure_on nm key owner cq now)) w;
     m = edits nm (w_Revision w) (take (Suc k) fs) n in
     (if length fs \<le> k
      then r = Inr () \<and> find_node nm (w_Nodes w') = Some ((add_drain_taint key owner cq now m)
          \<lparr>node_ResourceVersion := Suc (w_Revision w + length fs)\<rparr>)
      else r = Inl Conflict \<and> find_node nm (w_Nodes w') = Some m) \<and> others_of nm w' = others_of nm w"
  using assms
proof (induction fs arbitrary: w n k)
  case Nil
  define new where "new = (add_drain_taint key owner cq now n)\<lparr>node_ResourceVersion := Suc (w_Revision w)\<rparr>"
  let ?w' = "log_write (NodeUpdated n new) (put_node new w)"
  have q: "quiet w" using Nil(1) by (simp add: quiet_def contention_def)
  have new: "persist_node (Suc (w_Revision w)) n (add_drain_taint key owner cq now n) = new" "node_Name new = nm"
    using find_node_name[OF Nil(2)] by (simp_all add: new_def persist_node_def add_drain_taint_def Let_def)
  have "RetryOnConflict (Suc k) (andthen (get_node nm) (ensure_on nm key owner cq now)) w = (Inr (), ?w')"
    using Nil(2) find_node_name[OF Nil(2)]
    by (intro quiet_retry) (simp_all add: quiet_simps q free_of_ensure[OF Nil(4)] Let_def new(1))
  moreover have "find_node nm (w_Nodes ?w') = Some new"
    using find_put_node[OF Nil(2) new(2), of nm] by (simp add: log_write_def)
  moreover have "filter (\<lambda>m. node_Name m \<noteq> nm) (map (\<lambda>m. if node_Name m = nm then new else m) ns)
      = filter (\<lambda>m. node_Name m \<noteq> nm) ns" for ns
    using new(2) by (induction ns) auto
  then have "others_of nm ?w' = others_of nm w" by (simp add: log_write_def put_node_def new(2))
  ultimately show ?case by (simp add: new_def del: RetryOnConflict.simps)
next
  case (Cons f fs)
  let ?body = "andthen (get_node nm) (ensure_on nm key owner cq now)"
  let ?n1 = "(f n)\<lparr>node_Name := nm, node_ResourceVersion := Suc (w_Revision w)\<rparr>"
  have "w_Script w = ([], None) # ([EditNode nm f], None) # contention nm fs"
    using Cons.prems(1) by (simp add: contention_def)
  from contended_attempt[OF this Cons.prems(2-4), of owner cq now] obtain w1 where w1:
    "?body w = (Inl Conflict, w1)" "w_Script w1 = contention nm fs" "w_Revision w1 = Suc (w_Revision w)"
    "others_of nm w1 = others_of nm w" "find_node nm (w_Nodes w1) = Some ?n1"
    by metis
  show ?case
  proof (cases k)
    case 0
    then show ?thesis using w1 by simp
  next
    case (Suc j)
    have "free_of key ?n1" using Cons.prems(4) Cons.prems(5)[of f n] by (simp add: free_of_def)
    from Cons.IH[OF w1(2,5) _ this, of j] Cons.prems(5)
    have "let (r, w') = RetryOnConflict (Suc j) ?body w1; m = edits nm (w_Revision w1) (take (Suc j) fs) ?n1 in
       (if length fs \<le> j
        then r = Inr () \<and> find_node nm (w_Nodes w') = Some ((add_drain_taint key owner cq now m)
            \<lparr>node_ResourceVersion := Suc (w_Revision w1 + length fs)\<rparr>)
        else r = Inl Conflict \<and> find_node nm (w_Nodes w') = Some m) \<and> others_of nm w' = others_of nm w1"
      by (simp add: w1(3))
    moreover have "RetryOnConflict (Suc k) ?body w = RetryOnConflict (Suc j) ?body w1"
      using w1(1) Suc by simp
    ultimately show ?thesis
      using w1(3,4) Suc by (auto simp del: RetryOnConflict.simps simp: Let_def split: prod.splits if_splits)
  qed
qed

text \<open>C33: Concurrent edits of a node are absorbed, and never lost. When \<open>EnsureTaint\<close>, for a ClusterQueue name of at
  most 63 characters and a backoff of at least one step, reads current state, no call fails, and other actors edit the node, which stays free of the key, between the read and the update of one
  attempt after the other, the taint is placed as long as these edits are fewer than the steps of the backoff: on
  the node as the last edit left it, with nothing of any edit undone. With as many edits as steps or more it
  gives up with a conflict and has written nothing; other nodes are never touched.\<close>

theorem conflicts_are_absorbed:
  assumes "w_Script w = contention nm fs" "find_node nm (w_Nodes w) = Some n"
    and "node_ResourceVersion n \<le> w_Revision w" "free_of key n"
    and "\<And>f m. f \<in> set fs \<Longrightarrow> free_of key m \<Longrightarrow> free_of key (f m)"
    and "length cq \<le> maxTaintValueLen" "0 < RetrySteps L"
  shows "let (r, w') = EnsureTaint L nm key owner cq now w;
     m = edits nm (w_Revision w) (take (RetrySteps L) fs) n in
     (if length fs < RetrySteps L
      then r = Inr () \<and> find_node nm (w_Nodes w') = Some ((add_drain_taint key owner cq now m)
          \<lparr>node_ResourceVersion := Suc (w_Revision w + length fs)\<rparr>)
      else r = Inl Conflict \<and> find_node nm (w_Nodes w') = Some m) \<and> others_of nm w' = others_of nm w"
proof -
  obtain k where k: "RetrySteps L = Suc k" using assms(7) by (cases "RetrySteps L") auto
  have "EnsureTaint L nm key owner cq now
      = RetryOnConflict (Suc k) (andthen (get_node nm) (ensure_on nm key owner cq now))"
    using assms(6) by (simp add: EnsureTaint_def k)
  then show ?thesis
    unfolding k less_Suc_eq_le
    by (simp only:) (rule contended_retries[OF assms(1-4)], rule assms(5))
qed

theorem conflicts_are_absorbed_witness:
  "let cordon = (\<lambda>n. n\<lparr>node_Unschedulable := True\<rparr>);
     (r, w') = EnsureTaint ex_lib ''n1'' ''k'' ex_hero_key ''hq'' 0
       (ex_node_world\<lparr>w_Script := contention ''n1'' [cordon, cordon]\<rparr>)
   in r = Inr () \<and> (\<exists>n'. find_node ''n1'' (w_Nodes w') = Some n' \<and> node_Unschedulable n' \<and> Owner n' ''k'' = Some ex_hero_key)"
proof -
  let ?cordon = "\<lambda>n. n\<lparr>node_Unschedulable := True\<rparr> :: node"
  let ?fs = "[?cordon, ?cordon]" and ?n = "ex_node ''n1'' ''b1''"
  let ?w = "ex_node_world\<lparr>w_Script := contention ''n1'' ?fs\<rparr>"
  have "w_Script ?w = contention ''n1'' ?fs" "find_node ''n1'' (w_Nodes ?w) = Some ?n"
    "node_ResourceVersion ?n \<le> w_Revision ?w" "free_of ''k'' ?n" "length ''hq'' \<le> maxTaintValueLen" "0 < RetrySteps ex_lib"
    using ex_node_world_wf(2)
    by (simp_all add: ex_node_def ex_lib_def maxTaintValueLen_def free_of_def ex_node_world_def ex_world_def)
  note all = conflicts_are_absorbed[OF this(1-4) _ this(5,6), of ex_hero_key 0]
  obtain r w' where run: "EnsureTaint ex_lib ''n1'' ''k'' ex_hero_key ''hq'' 0 ?w = (r, w')" by fastforce
  define m where "m = edits ''n1'' (w_Revision ?w) ?fs ?n"
  define new where "new = (add_drain_taint ''k'' ex_hero_key ''hq'' 0 m)\<lparr>node_ResourceVersion := Suc (w_Revision ?w + 2)\<rparr>"
  have "r = Inr () \<and> find_node ''n1'' (w_Nodes w') = Some new"
    using all unfolding run by (auto simp: free_of_def ex_lib_def m_def new_def)
  moreover have "Owner new ''k'' = Owner (add_drain_taint ''k'' ex_hero_key ''hq'' 0 m) ''k''"
    by (rule Owner_cong) (simp_all add: new_def)
  then have "Owner new ''k'' = Some ex_hero_key"
    by (simp only: Owner_add_drain_taint[OF ex_node_world_wf(3)])
  moreover have "node_Unschedulable new" by (simp add: new_def m_def add_drain_taint_def Let_def)
  ultimately show ?thesis using run by simp
qed

end
