(* ===== verification/Cache.thy ===== *)
theory Cache
  imports Victims Selection
begin

text \<open>
  Package \<open>pkg/cache\<close>: what the informer caches keep of pods, nodes and workloads. An object enters the
  cache through its transform; pods in a terminal phase never do.

  Lemmas: everything the controllers compute is the same on the stripped object as on the whole one, and
  a node or workload write computed from a stripped object stores what one computed from the whole
  object would have stored.
\<close>

datatype cached = CachedPod pod | CachedNode node | CachedWorkload workload | CachedOther string

definition keepKeys :: "smap \<Rightarrow> string list \<Rightarrow> smap" where
  "keepKeys m keys = foldl (\<lambda>out k. case m k of None \<Rightarrow> out | Some v \<Rightarrow> out(k \<mapsto> v)) Map.empty keys"

definition gpu_only :: "string \<Rightarrow> resources \<Rightarrow> resources" where
  "gpu_only gpu r = (case r gpu of None \<Rightarrow> Map.empty | Some q \<Rightarrow> [gpu \<mapsto> q])"

fun keep_gpu_containers :: "string \<Rightarrow> container list \<Rightarrow> container list" where
  "keep_gpu_containers gpu [] = []"
| "keep_gpu_containers gpu (c # cs) =
     (if ctr_Requests c gpu = None \<and> ctr_Limits c gpu = None then keep_gpu_containers gpu cs
      else \<lparr>ctr_Requests = gpu_only gpu (ctr_Requests c), ctr_Limits = gpu_only gpu (ctr_Limits c), ctr_rest = []\<rparr>
             # keep_gpu_containers gpu cs)"

definition strip_pod :: "Config \<Rightarrow> pod \<Rightarrow> pod" where
  "strip_pod cfg p =
     p\<lparr>pod_ManagedFields := [], pod_OwnerReferences := [], pod_Finalizers := [],
       pod_Annotations := keepKeys (pod_Annotations p) [WorkloadAnnotation],
       pod_status_rest := [],
       pod_Containers := keep_gpu_containers (cfg_GPUResourceName cfg) (pod_Containers p),
       pod_spec_rest := []\<rparr>"

definition TransformPod :: "Config \<Rightarrow> cached \<Rightarrow> cached" where
  "TransformPod cfg obj = (case obj of CachedPod p \<Rightarrow> CachedPod (strip_pod cfg p) | _ \<Rightarrow> obj)"

definition strip_node :: "node \<Rightarrow> node" where
  "strip_node n =
     n\<lparr>node_Conditions := filter (\<lambda>c. cond_Type c = NodeReady) (node_Conditions n), node_Images := []\<rparr>"

definition TransformNode :: "cached \<Rightarrow> cached" where
  "TransformNode obj = (case obj of CachedNode n \<Rightarrow> CachedNode (strip_node n) | _ \<Rightarrow> obj)"

definition stripToResources :: "container list \<Rightarrow> container list" where
  "stripToResources cs =
     map (\<lambda>c. \<lparr>ctr_Requests = ctr_Requests c, ctr_Limits = ctr_Limits c, ctr_rest = []\<rparr>) cs"

definition strip_workload :: "workload \<Rightarrow> workload" where
  "strip_workload wl =
     wl\<lparr>wl_ManagedFields := [], wl_OwnerReferences := [],
        wl_PodSets := map (\<lambda>ps. ps\<lparr>ps_Containers := stripToResources (ps_Containers ps),
          ps_template_rest := []\<rparr>) (wl_PodSets wl)\<rparr>"

definition TransformWorkload :: "cached \<Rightarrow> cached" where
  "TransformWorkload obj = (case obj of CachedWorkload wl \<Rightarrow> CachedWorkload (strip_workload wl) | _ \<Rightarrow> obj)"

text \<open>\<open>Options\<close>: the field selector of the pod cache.\<close>

definition pod_cached :: "pod \<Rightarrow> bool" where
  "pod_cached p \<longleftrightarrow> pod_Phase p \<noteq> PodSucceeded \<and> pod_Phase p \<noteq> PodFailed"

subsection \<open>Pods\<close>

lemma keepKeys_single: "keepKeys m [k] = (\<lambda>x. if x = k then m k else None)"
  by (auto simp: keepKeys_def split: option.splits)

lemma strip_pod_simps [simp]:
  "pod_Key (strip_pod cfg p) = pod_Key p" "pod_Labels (strip_pod cfg p) = pod_Labels p"
  "pod_NodeName (strip_pod cfg p) = pod_NodeName p" "pod_Phase (strip_pod cfg p) = pod_Phase p"
  "pod_DeletionTimestamp (strip_pod cfg p) = pod_DeletionTimestamp p"
  "pod_Annotations (strip_pod cfg p) WorkloadAnnotation = pod_Annotations p WorkloadAnnotation"
  "mget (pod_Annotations (strip_pod cfg p)) WorkloadAnnotation = mget (pod_Annotations p) WorkloadAnnotation"
  by (simp_all add: strip_pod_def keepKeys_single mget_def)

lemma gpu_only_gpu [simp]: "gpu_only gpu r gpu = r gpu"
  by (simp add: gpu_only_def split: option.splits)

lemma keep_gpu_containers_sum:
  "foldl (\<lambda>acc c. acc + ctr_gpu gpu c) s (keep_gpu_containers gpu cs) = foldl (\<lambda>acc c. acc + ctr_gpu gpu c) s cs"
  by (induction cs arbitrary: s) (auto simp: ctr_gpu_def split: option.splits)

lemma podGPURequest_strip [simp]:
  "podGPURequest (strip_pod cfg p) (cfg_GPUResourceName cfg) = podGPURequest p (cfg_GPUResourceName cfg)"
  by (simp add: podGPURequest_def strip_pod_def keep_gpu_containers_sum)

lemma classify_strip [simp]: "classify (strip_pod cfg p) cfg' = classify p cfg'"
  by (simp add: classify_def)

lemma pod_terminal_strip [simp]: "pod_terminal (strip_pod cfg p) = pod_terminal p"
  by (simp add: pod_terminal_def)

lemma build_pod_strip [simp]: "build_pod cfg maps doms (strip_pod cfg p) = build_pod cfg maps doms p"
proof -
  have "add_pod_to cfg (strip_pod cfg p) gpu u = add_pod_to cfg p gpu u" for gpu u
    by (intro ext) (simp add: add_pod_to_def victim_of_def split: podClass.split)
  then show ?thesis by (simp add: build_pod_def Let_def split: option.split)
qed

lemma build_pods_cached:
  "foldl (build_pod cfg maps) doms (map (strip_pod cfg) (filter pod_cached ps)) = foldl (build_pod cfg maps) doms ps"
proof (induction ps arbitrary: doms)
  case (Cons p ps)
  have "build_pod cfg maps doms p = doms" if "\<not> pod_cached p"
    using that by (simp add: build_pod_def pod_cached_def pod_terminal_def split: option.split)
  with Cons show ?case by simp
qed simp

subsection \<open>Nodes\<close>

lemma strip_node_simps [simp]:
  "node_Name (strip_node n) = node_Name n" "node_Labels (strip_node n) = node_Labels n"
  "node_Annotations (strip_node n) = node_Annotations n" "node_Taints (strip_node n) = node_Taints n"
  "node_Unschedulable (strip_node n) = node_Unschedulable n"
  "node_Allocatable (strip_node n) = node_Allocatable n"
  "node_ResourceVersion (strip_node n) = node_ResourceVersion n"
  by (simp_all add: strip_node_def)

lemma ready_loop_filter:
  "ready_loop r (filter (\<lambda>c. cond_Type c = NodeReady) cs) = ready_loop r cs"
  by (induction cs arbitrary: r) auto

lemma nodeIsReady_strip [simp]: "nodeIsReady (strip_node n) = nodeIsReady n"
  by (simp add: nodeIsReady_def strip_node_def ready_loop_filter)

lemma Owner_strip_node [simp]: "Owner (strip_node n) key = Owner n key"
  by (simp add: Owner_def)

lemma NodeUsable_strip [simp]: "NodeUsable (strip_node n) key self = NodeUsable n key self"
proof -
  have "usable_loop (strip_node n) key self ts = usable_loop n key self ts" for ts
    by (induction ts) auto
  then show ?thesis by (simp add: NodeUsable_def)
qed

lemma build_node_strip [simp]: "build_node inp st (strip_node n) = build_node inp st n"
proof -
  have "add_node_to inp (strip_node n) u = add_node_to inp n u" for u
    by (intro ext) (simp add: add_node_to_def)
  then show ?thesis by (cases st) (simp add: build_node_def Let_def)
qed

lemma foldl_map_same: "(\<And>st x. f st (g x) = f st x) \<Longrightarrow> foldl f st (map g xs) = foldl f st xs"
  by (induction xs arbitrary: st) auto

text \<open>A taint write computed from a cached node stores what one computed from the live node would.\<close>

lemma persist_add_strip:
  "persist_node rv cur (add_drain_taint key owner cq now (strip_node n))
     = persist_node rv cur (add_drain_taint key owner cq now n)"
  by (simp add: persist_node_def add_drain_taint_def strip_node_def Let_def)

lemma persist_remove_strip:
  "persist_node rv cur (strip_drain_taint key (strip_node n)) = persist_node rv cur (strip_drain_taint key n)"
  by (simp add: persist_node_def strip_drain_taint_def strip_node_def)

lemma merge_nudge_strip:
  "merge_node rv (strip_node n) (bump_nudge now (strip_node n)) cur = merge_node rv n (bump_nudge now n) cur"
  by (simp add: merge_node_def bump_nudge_def)

subsection \<open>Workloads\<close>

lemma strip_workload_simps [simp]:
  "wl_Key (strip_workload wl) = wl_Key wl" "wl_UID (strip_workload wl) = wl_UID wl"
  "wl_CreationTimestamp (strip_workload wl) = wl_CreationTimestamp wl"
  "wl_Annotations (strip_workload wl) = wl_Annotations wl" "wl_Active (strip_workload wl) = wl_Active wl"
  "wl_QueueName (strip_workload wl) = wl_QueueName wl" "wl_Priority (strip_workload wl) = wl_Priority wl"
  "wl_PriorityClassRef (strip_workload wl) = wl_PriorityClassRef wl"
  "wl_Conditions (strip_workload wl) = wl_Conditions wl" "wl_Admission (strip_workload wl) = wl_Admission wl"
  by (simp_all add: strip_workload_def)

definition strip_podset :: "pod_set \<Rightarrow> pod_set" where
  "strip_podset ps = ps\<lparr>ps_Containers := stripToResources (ps_Containers ps), ps_template_rest := []\<rparr>"

lemma strip_workload_podsets: "wl_PodSets (strip_workload wl) = map strip_podset (wl_PodSets wl)"
  by (simp add: strip_workload_def strip_podset_def)

lemma strip_podset_simps [simp]:
  "ps_Count (strip_podset ps) = ps_Count ps" "ps_TopologyRequest (strip_podset ps) = ps_TopologyRequest ps"
  "ps_Tolerations (strip_podset ps) = ps_Tolerations ps"
  by (simp_all add: strip_podset_def)

lemma RequiresSliceTopology_strip [simp]: "RequiresSliceTopology (strip_podset ps) = RequiresSliceTopology ps"
  by (simp add: RequiresSliceTopology_def)

lemma slice_level_strip [simp]: "slice_level (strip_podset ps) = slice_level ps"
  by (simp add: slice_level_def)

lemma grouping_level_of_strip [simp]: "grouping_level_of (strip_podset ps) = grouping_level_of ps"
  by (simp add: grouping_level_of_def cong: option.case_cong)

lemma podGPURequestOf_strip [simp]: "podGPURequestOf (strip_podset ps) gpu = podGPURequestOf ps gpu"
proof -
  have "container_gpu gpu \<circ> (\<lambda>c. \<lparr>ctr_Requests = ctr_Requests c, ctr_Limits = ctr_Limits c, ctr_rest = []\<rparr>)
      = container_gpu gpu"
    by (simp add: fun_eq_iff container_gpu_def split: option.split)
  then show ?thesis
    by (simp add: podGPURequestOf_sum strip_podset_def stripToResources_def)
qed

lemma demand_step_strip [simp]: "demand_step gpu cs (strip_podset ps) = demand_step gpu cs ps"
  by (simp add: demand_step_def split: option.split)

lemma hero_functions_strip:
  "RequiredTopologyLevels (strip_workload wl) = RequiredTopologyLevels wl"
  "groupingLevels (strip_workload wl) = groupingLevels wl"
  "Demand (strip_workload wl) gpu = Demand wl gpu"
  "GPURequest (strip_workload wl) gpu = GPURequest wl gpu"
  "PodCount (strip_workload wl) = PodCount wl"
  "Priority (strip_workload wl) = Priority wl"
  "IsStuckTASNoFit (strip_workload wl) mode = IsStuckTASNoFit wl mode"
  "GroupingLevel (strip_workload wl) topo l = GroupingLevel wl topo l"
proof -
  have r: "RequiredTopologyLevels_loop ls (map strip_podset pss) = RequiredTopologyLevels_loop ls pss" for ls pss
    by (induction pss arbitrary: ls) auto
  have g: "groupingLevels_loop ls (map strip_podset pss) = groupingLevels_loop ls pss" for ls pss
    by (induction pss arbitrary: ls) (auto split: option.splits)
  show "RequiredTopologyLevels (strip_workload wl) = RequiredTopologyLevels wl"
    by (simp add: RequiredTopologyLevels_def strip_workload_podsets r)
  show gl: "groupingLevels (strip_workload wl) = groupingLevels wl"
    by (simp add: groupingLevels_def strip_workload_podsets g)
  show "GroupingLevel (strip_workload wl) topo l = GroupingLevel wl topo l"
    by (simp add: GroupingLevel_def gl)
  show "Demand (strip_workload wl) gpu = Demand wl gpu"
    by (simp add: Demand_def strip_workload_podsets foldl_map_same)
  show "GPURequest (strip_workload wl) gpu = GPURequest wl gpu"
    by (simp add: GPURequest_def strip_workload_podsets podSetGPURequest_def foldl_map_same)
  show "PodCount (strip_workload wl) = PodCount wl"
    by (simp add: PodCount_def strip_workload_podsets foldl_map_same)
  show "Priority (strip_workload wl) = Priority wl" by (simp add: Priority_def)
  show "IsStuckTASNoFit (strip_workload wl) mode = IsStuckTASNoFit wl mode"
    unfolding IsStuckTASNoFit_def strip_workload_simps by (rule refl)
qed

lemma IsHero_strip [simp]: "IsHero (strip_workload wl) cqo cfg = IsHero wl cqo cfg"
proof -
  have "check_podsets ht any (map strip_podset pss) = check_podsets ht any pss" for ht any pss
    by (induction pss arbitrary: any) auto
  then show ?thesis by (simp add: IsHero_def strip_workload_podsets split: option.split)
qed

lemma victim_workload_strip [simp]: "victim_workload k (strip_workload wl) now = victim_workload k wl now"
proof -
  have "running_since (strip_workload wl) tys = running_since wl tys" for tys
    by (induction tys) (auto split: option.splits)
  then have "runningFor (strip_workload wl) now = runningFor wl now"
    by (simp only: runningFor_def)
  moreover have "admittedPodCount (strip_workload wl) = admittedPodCount wl"
    unfolding admittedPodCount_def admitted_total_def strip_workload_simps strip_workload_podsets
    by (simp add: foldl_map_same Let_def)
  ultimately show ?thesis
    by (simp add: victim_workload_def admittedClusterQueue_def specPriority_def)
qed

lemma GroupVictims_strip: "GroupVictims d (\<lambda>k. map_option strip_workload (wls k)) now = GroupVictims d wls now"
proof -
  have "group_victims_loop (\<lambda>k. map_option strip_workload (wls k)) now seen vs = group_victims_loop wls now seen vs"
    for seen vs
    by (induction vs arbitrary: seen) (auto simp: Let_def split: option.splits)
  then show ?thesis by (simp add: GroupVictims_def)
qed

lemma merge_reactivated_strip:
  "merge_workload (strip_workload v) (reactivated (strip_workload v)) cur = merge_workload v (reactivated v) cur"
  by (simp add: merge_workload_def reactivated_def)

lemma markHeroDomains_strip:
  "markHeroDomains L level nd (map strip_workload hs) doms = markHeroDomains L level nd hs doms"
  by (induction hs arbitrary: doms) (auto split: option.splits)

end
