(* ===== verification/Cache_Properties.thy ===== *)
theory Cache_Properties
  imports Cache Drain_Properties
begin

text \<open>
  The informer caches are transparent: the controllers decide the same on the stripped objects the caches
  hold as they would on the objects of the API server.
\<close>

subsection \<open>The cached cluster\<close>

definition cached_world :: "Config \<Rightarrow> world \<Rightarrow> world" where
  "cached_world cfg w =
     w\<lparr>w_Nodes := map strip_node (w_Nodes w), w_Pods := map (strip_pod cfg) (filter pod_cached (w_Pods w)),
       w_Workloads := map strip_workload (w_Workloads w)\<rparr>"

lemma pick_map: "pick b (map f xs) = map_option f (pick (\<lambda>x y. b (f x) (f y)) xs)"
  using pick_loop_map[of b f None] by simp

lemma FindDrains_strip: "FindDrains (map strip_node ns) key = FindDrains ns key"
proof -
  have "find_drains_step key ds (strip_node n) = find_drains_step key ds n" for ds n
    by (simp add: find_drains_step_def join_drain_def[abs_def] started_at_def cong: option.case_cong)
  then show ?thesis by (simp add: FindDrains_def foldl_map_same)
qed

lemma Build_cached:
  "Build L \<lparr>in_Level = l, in_GroupLevel = g, in_Nodes = map strip_node ns,
      in_Pods = map (strip_pod cfg) (filter pod_cached ps), in_OtherHeroes = map strip_workload hs,
      in_Self = self, in_Cfg = cfg\<rparr>
   = Build L \<lparr>in_Level = l, in_GroupLevel = g, in_Nodes = ns, in_Pods = ps, in_OtherHeroes = hs,
      in_Self = self, in_Cfg = cfg\<rparr>"
proof -
  let ?c = "\<lparr>in_Level = l, in_GroupLevel = g, in_Nodes = map strip_node ns,
      in_Pods = map (strip_pod cfg) (filter pod_cached ps), in_OtherHeroes = map strip_workload hs,
      in_Self = self, in_Cfg = cfg\<rparr>"
  let ?i = "\<lparr>in_Level = l, in_GroupLevel = g, in_Nodes = ns, in_Pods = ps, in_OtherHeroes = hs,
      in_Self = self, in_Cfg = cfg\<rparr>"
  have "add_node_to ?c n u = add_node_to ?i n u" for n u by (intro ext) (simp add: add_node_to_def)
  then have "build_node ?c st n = build_node ?i st n" for st n
    by (cases st) (simp add: build_node_def Let_def)
  then have step: "build_node ?c = build_node ?i" by (intro ext)
  have "build_nodes ?c = build_nodes ?i"
    by (simp add: build_nodes_def step foldl_map_same)
  moreover from this have "build_pods ?c = build_pods ?i"
    by (simp add: build_pods_def build_pods_cached)
  ultimately show ?thesis by (simp add: Build_def markHeroDomains_strip)
qed

lemma SelectDomains_strip:
  "SelectDomains s hero (\<lambda>k. map_option strip_workload (wls k)) cfg now = SelectDomains s hero wls cfg now"
proof -
  have "consider_domain hero (\<lambda>k. map_option strip_workload (wls k)) cfg now = consider_domain hero wls cfg now"
    by (intro ext) (simp only: consider_domain_def GroupVictims_strip)
  then show ?thesis by (simp add: SelectDomains_def)
qed

lemma workload_map_strip:
  "workload_map (map strip_workload wls) = (\<lambda>k. map_option strip_workload (workload_map wls k))"
proof -
  have "map_of (map (\<lambda>x. (wl_Key (strip_workload x), strip_workload x)) xs) k
      = map_option strip_workload (map_of (map (\<lambda>w. (wl_Key w, w)) xs) k)" for xs k
    by (induction xs) auto
  then show ?thesis by (simp add: workload_map_def rev_map comp_def fun_eq_iff)
qed

subsection \<open>The decision on cached objects\<close>

text \<open>What Kueue's ordering may read of a workload: the documented queue order uses creation time and conditions.\<close>

definition reads_no_template :: "kueue_lib \<Rightarrow> bool" where
  "reads_no_template L \<longleftrightarrow> (\<forall>wl. GetQueueOrderTimestamp L (strip_workload wl) = GetQueueOrderTimestamp L wl)"

lemma cached_lookups:
  "cq_of (cached_world cfg w) (strip_workload wl) = cq_of w wl"
  "is_hero_in cfg (cached_world cfg w) (strip_workload wl) = is_hero_in cfg w wl"
  "drains_in cfg (cached_world cfg w) = drains_in cfg w"
  "levels_in (cached_world cfg w) (strip_workload wl) cq = levels_in w wl cq"
  "deactivated (strip_workload wl) = deactivated wl"
proof -
  show cq: "cq_of (cached_world cfg w) (strip_workload wl) = cq_of w wl"
    by (simp add: cq_of_def cq_name_of_def cached_world_def cong: option.case_cong)
  show "is_hero_in cfg (cached_world cfg w) (strip_workload wl) = is_hero_in cfg w wl"
    by (simp add: is_hero_in_def cq)
  show "drains_in cfg (cached_world cfg w) = drains_in cfg w"
    by (simp add: drains_in_def FindDrains_strip cached_world_def)
  have "flavor_levels (cached_world cfg w) = flavor_levels w"
    by (intro ext) (simp add: flavor_levels_def cached_world_def cong: option.case_cong)
  then have "topology_in (cached_world cfg w) = topology_in w"
    by (intro ext) (simp add: topology_in_def)
  then show "levels_in (cached_world cfg w) (strip_workload wl) cq = levels_in w wl cq"
    by (simp add: levels_in_def hero_functions_strip cong: option.case_cong)
  show "deactivated (strip_workload wl) = deactivated wl" by (simp add: deactivated_def)
qed

lemma cached_lists:
  "stuck_heroes cfg (cached_world cfg w) = map strip_workload (stuck_heroes cfg w)"
  "other_heroes cfg (cached_world cfg w) self = map strip_workload (other_heroes cfg w self)"
proof -
  have "w_Workloads (cached_world cfg w) = map strip_workload (w_Workloads w)" by (simp add: cached_world_def)
  then show "stuck_heroes cfg (cached_world cfg w) = map strip_workload (stuck_heroes cfg w)"
    "other_heroes cfg (cached_world cfg w) self = map strip_workload (other_heroes cfg w self)"
    by (simp_all add: stuck_heroes_def other_heroes_def filter_map comp_def cached_lookups hero_functions_strip)
qed

lemma next_in_line_strip:
  assumes "reads_no_template L"
  shows "next_in_line L (map strip_workload hs) (strip_workload wl) = next_in_line L hs wl"
proof -
  have "heroBefore L (strip_workload a) (strip_workload b) = heroBefore L a b" for a b
    using assms by (simp add: heroBefore_def hero_functions_strip reads_no_template_def)
  then have "NextHero L (map strip_workload hs) = map_option strip_workload (NextHero L hs)"
    by (simp add: NextHero_def pick_map)
  then show ?thesis by (simp add: next_in_line_def option.case_eq_if option.map_sel)
qed

lemma snapshot_cached:
  "snapshot_in L cfg (cached_world cfg w) req l g = snapshot_in L cfg w req l g"
proof -
  have "w_Nodes (cached_world cfg w) = map strip_node (w_Nodes w)"
    "w_Pods (cached_world cfg w) = map (strip_pod cfg) (filter pod_cached (w_Pods w))"
    by (simp_all add: cached_world_def)
  then show ?thesis by (simp add: snapshot_in_def Build_cached cached_lists(2))
qed

lemma decide_hero_cached:
  assumes "reads_no_template L"
  shows "decide_hero L cfg (cached_world cfg w) req (strip_workload wl) cq = decide_hero L cfg w req wl cq"
proof -
  have "w_Workloads (cached_world cfg w) = map strip_workload (w_Workloads w)" "w_Now (cached_world cfg w) = w_Now w"
    by (simp_all add: cached_world_def)
  moreover have "hero_spec cfg req (strip_workload wl) cq = hero_spec cfg req wl cq"
    by (simp add: hero_spec_def hero_functions_strip)
  ultimately have "decide_plan L cfg (cached_world cfg w) req (strip_workload wl) cq = decide_plan L cfg w req wl cq"
    by (intro ext) (simp only: decide_plan_def cached_lookups snapshot_cached workload_map_strip SelectDomains_strip)
  then show ?thesis
    unfolding decide_hero_def hero_functions_strip cached_lookups cached_lists(1) next_in_line_strip[OF assms] by presburger
qed

text \<open>C19: The caches are transparent to the drain controller: from the stripped pods, nodes and workloads its
  informers keep, terminal pods left out, it takes the decision it would take from the full objects,
  the selected plan included. Kueue's queue order is assumed to read no field the cache strips.\<close>

theorem cache_transparent:
  assumes "reads_no_template L"
  shows "decide L cfg (cached_world cfg w) req (strip_workload wl) = decide L cfg w req wl"
proof -
  have "length (drains_in cfg (cached_world cfg w)) = length (drains_in cfg w)" by (simp add: cached_lookups)
  then show ?thesis
    unfolding decide_def strip_workload_simps cached_lookups decide_hero_cached[OF assms] IsHero_strip by presburger
qed

theorem cache_transparent_witness:
  "\<exists>cq plan. decide ex_lib ex_config (cached_world ex_config ex_idle_cluster) ex_hero_key (strip_workload ex_hero)
     = Served cq 0 (Planned plan None) \<and> dp_Nodes plan = [''n1'']"
proof -
  have lib: "reads_no_template ex_lib" by (simp add: reads_no_template_def ex_lib_def)
  have "case decide ex_lib ex_config ex_idle_cluster ex_hero_key ex_hero of
      Served cq 0 (Planned plan None) \<Rightarrow> dp_Nodes plan = [''n1''] | _ \<Rightarrow> False"
    by code_simp
  then show ?thesis
    unfolding cache_transparent[OF lib] by (auto split: decision.splits hero_decision.splits option.splits nat.splits)
qed

end
