(* ===== verification/Line_Properties.thy ===== *)
theory Line_Properties
  imports Drain_Properties
begin

text \<open>
  Properties of the line of stuck heroes, of the demand computed for one, and of the node events that
  wake the drain controller.
\<close>

subsection \<open>The line\<close>

text \<open>C23: The line of stuck heroes does not depend on the order they are listed in: over any two listings of
  the same heroes the next one is the same, it is one of them, and it comes before every other by
  priority, then by Kueue's queue order, then by namespace and name.\<close>

theorem next_hero_order:
  assumes "distinct (map wl_Key hs)" "set hs = set hs'" "hs \<noteq> []"
  shows "\<exists>h. NextHero L hs = Some h \<and> NextHero L hs' = Some h \<and> h \<in> set hs \<and>
     (\<forall>x \<in> set hs. x \<noteq> h \<longrightarrow>
        sint (Priority x) < sint (Priority h) \<or> sint (Priority h) = sint (Priority x) \<and>
        (GetQueueOrderTimestamp L h < GetQueueOrderTimestamp L x \<or>
         GetQueueOrderTimestamp L h = GetQueueOrderTimestamp L x \<and> wl_Key h < wl_Key x))"
proof -
  obtain h where h: "NextHero L hs = Some h"
    using assms(3) by (cases "NextHero L hs") (auto simp: NextHero_def)
  have "wl_Key x \<noteq> wl_Key h" if "x \<in> set hs" "x \<noteq> h" for x
    using that assms(1) NextHero_first(1)[OF h] by (auto simp: distinct_map inj_on_def)
  with h NextHero_first[OF h] NextHero_order[OF assms(1,2), of L] show ?thesis
    by (intro exI[of _ h]) (auto simp: heroBefore_lex)
qed

definition ex_second_hero :: workload where
  "ex_second_hero = ex_hero\<lparr>wl_Key := NamespacedName ''a'' ''h2'', wl_Priority := Some 200\<rparr>"

theorem next_hero_order_witness:
  "map_option wl_Key (NextHero ex_lib [ex_hero, ex_second_hero]) = Some (NamespacedName ''a'' ''h2'') \<and>
   NextHero ex_lib [ex_second_hero, ex_hero] = NextHero ex_lib [ex_hero, ex_second_hero]"
proof -
  have "distinct (map wl_Key [ex_hero, ex_second_hero])"
    by (simp add: ex_second_hero_def ex_hero_def ex_hero_key_def)
  moreover have "set [ex_hero, ex_second_hero] = set [ex_second_hero, ex_hero]" by auto
  ultimately obtain h where h: "NextHero ex_lib [ex_hero, ex_second_hero] = Some h"
    "NextHero ex_lib [ex_second_hero, ex_hero] = Some h" "h = ex_hero \<or> h = ex_second_hero"
    "\<forall>x \<in> {ex_hero, ex_second_hero}. x \<noteq> h \<longrightarrow> sint (Priority x) \<le> sint (Priority h)"
    using next_hero_order[of "[ex_hero, ex_second_hero]" "[ex_second_hero, ex_hero]" ex_lib] by fastforce
  have "Priority ex_hero = 100" "Priority ex_second_hero = 200" "ex_hero \<noteq> ex_second_hero"
    by (auto simp: Priority_def ex_second_hero_def ex_hero_def dest: arg_cong[where f = wl_Priority])
  with h(3,4) have "h = ex_second_hero" by auto
  with h show ?thesis by (simp add: ex_second_hero_def)
qed

text \<open>The line never stalls: whenever heroes are stuck, exactly one of them is first in line, so that with no
  drain in flight exactly one passes the gate.\<close>

theorem one_hero_first_in_line:
  assumes "distinct (map wl_Key (w_Workloads w))" "stuck_heroes cfg w \<noteq> []"
  shows "\<exists>!h. h \<in> set (stuck_heroes cfg w) \<and> next_in_line L (stuck_heroes cfg w) h"
proof -
  let ?hs = "stuck_heroes cfg w"
  have "distinct (map wl_Key ?hs)"
    using assms(1) unfolding stuck_heroes_def by (rule distinct_map_filter)
  then have keys: "x = y" if "x \<in> set ?hs" "y \<in> set ?hs" "wl_Key x = wl_Key y" for x y
    using that by (auto simp: distinct_map inj_on_def)
  obtain h where h: "NextHero L ?hs = Some h"
    using assms(2) by (cases "NextHero L ?hs") (auto simp: NextHero_def)
  with NextHero_first(1)[OF h] keys show ?thesis
    by (intro ex1I[of _ h]) (auto simp: next_in_line_def)
qed

theorem one_hero_first_in_line_witness:
  "\<exists>!h. h \<in> set (stuck_heroes ex_config ex_idle_cluster) \<and>
     next_in_line ex_lib (stuck_heroes ex_config ex_idle_cluster) h"
proof -
  have "case stuck_heroes ex_config ex_idle_cluster of [] \<Rightarrow> False | _ \<Rightarrow> True" by code_simp
  then have "stuck_heroes ex_config ex_idle_cluster \<noteq> []" by (auto split: list.splits)
  moreover have "distinct (map wl_Key (w_Workloads ex_idle_cluster))"
    by (simp add: ex_idle_cluster_def ex_world_def)
  ultimately show ?thesis by (rule one_hero_first_in_line[rotated])
qed

subsection \<open>Demand\<close>

definition slice_size :: "pod_set \<Rightarrow> int32" where
  "slice_size ps =
     (case ps_TopologyRequest ps of
        None \<Rightarrow> 0
      | Some tr \<Rightarrow> (case tr_PodSetSliceSize tr of None \<Rightarrow> 0 | Some sz \<Rightarrow> sz))"

lemma demand_step_slices:
  "demand_step gpu cs ps =
     (if RequiresSliceTopology ps
      then appendChunk cs (add_times (slice_size ps) (podGPURequestOf ps gpu)) (slice_count (ps_Count ps) (slice_size ps))
      else cs)"
  by (auto simp: demand_step_def RequiresSliceTopology_def slice_size_def split: option.split)

lemma slice_size_pos: "RequiresSliceTopology ps \<Longrightarrow> 0 < sint (slice_size ps)"
  by (auto simp: RequiresSliceTopology_def slice_size_def split: option.splits)

text \<open>The number of slices of a podset: the ceiling of pods over slice size.\<close>

definition slices_of :: "pod_set \<Rightarrow> int" where
  "slices_of ps = (sint (ps_Count ps) + sint (slice_size ps) - 1) div sint (slice_size ps)"

text \<open>Beyond \<open>int32\<close> the sum of pod count and slice size wraps, and the slice count is not positive.\<close>

lemma slice_count_overflow:
  assumes "RequiresSliceTopology ps" "2 ^ 31 < sint (ps_Count ps) + sint (slice_size ps)"
  shows "slice_count (ps_Count ps) (slice_size ps) \<le> 0"
proof -
  let ?s = "sint (ps_Count ps) + sint (slice_size ps) - 1"
  have b: "sint (ps_Count ps) < 2 ^ 31" "sint (slice_size ps) < 2 ^ 31"
    using sint_lt[of "ps_Count ps"] sint_lt[of "slice_size ps"] by simp_all
  have "sint (ps_Count ps + slice_size ps - 1) = ?s - 2 ^ 32"
  proof -
    have "(word_of_int (k - 2 ^ 32) :: int32) = word_of_int k" for k
      by transfer (simp add: take_bit_eq_mod)
    then have "word_of_int (?s - 2 ^ 32) = (word_of_int ?s :: int32)" .
    also have "\<dots> = ps_Count ps + slice_size ps - 1" by simp
    finally have "ps_Count ps + slice_size ps - 1 = word_of_int (?s - 2 ^ 32)" ..
    moreover have "sint (word_of_int (?s - 2 ^ 32) :: int32) = ?s - 2 ^ 32"
      using b assms(2) by (intro sint_int32_of_int) simp_all
    ultimately show ?thesis by (simp only:)
  qed
  then show ?thesis
    using b slice_size_pos[OF assms(1)] by (simp add: slice_count_def go_quot_def pos_imp_zdiv_nonneg_iff)
qed

text \<open>The slices of a podset that reach the demand.\<close>

definition counted_slices :: "pod_set \<Rightarrow> int" where
  "counted_slices ps = (if sint (ps_Count ps) + sint (slice_size ps) \<le> 2 ^ 31 then slices_of ps else 0)"

lemma slice_count_exact:
  assumes "RequiresSliceTopology ps" "0 \<le> sint (ps_Count ps)"
  shows "max 0 (slice_count (ps_Count ps) (slice_size ps)) = counted_slices ps"
    "sint (ps_Count ps) \<le> slices_of ps * sint (slice_size ps)"
proof -
  let ?c = "sint (ps_Count ps)" and ?z = "sint (slice_size ps)"
  have z: "0 < ?z" by (rule slice_size_pos[OF assms(1)])
  have "?c + ?z - 1 - (?c + ?z - 1) mod ?z = (?c + ?z - 1) div ?z * ?z"
    by (simp add: minus_mod_eq_div_mult)
  moreover have "(?c + ?z - 1) mod ?z < ?z" using z by simp
  ultimately show "?c \<le> slices_of ps * ?z" unfolding slices_of_def by linarith
  show "max 0 (slice_count (ps_Count ps) (slice_size ps)) = counted_slices ps"
  proof (cases "?c + ?z \<le> 2 ^ 31")
    case True
    moreover have "0 \<le> slices_of ps"
      using assms(2) z by (simp add: slices_of_def pos_imp_zdiv_nonneg_iff)
    ultimately show ?thesis
      using slice_count_ceil[OF z, of "ps_Count ps"] assms(2) by (simp add: counted_slices_def slices_of_def)
  next
    case False
    with slice_count_overflow[OF assms(1)] show ?thesis by (simp add: counted_slices_def)
  qed
qed

text \<open>The units a podset asks for: one per slice, each of the GPUs of a slice's pods.\<close>

definition slice_units :: "string \<Rightarrow> pod_set \<Rightarrow> quantity list" where
  "slice_units gpu ps =
     replicate (nat (counted_slices ps)) (sint (slice_size ps) *
       (\<Sum>c\<leftarrow>ps_Containers ps. case ctr_Requests c gpu of
          Some q \<Rightarrow> q | None \<Rightarrow> (case ctr_Limits c gpu of Some q \<Rightarrow> q | None \<Rightarrow> 0)))"

definition chunk_units :: "Chunk list \<Rightarrow> quantity multiset" where
  "chunk_units cs = mset (concat (map (\<lambda>c. replicate (go_range (ch_Count c)) (ch_Size c)) cs))"

lemma demand_units_mset: "chunk_units cs = mset us \<Longrightarrow> demand_units cs = rev (sort us)"
  by (metis chunk_units_def demand_units_def sorted_list_of_multiset_mset)

lemma merge_chunk_units:
  "\<forall>c \<in> set cs. 0 < ch_Count c \<Longrightarrow> 0 < n \<Longrightarrow> chunk_units (merge_chunk cs sz n) = chunk_units cs + replicate_mset (nat n) sz"
  by (induction cs) (auto simp: chunk_units_def go_range_def nat_add_distrib replicate_add)

lemma demand_step_units:
  assumes "wf_chunks cs" "RequiresSliceTopology ps" "0 \<le> sint (ps_Count ps)"
  shows "chunk_units (demand_step gpu cs ps) = chunk_units cs + mset (filter (\<lambda>u. u \<noteq> 0) (slice_units gpu ps))"
proof -
  let ?sz = "add_times (slice_size ps) (podGPURequestOf ps gpu)" and ?n = "slice_count (ps_Count ps) (slice_size ps)"
  have "nat ?n = nat (counted_slices ps)" using slice_count_exact(1)[OF assms(2,3)] by simp
  moreover have "container_gpu gpu = (\<lambda>c. case ctr_Requests c gpu of
      Some q \<Rightarrow> q | None \<Rightarrow> (case ctr_Limits c gpu of Some q \<Rightarrow> q | None \<Rightarrow> 0))"
    by (simp add: fun_eq_iff container_gpu_def)
  ultimately have units: "slice_units gpu ps = replicate (nat ?n) ?sz"
    using slice_size_pos[OF assms(2)] by (simp add: slice_units_def add_times_mult podGPURequestOf_sum)
  show ?thesis
  proof (cases "?sz = 0 \<or> ?n \<le> 0")
    case True
    then show ?thesis using assms(2) by (auto simp: demand_step_slices appendChunk_def units)
  next
    case False
    then have "filter (\<lambda>u. u \<noteq> 0) (slice_units gpu ps) = replicate (nat ?n) ?sz"
      unfolding units by (intro filter_True) simp
    moreover have "chunk_units (merge_chunk cs ?sz ?n) = chunk_units cs + replicate_mset (nat ?n) ?sz"
      using assms(1) False by (intro merge_chunk_units) (simp_all add: wf_chunks_def)
    ultimately show ?thesis using assms(2) False by (simp add: demand_step_slices appendChunk_def)
  qed
qed

text \<open>C30: The demand of a hero is exact for all nonnegative 32-bit pod counts: its units are, largest first, one
  per slice of each slice podset, each of the GPUs the pods of one slice ask for, slices without GPU left out;
  chunks of equal size are merged, so sizes are distinct and nonzero and counts positive. A podset has as many
  slices as its pods fill, the last one rounded up, as long as pod count and slice size add to at most 2^31;
  beyond that the sum overflows and the podset contributes nothing at all.\<close>

theorem Demand_exact:
  assumes "\<And>ps. ps \<in> set (wl_PodSets wl) \<Longrightarrow> RequiresSliceTopology ps \<Longrightarrow> 0 \<le> sint (ps_Count ps)"
  shows "demand_units (Demand wl gpu) =
       rev (sort (filter (\<lambda>u. u \<noteq> 0) (concat (map (slice_units gpu) (filter RequiresSliceTopology (wl_PodSets wl)))))) \<and>
     wf_chunks (Demand wl gpu)"
proof -
  have "chunk_units (foldl (demand_step gpu) [] pss)
      = mset (filter (\<lambda>u. u \<noteq> 0) (concat (map (slice_units gpu) (filter RequiresSliceTopology pss))))"
    if "set pss \<subseteq> set (wl_PodSets wl)" for pss
    using that
  proof (induction pss rule: rev_induct)
    case Nil
    show ?case by (simp add: chunk_units_def)
  next
    case (snoc ps pss)
    let ?cs = "foldl (demand_step gpu) [] pss"
    have "wf_chunks ?cs" using wf_chunks_Demand[of "wl\<lparr>wl_PodSets := pss\<rparr>" gpu] by (simp add: Demand_def)
    show ?case
    proof (cases "RequiresSliceTopology ps")
      case True
      have "chunk_units (demand_step gpu ?cs ps) = chunk_units ?cs + mset (filter (\<lambda>u. u \<noteq> 0) (slice_units gpu ps))"
        using \<open>wf_chunks ?cs\<close> True by (rule demand_step_units) (use assms True snoc.prems in simp)
      with True snoc show ?thesis by simp
    next
      case False
      then have "demand_step gpu ?cs ps = ?cs" by (simp add: demand_step_slices)
      with False snoc show ?thesis by simp
    qed
  qed
  from this[of "wl_PodSets wl"] show ?thesis
    using demand_units_mset wf_chunks_Demand unfolding Demand_def by auto
qed

definition ex_huge_hero :: workload where
  "ex_huge_hero = ex_hero\<lparr>wl_PodSets := [ex_podset\<lparr>ps_Count := 2147483647\<rparr>]\<rparr>"

theorem Demand_exact_witness:
  "demand_units (Demand ex_hero ''nvidia.com/gpu'') = [2 * (8 * 10 ^ 9), 2 * (8 * 10 ^ 9)] \<and>
   demand_units (Demand ex_huge_hero ''nvidia.com/gpu'') = [] \<and> GPURequest ex_huge_hero ''nvidia.com/gpu'' \<noteq> 0"
proof (intro conjI)
  have "0 \<le> sint (ps_Count ps)" if "ps \<in> set (wl_PodSets ex_hero)" "RequiresSliceTopology ps" for ps
    using that by (simp add: ex_hero_def ex_podset_def)
  note units = Demand_exact[of ex_hero "''nvidia.com/gpu''", OF this, THEN conjunct1]
  have "filter (\<lambda>u. u \<noteq> 0) (concat (map (slice_units ''nvidia.com/gpu'') (filter RequiresSliceTopology (wl_PodSets ex_hero))))
      = [2 * (8 * 10 ^ 9), 2 * (8 * 10 ^ 9)]"
    by code_simp
  with units show "demand_units (Demand ex_hero ''nvidia.com/gpu'') = [2 * (8 * 10 ^ 9), 2 * (8 * 10 ^ 9)]"
    by simp
  have "0 \<le> sint (ps_Count ps)" if "ps \<in> set (wl_PodSets ex_huge_hero)" "RequiresSliceTopology ps" for ps
    using that by (simp add: ex_huge_hero_def)
  from Demand_exact[of ex_huge_hero, OF this] show "demand_units (Demand ex_huge_hero ''nvidia.com/gpu'') = []"
    by (simp add: ex_huge_hero_def ex_podset_def slice_units_def slice_size_def counted_slices_def RequiresSliceTopology_def)
  show "GPURequest ex_huge_hero ''nvidia.com/gpu'' \<noteq> 0"
    by (simp add: ex_huge_hero_def GPURequest_def podSetGPURequest_def ex_podset_def add_times_mult
        podGPURequestOf_sum container_gpu_def)
qed

subsection \<open>Node events\<close>

lemma zero_not_wf: "\<not> wf_key zero_name"
  by (simp add: wf_key_def zero_name_def)

text \<open>A node that is not this hero's own is usable for it exactly when it is usable for nobody in particular.\<close>

lemma usable_foreign:
  "Owner n key \<noteq> Some self \<Longrightarrow> usable_loop n key self ts = usable_loop n key zero_name ts"
  by (induction ts) auto

lemma usable_owned:
  assumes "Owner n key = Some k" "k \<noteq> self"
  shows "\<not> usable_loop n key self (node_Taints n)"
proof -
  obtain t where "t \<in> set (node_Taints n)" "is_drain_taint key t"
    using assms(1) by (auto simp: Owner_Some)
  moreover have "\<not> usable_loop n key self ts" if "t \<in> set ts" "is_drain_taint key t" for ts t
    using that assms by (induction ts) (auto simp: is_drain_taint_def)
  ultimately show ?thesis by blast
qed

lemma nodeView_parts:
  assumes "nodeView_of cfg old = nodeView_of cfg new"
  shows "Owner old (cfg_TaintKey cfg) = Owner new (cfg_TaintKey cfg)"
    "NodeUsable old (cfg_TaintKey cfg) (case Owner new (cfg_TaintKey cfg) of None \<Rightarrow> zero_name | Some k \<Rightarrow> k)
      = NodeUsable new (cfg_TaintKey cfg) (case Owner new (cfg_TaintKey cfg) of None \<Rightarrow> zero_name | Some k \<Rightarrow> k)"
    "started_at old = started_at new"
proof -
  have wf: "Owner n key \<noteq> Some zero_name" for n key
    using zero_not_wf by (auto simp: Owner_Some)
  have "nv_owner (nodeView_of cfg old) = nv_owner (nodeView_of cfg new)"
    "nv_usable (nodeView_of cfg old) = nv_usable (nodeView_of cfg new)"
    "nv_startedAt (nodeView_of cfg old) = nv_startedAt (nodeView_of cfg new)"
    using assms by simp_all
  note views = this[unfolded nodeView_of_def Let_def nodeView.simps]
  from views(1) wf[of old] wf[of new] show owner: "Owner old (cfg_TaintKey cfg) = Owner new (cfg_TaintKey cfg)"
    by (cases "Owner old (cfg_TaintKey cfg)"; cases "Owner new (cfg_TaintKey cfg)") auto
  from views(2) show "NodeUsable old (cfg_TaintKey cfg) (case Owner new (cfg_TaintKey cfg) of None \<Rightarrow> zero_name | Some k \<Rightarrow> k)
      = NodeUsable new (cfg_TaintKey cfg) (case Owner new (cfg_TaintKey cfg) of None \<Rightarrow> zero_name | Some k \<Rightarrow> k)"
    by (simp add: owner)
  from views(3) show "started_at old = started_at new"
    by (cases "node_Annotations old StartedAtAnnotation"; cases "node_Annotations new StartedAtAnnotation")
      (auto simp: started_at_def mget_def)
qed

lemma nodeView_usable:
  assumes "nodeView_of cfg old = nodeView_of cfg new"
  shows "NodeUsable old (cfg_TaintKey cfg) self = NodeUsable new (cfg_TaintKey cfg) self"
proof (cases "Owner new (cfg_TaintKey cfg)")
  case None
  with nodeView_parts[OF assms] usable_foreign[of old "cfg_TaintKey cfg" self] usable_foreign[of new "cfg_TaintKey cfg" self]
  show ?thesis by (simp add: NodeUsable_def split: if_splits)
next
  case (Some k)
  show ?thesis
  proof (cases "k = self")
    case True
    with nodeView_parts(2)[OF assms] Some show ?thesis by simp
  next
    case False
    with Some nodeView_parts(1)[OF assms] have "\<not> usable_loop old (cfg_TaintKey cfg) self (node_Taints old)"
      "\<not> usable_loop new (cfg_TaintKey cfg) self (node_Taints new)"
      by (simp_all add: usable_owned)
    then show ?thesis by (simp add: NodeUsable_def)
  qed
qed

definition whole_gpus :: "Config \<Rightarrow> node \<Rightarrow> bool" where
  "whole_gpus cfg n \<longleftrightarrow>
     (case node_Allocatable n (cfg_GPUResourceName cfg) of None \<Rightarrow> True | Some q \<Rightarrow> quantity_unit dvd q)"

lemma nodeView_gpu:
  assumes "nodeView_of cfg old = nodeView_of cfg new" "whole_gpus cfg old" "whole_gpus cfg new"
  shows "(case node_Allocatable old (cfg_GPUResourceName cfg) of Some q \<Rightarrow> x + q | None \<Rightarrow> x)
     = (case node_Allocatable new (cfg_GPUResourceName cfg) of Some q \<Rightarrow> x + q | None \<Rightarrow> x)"
proof -
  let ?gpu = "\<lambda>n. case node_Allocatable n (cfg_GPUResourceName cfg) of None \<Rightarrow> 0 | Some q \<Rightarrow> q"
  have whole: "quantity_Value q * quantity_unit = q" if "quantity_unit dvd q" for q
    using that by (auto simp: quantity_Value_def)
  have "nv_gpu (nodeView_of cfg old) = nv_gpu (nodeView_of cfg new)" using assms(1) by simp
  then have "quantity_Value (?gpu old) = quantity_Value (?gpu new)"
    by (simp add: nodeView_of_def Let_def)
  moreover have "quantity_unit dvd ?gpu old" "quantity_unit dvd ?gpu new"
    using assms(2,3) by (auto simp: whole_gpus_def split: option.splits)
  ultimately have "?gpu old = ?gpu new" using whole by metis
  moreover have "(case r of Some q \<Rightarrow> x + q | None \<Rightarrow> x) = x + (case r of None \<Rightarrow> 0 | Some q \<Rightarrow> q)" for r
    by (cases r) simp_all
  ultimately show ?thesis by simp
qed

text \<open>C35: Dropping a node update that the controller's predicate filters out loses nothing: with whole-GPU
  allocatables, replacing a node by such an update, its name unchanged, changes neither the drains in
  flight nor the snapshot any hero's selection is computed from.\<close>

theorem dropped_update_changes_nothing:
  assumes "\<not> nodeAffectsPlacement cfg old new" "node_Name new = node_Name old"
    and "whole_gpus cfg old" "whole_gpus cfg new" "i < length ns" "ns ! i = old"
  shows "FindDrains (ns[i := new]) (cfg_TaintKey cfg) = FindDrains ns (cfg_TaintKey cfg) \<and>
     Build L \<lparr>in_Level = l, in_GroupLevel = g, in_Nodes = ns[i := new], in_Pods = ps, in_OtherHeroes = hs,
        in_Self = self, in_Cfg = cfg\<rparr>
     = Build L \<lparr>in_Level = l, in_GroupLevel = g, in_Nodes = ns, in_Pods = ps, in_OtherHeroes = hs,
        in_Self = self, in_Cfg = cfg\<rparr>"
proof -
  have view: "nodeView_of cfg old = nodeView_of cfg new" "node_Labels new = node_Labels old"
    using assms(1) by (auto simp: nodeAffectsPlacement_def)
  have swap: "foldl f st (ns[i := new]) = foldl f st ns" if "\<And>st. f st new = f st old" for f :: "'s \<Rightarrow> node \<Rightarrow> 's" and st
  proof -
    have "ns = take i ns @ old # drop (Suc i) ns" using id_take_nth_drop[OF assms(5)] assms(6) by simp
    moreover have "ns[i := new] = take i ns @ new # drop (Suc i) ns" using assms(5) by (rule upd_conv_take_nth_drop)
    ultimately show ?thesis using that by (metis foldl_Cons foldl_append)
  qed
  note parts = nodeView_parts[OF view(1)]
  have "join_drain new = join_drain old" by (intro ext) (simp add: join_drain_def parts(3) assms(2))
  then have "find_drains_step (cfg_TaintKey cfg) ds new = find_drains_step (cfg_TaintKey cfg) ds old" for ds
    by (simp only: find_drains_step_def parts(1))
  then have drains: "FindDrains (ns[i := new]) (cfg_TaintKey cfg) = FindDrains ns (cfg_TaintKey cfg)"
    unfolding FindDrains_def by (rule swap)
  let ?new = "\<lparr>in_Level = l, in_GroupLevel = g, in_Nodes = ns[i := new], in_Pods = ps, in_OtherHeroes = hs,
      in_Self = self, in_Cfg = cfg\<rparr>"
  let ?old = "\<lparr>in_Level = l, in_GroupLevel = g, in_Nodes = ns, in_Pods = ps, in_OtherHeroes = hs,
      in_Self = self, in_Cfg = cfg\<rparr>"
  have add: "add_node_to ?new n u = add_node_to ?old n u" "add_node_to ?old new u = add_node_to ?old old u" for n u
    using view(2) assms(2) nodeView_gpu[OF view(1) assms(3,4)]
    by (intro ext; simp add: add_node_to_def)+
  have "build_node ?new st n = build_node ?old st n" for st n
    by (cases st) (simp add: build_node_def Let_def add(1))
  then have "build_node ?new = build_node ?old" by (intro ext)
  moreover have "build_node ?old st new = build_node ?old st old" for st
    using nodeView_usable[OF view(1)] view(2) assms(2) by (cases st) (simp add: build_node_def Let_def add(2))
  ultimately have "build_nodes ?new = build_nodes ?old" by (simp add: build_nodes_def swap)
  moreover from this have "build_pods ?new = build_pods ?old" by (simp add: build_pods_def)
  ultimately show ?thesis using drains by (simp add: Build_def)
qed

definition ex_heartbeat :: node where
  "ex_heartbeat = (ex_node ''n1'' ''b1'')\<lparr>node_ResourceVersion := 7,
     node_Conditions := [\<lparr>cond_Type = ''Ready'', cond_Status = ConditionTrue, cond_Reason = ''KubeletReady'',
       cond_Message = [], cond_LastTransitionTime = 9 * hour\<rparr>]\<rparr>"

theorem dropped_update_changes_nothing_witness:
  "FindDrains [ex_heartbeat, ex_drained_node] ''k'' = FindDrains [ex_node ''n1'' ''b1'', ex_drained_node] ''k''"
proof -
  have k: "cfg_TaintKey ex_config = ''k''" by (simp add: ex_config_def)
  have "\<not> nodeAffectsPlacement ex_config (ex_node ''n1'' ''b1'') ex_heartbeat"
    by (simp add: nodeAffectsPlacement_def nodeView_of_def ex_heartbeat_def ex_node_def Owner_def NodeUsable_def
        nodeIsReady_def NodeReady_def)
  moreover have "whole_gpus ex_config (ex_node ''n1'' ''b1'')" "whole_gpus ex_config ex_heartbeat"
    by (simp_all add: whole_gpus_def ex_heartbeat_def ex_node_def quantity_unit_def ex_config_def Default_def)
  moreover have "node_Name ex_heartbeat = node_Name (ex_node ''n1'' ''b1'')" by (simp add: ex_heartbeat_def)
  ultimately show ?thesis
    using dropped_update_changes_nothing[of ex_config "ex_node ''n1'' ''b1''" ex_heartbeat 0
        "[ex_node ''n1'' ''b1'', ex_drained_node]"] by (simp add: k)
qed

end
