(* ===== verification/Wiring.thy ===== *)
theory Wiring
  imports Cache Drain_Ctrl Janitor
begin

text \<open>
  How the process is put together: the field indexes of \<open>pkg/index\<close>, the cache options of \<open>pkg/cache\<close>,
  what \<open>SetupWithManager\<close> declares for each controller, and \<open>cmd/main.go\<close>. controller-runtime itself is
  a parameter: the model says what it is configured with, in which order, and what happens when one of
  its calls fails.
\<close>

subsection \<open>pkg/index: Register\<close>

datatype index_entry =
    NodeIndex string "node \<Rightarrow> string list"
  | PodIndex string "pod \<Rightarrow> string list"
  | WorkloadIndex string "workload \<Rightarrow> string list"

text \<open>The calls of \<open>IndexField\<close>, in order.\<close>

definition index_table :: "Config \<Rightarrow> index_entry list" where
  "index_table cfg =
     [NodeIndex ''hero.drainTainted'' (NodeDrainTainted cfg),
      NodeIndex ''hero.drainOwner'' (NodeDrainOwner cfg),
      PodIndex ''spec.nodeName'' PodNode,
      PodIndex ''hero.podWorkload'' PodWorkload,
      WorkloadIndex ''hero.stuck'' (WorkloadStuck cfg),
      WorkloadIndex ''hero.deactivatedFor'' WorkloadDeactivatedFor]"

text \<open>\<open>indexField\<close> is the manager's field indexer, \<open>'fi\<close> its state.\<close>

fun register_loop :: "('fi \<Rightarrow> index_entry \<Rightarrow> 'e + 'fi) \<Rightarrow> index_entry list \<Rightarrow> 'fi \<Rightarrow> 'e + 'fi" where
  "register_loop indexField [] fi = Inr fi"
| "register_loop indexField (x # xs) fi =
     (case indexField fi x of Inl e \<Rightarrow> Inl e | Inr fi' \<Rightarrow> register_loop indexField xs fi')"

definition Register :: "('fi \<Rightarrow> index_entry \<Rightarrow> 'e + 'fi) \<Rightarrow> Config \<Rightarrow> 'fi \<Rightarrow> 'e + 'fi" where
  "Register indexField cfg fi = register_loop indexField (index_table cfg) fi"

subsection \<open>pkg/cache: Options\<close>

text \<open>What the options make the cache keep of an object, \<open>None\<close> for a pod its field selector leaves out.\<close>

definition Options :: "Config \<Rightarrow> cached \<Rightarrow> cached option" where
  "Options cfg obj =
     (case obj of
        CachedPod p \<Rightarrow> if pod_cached p then Some (TransformPod cfg obj) else None
      | CachedNode n \<Rightarrow> Some (TransformNode obj)
      | CachedWorkload wl \<Rightarrow> Some (TransformWorkload obj)
      | CachedOther other \<Rightarrow> Some obj)"

subsection \<open>SetupWithManager\<close>

text \<open>One event source of a controller: which updates its predicates let through, and the requests of an
  object. The handlers of the janitor's workload watch listen to deletions and updates only.\<close>

datatype watch =
    ForWorkload
  | WatchWorkload "workload \<Rightarrow> namespaced_name list api"
  | WatchNode "node \<Rightarrow> node \<Rightarrow> bool" "node \<Rightarrow> namespaced_name list api"
  | WatchNudge "namespaced_name list api"
  | ForNode "node \<Rightarrow> bool"
  | WatchPod "pod \<Rightarrow> bool" "pod \<Rightarrow> pod \<Rightarrow> bool" "pod \<Rightarrow> string list api"
  | WatchWorkloadGone "workload \<Rightarrow> string list api"

record controller =
  ctl_Name :: string
  ctl_Watches :: "watch list"
  ctl_MaxConcurrentReconciles :: nat

definition drain_controller :: "Config \<Rightarrow> bool \<Rightarrow> controller" where
  "drain_controller cfg hasNudge =
     \<lparr>ctl_Name = ''hero-drain'',
      ctl_Watches =
        [ForWorkload, WatchWorkload (mapHeroEventToStuck cfg),
         WatchNode (nodeAffectsPlacement cfg) (mapNodeToOwner cfg)] @
        (if hasNudge then [WatchNudge (stuckRequests cfg)] else []),
      ctl_MaxConcurrentReconciles = 1\<rparr>"

definition janitor_controller :: "Config \<Rightarrow> controller" where
  "janitor_controller cfg =
     \<lparr>ctl_Name = ''hero-janitor'',
      ctl_Watches =
        [ForNode (hasDrainTaint cfg), WatchPod kueueManagedPod podMoved (mapPodToTaintedNodes cfg),
         WatchWorkloadGone (taintedNodesOf cfg)],
      ctl_MaxConcurrentReconciles = 1\<rparr>"

subsection \<open>cmd: main\<close>

record flags =
  metricsAddr :: string
  metricsCertPath :: string
  metricsCertName :: string
  metricsCertKey :: string
  webhookCertPath :: string
  webhookCertName :: string
  webhookCertKey :: string
  enableLeaderElection :: bool
  probeAddr :: string
  secureMetrics :: bool
  enableHTTP2 :: bool

definition default_flags :: flags where
  "default_flags =
     \<lparr>metricsAddr = ''0'', metricsCertPath = [], metricsCertName = ''tls.crt'', metricsCertKey = ''tls.key'',
      webhookCertPath = [], webhookCertName = ''tls.crt'', webhookCertKey = ''tls.key'',
      enableLeaderElection = False, probeAddr = '':8081'', secureMetrics = True, enableHTTP2 = False\<rparr>"

text \<open>TLS options as the protocol lists they force; certificates as directory, name and key.\<close>

record webhook_options =
  wh_TLSOpts :: "string list list"
  wh_CertDir :: string
  wh_CertName :: string
  wh_KeyName :: string

record metrics_options =
  mx_BindAddress :: string
  mx_SecureServing :: bool
  mx_TLSOpts :: "string list list"
  mx_Authenticated :: bool
  mx_CertDir :: string
  mx_CertName :: string
  mx_KeyName :: string

record manager_options =
  mo_Metrics :: metrics_options
  mo_Cache :: Config
  mo_Webhook :: webhook_options
  mo_HealthProbeBindAddress :: string
  mo_LeaderElection :: bool
  mo_LeaderElectionID :: string

definition tls_opts :: "flags \<Rightarrow> string list list" where
  "tls_opts f = (if \<not> enableHTTP2 f then [[''http/1.1'']] else [])"

definition webhook_server_options :: "flags \<Rightarrow> webhook_options" where
  "webhook_server_options f =
     (let o0 = \<lparr>wh_TLSOpts = tls_opts f, wh_CertDir = [], wh_CertName = [], wh_KeyName = []\<rparr> in
      if 0 < length (webhookCertPath f)
      then o0\<lparr>wh_CertDir := webhookCertPath f, wh_CertName := webhookCertName f, wh_KeyName := webhookCertKey f\<rparr>
      else o0)"

definition metrics_server_options :: "flags \<Rightarrow> metrics_options" where
  "metrics_server_options f =
     (let o0 = \<lparr>mx_BindAddress = metricsAddr f, mx_SecureServing = secureMetrics f, mx_TLSOpts = tls_opts f,
                mx_Authenticated = False, mx_CertDir = [], mx_CertName = [], mx_KeyName = []\<rparr>;
          o1 = (if secureMetrics f then o0\<lparr>mx_Authenticated := True\<rparr> else o0) in
      if 0 < length (metricsCertPath f)
      then o1\<lparr>mx_CertDir := metricsCertPath f, mx_CertName := metricsCertName f, mx_KeyName := metricsCertKey f\<rparr>
      else o1)"

definition manager_options_of :: "flags \<Rightarrow> Config \<Rightarrow> manager_options" where
  "manager_options_of f cfg =
     \<lparr>mo_Metrics = metrics_server_options f, mo_Cache = cfg, mo_Webhook = webhook_server_options f,
      mo_HealthProbeBindAddress = probeAddr f, mo_LeaderElection = enableLeaderElection f,
      mo_LeaderElectionID = ''f3f73dcf.coreweave.com''\<rparr>"

text \<open>The steps after loading the configuration, each of which may fail. \<open>Start\<close> returns when the manager
  stops. A controller is set up with the capacity of the nudge channel it was given.\<close>

datatype boot_step =
    NewManager manager_options
  | RegisterIndexes "index_entry list"
  | SetupController controller nat
  | AddHealthzCheck
  | AddReadyzCheck
  | Start

definition boot_steps :: "flags \<Rightarrow> Config \<Rightarrow> boot_step list" where
  "boot_steps f cfg =
     [NewManager (manager_options_of f cfg), RegisterIndexes (index_table cfg),
      SetupController (drain_controller cfg True) nudge_capacity,
      SetupController (janitor_controller cfg) nudge_capacity,
      AddHealthzCheck, AddReadyzCheck, Start]"

text \<open>The steps taken and the exit status; \<open>fails\<close> says which step the environment makes fail.\<close>

fun run_steps :: "(boot_step \<Rightarrow> bool) \<Rightarrow> boot_step list \<Rightarrow> boot_step list \<times> nat" where
  "run_steps fails [] = ([], 0)"
| "run_steps fails (s # ss) =
     (if fails s then ([s], 1) else case run_steps fails ss of (taken, code) \<Rightarrow> (s # taken, code))"

text \<open>\<open>load\<close> is the result of \<open>config.Load\<close> on the command line, which also sets the flags \<open>f\<close>.\<close>

definition main :: "(load_error \<times> Config) + Config \<Rightarrow> flags \<Rightarrow> (boot_step \<Rightarrow> bool) \<Rightarrow> boot_step list \<times> nat" where
  "main load f fails =
     (case load of Inl err \<Rightarrow> ([], 1) | Inr cfg \<Rightarrow> run_steps fails (boot_steps f cfg))"

subsection \<open>Lemmas\<close>

lemma register_loop_recorder: "register_loop (\<lambda>fi x. Inr (fi @ [x])) xs fi = Inr (fi @ xs)"
  by (induction xs arbitrary: fi) simp_all

lemma register_loop_error:
  "register_loop ix xs fi = Inr fi' \<Longrightarrow> x \<in> set xs \<Longrightarrow> \<exists>g g'. ix g x = Inr g'"
  by (induction xs arbitrary: fi) (auto split: sum.splits)

lemma run_steps_prefix: "run_steps fails ss = (taken, code) \<Longrightarrow> \<exists>rest. ss = taken @ rest"
  by (induction ss arbitrary: taken) (auto split: if_splits prod.splits)

lemma run_steps_ok: "snd (run_steps fails ss) = 0 \<longleftrightarrow> (\<forall>s \<in> set ss. \<not> fails s)"
  by (induction ss) (auto split: prod.splits)

text \<open>A step is taken only after every earlier one succeeded.\<close>

lemma run_steps_after:
  "run_steps fails (xs @ s # ys) = (taken, code) \<Longrightarrow> s \<in> set taken \<Longrightarrow> s \<notin> set xs \<Longrightarrow> \<forall>x \<in> set xs. \<not> fails x"
  by (induction xs arbitrary: taken) (auto split: if_splits prod.splits)

end
