(* ===== verification/Wiring_Properties.thy ===== *)
theory Wiring_Properties
  imports Wiring Janitor_Properties
begin

text \<open>
  Properties of the wiring: an event that makes a taint useless leads to a visit of its node, and what must hold
  before the manager starts.
\<close>

subsection \<open>Wake-ups\<close>

text \<open>An object that is created (no old one), updated, or deleted (no new one).\<close>

datatype object_event =
    PodEvent "pod option" "pod option"
  | WorkloadEvent "workload option" "workload option"
  | NodeEvent "node option" "node option"

definition opt_list :: "'a option \<Rightarrow> 'a list" where
  "opt_list x = (case x of None \<Rightarrow> [] | Some y \<Rightarrow> [y])"

lemma opt_list_simps [simp]: "opt_list None = []" "opt_list (Some y) = [y]"
  by (simp_all add: opt_list_def)

text \<open>The clusters before and after; an update keeps the name of the object, and the workload Kueue stamped on a pod.\<close>

inductive happens :: "object_event \<Rightarrow> world \<Rightarrow> world \<Rightarrow> bool" where
  pod: "happens (PodEvent old new) w (w\<lparr>w_Pods := xs @ opt_list new @ ys\<rparr>)"
    if "w_Pods w = xs @ opt_list old @ ys"
      "\<And>p p'. old = Some p \<Longrightarrow> new = Some p' \<Longrightarrow> pod_Key p' = pod_Key p \<and>
         pod_Annotations p' WorkloadAnnotation = pod_Annotations p WorkloadAnnotation"
| workload: "happens (WorkloadEvent old new) w (w\<lparr>w_Workloads := xs @ opt_list new @ ys\<rparr>)"
    if "w_Workloads w = xs @ opt_list old @ ys" "\<And>v v'. old = Some v \<Longrightarrow> new = Some v' \<Longrightarrow> wl_Key v' = wl_Key v"
| node: "happens (NodeEvent old new) w (w\<lparr>w_Nodes := xs @ opt_list new @ ys\<rparr>)"
    if "w_Nodes w = xs @ opt_list old @ ys" "\<And>n n'. old = Some n \<Longrightarrow> new = Some n' \<Longrightarrow> node_Name n' = node_Name n"

text \<open>
  How controller-runtime documents the delivery of an event: a filter sees the latest object, an update filter the old and
  the new one, all of them must agree; the primary watch requests the object itself, a mapping watch whatever it
  maps the old and the new object to; the janitor's workload handlers map the new object of an update and a deleted
  one, and nothing on creation.
\<close>

definition requested :: "string list api \<Rightarrow> string \<Rightarrow> world \<Rightarrow> bool" where
  "requested m nm w = (case fst (m w) of Inl _ \<Rightarrow> False | Inr rs \<Rightarrow> nm \<in> set rs)"

definition latest :: "'a option \<Rightarrow> 'a option \<Rightarrow> 'a list" where
  "latest old new = opt_list (case new of None \<Rightarrow> old | Some x \<Rightarrow> Some x)"

fun delivers :: "watch \<Rightarrow> object_event \<Rightarrow> string \<Rightarrow> world \<Rightarrow> bool" where
  "delivers (ForNode sel) (NodeEvent old new) nm w = list_ex (\<lambda>n. sel n \<and> node_Name n = nm) (latest old new)"
| "delivers (WatchPod sel moved h) (PodEvent old new) nm w =
     (list_ex sel (latest old new) \<and>
      (case (old, new) of (Some p, Some p') \<Rightarrow> moved p p' | _ \<Rightarrow> True) \<and>
      list_ex (\<lambda>p. requested (h p) nm w) (opt_list old @ opt_list new))"
| "delivers (WatchWorkloadGone h) (WorkloadEvent (Some v) new) nm w =
     list_ex (\<lambda>v'. requested (h v') nm w) (latest (Some v) new)"
| "delivers _ _ nm w = False"

text \<open>A visit of the node by the janitor takes the drain taint off.\<close>

definition takes_off :: "kueue_lib \<Rightarrow> Config \<Rightarrow> string \<Rightarrow> world \<Rightarrow> bool" where
  "takes_off L cfg nm w =
     (case find_node nm (w_Nodes w) of
        None \<Rightarrow> False
      | Some n \<Rightarrow> Owner n (cfg_TaintKey cfg) \<noteq> None \<and>
          (case find_node nm (w_Nodes (snd (Janitor.Reconcile L cfg nm w))) of
             None \<Rightarrow> True
           | Some n' \<Rightarrow> Owner n' (cfg_TaintKey cfg) = None))"

lemma find_untainted:
  "list_all2 (untainted key k {nm}) ns ns' \<Longrightarrow> find_node nm ns = Some n \<Longrightarrow> Owner n key = Some k \<Longrightarrow>
     \<exists>n'. find_node nm ns' = Some n' \<and> Owner n' key = None"
  by (induction rule: list_all2_induct) (auto simp: find_node_def untainted_Owner split: if_splits)

lemma takes_off_iff:
  assumes "quiet w" "distinct (map wl_Key (w_Workloads w))" "distinct (map node_Name (w_Nodes w))"
  shows "takes_off L cfg nm w \<longleftrightarrow>
     (\<exists>n k. find_node nm (w_Nodes w) = Some n \<and> Owner n (cfg_TaintKey cfg) = Some k \<and> \<not> serves L cfg w n k)"
proof (cases "\<exists>n k. find_node nm (w_Nodes w) = Some n \<and> Owner n (cfg_TaintKey cfg) = Some k")
  case True
  then obtain n k where n: "find_node nm (w_Nodes w) = Some n" "Owner n (cfg_TaintKey cfg) = Some k" by blast
  note run = quiet_janitor[OF assms(1), of L cfg nm, unfolded n option.case]
  have "(case find_node nm (w_Nodes (snd (Janitor.Reconcile L cfg nm w))) of
      None \<Rightarrow> True | Some n' \<Rightarrow> Owner n' (cfg_TaintKey cfg) = None) \<longleftrightarrow> \<not> serves L cfg w n k"
  proof (cases "verdict L cfg w n k")
    case (Remove oc)
    have "wf_key k" using n(2) by (simp add: Owner_Some)
    from carry_out_Remove[OF assms this, of L cfg nm oc]
    have "list_all2 (untainted (cfg_TaintKey cfg) k {nm}) (w_Nodes w) (w_Nodes (snd (Janitor.Reconcile L cfg nm w)))"
      unfolding run Remove by blast
    from find_untainted[OF this n] Remove show ?thesis by (auto simp: serves_verdict)
  next
    case (Wait d)
    with n show ?thesis by (simp add: run ret_def serves_verdict)
  next
    case RestartClock
    have "find_node nm (w_Nodes (put_node (clocked w n) w)) = Some (clocked w n)"
      using find_put_node[OF n(1), of "clocked w n" nm] find_node_name[OF n(1)] by simp
    with RestartClock n show ?thesis
      by (simp add: run ret_def seq_def andthen_def quiet_restartClock[OF assms(1) n(1)] log_write_def serves_verdict)
  qed
  with n show ?thesis by (simp add: takes_off_def)
qed (auto simp: takes_off_def split: option.split)

lemma quiet_taintedNodesOfKey:
  assumes "quiet w" "wf_key k"
  shows "taintedNodesOfKey cfg k w = (Inr (owned_names (cfg_TaintKey cfg) k (w_Nodes w)), w)"
  using assms(1) by (simp add: taintedNodesOfKey_def run_simps quiet_reads index_drain_owner[OF assms(2)] owned_names_def)

lemma requested_node:
  assumes "quiet w" "find_node nm (w_Nodes w) = Some n" "Owner n (cfg_TaintKey cfg) = Some k"
  shows "requested (taintedNodesOfKey cfg k) nm w"
proof -
  have "n \<in> set (w_Nodes w)" "node_Name n = nm" using assms(2) by (auto simp: find_node_def dest: find_mem)
  moreover have "wf_key k" using assms(3) by (simp add: Owner_Some)
  ultimately show ?thesis
    using assms(1,3) by (auto simp: requested_def quiet_taintedNodesOfKey owned_names_def)
qed

text \<open>Only a pod of the hero that starts or stops running changes the count of its running pods.\<close>

lemma running_pods_change:
  assumes "w_Pods w = xs @ opt_list old @ ys" "w_Pods w' = xs @ opt_list new @ ys" "running_pods w hero \<noteq> running_pods w' hero"
    and "\<And>p p'. old = Some p \<Longrightarrow> new = Some p' \<Longrightarrow> pod_Key p' = pod_Key p \<and>
         pod_Annotations p' WorkloadAnnotation = pod_Annotations p WorkloadAnnotation"
  obtains p where "p \<in> set (latest old new)" "Namespace (pod_Key p) = Namespace (wl_Key hero)"
    "pod_Annotations p WorkloadAnnotation = Some (Name (wl_Key hero))"
    "\<And>q q'. old = Some q \<Longrightarrow> new = Some q' \<Longrightarrow> pod_Phase q \<noteq> pod_Phase q'"
proof -
  let ?sel = "\<lambda>p. Namespace (pod_Key p) = Namespace (wl_Key hero) \<and>
       MatchingFields PodWorkload (Name (wl_Key hero)) p \<and> pod_Phase p = PodRunning"
  have differ: "length (filter ?sel (opt_list old)) \<noteq> length (filter ?sel (opt_list new))"
    using assms(3) unfolding running_pods_def assms(1,2) by (auto simp: filter_append)
  have mine: "MatchingFields PodWorkload nm p \<longleftrightarrow> pod_Annotations p WorkloadAnnotation = Some nm" for nm p
    by (auto simp: MatchingFields_def PodWorkload_def split: option.splits)
  show thesis
  proof (cases new)
    case None
    with differ obtain p where "old = Some p" "?sel p" by (cases old) (auto split: if_splits)
    with None show thesis by (intro that[of p]) (auto simp: latest_def mine)
  next
    case (Some p')
    show thesis
    proof (cases old)
      case None
      with differ Some have "?sel p'" by (auto split: if_splits)
      with None Some show thesis by (intro that[of p']) (auto simp: latest_def mine)
    next
      case old: (Some p)
      with differ Some assms(4)[OF old Some] show thesis
        by (intro that[of p']) (auto simp: latest_def mine split: if_splits)
    qed
  qed
qed

text \<open>The taint of a node that comes to serve no more served before.\<close>

lemma serves_changed:
  assumes "serves L cfg w n k" "\<not> serves L cfg w' n k" "w_Now w' = w_Now w"
    and "find_workload k (w_Workloads w') = find_workload k (w_Workloads w)"
  obtains hero where "wl_Key hero = k" "running_pods w hero \<noteq> running_pods w' hero"
proof -
  obtain hero where hero: "find_workload k (w_Workloads w) = Some hero" "waits L w n hero"
    "\<forall>t. drainStartedAt n = Some t \<longrightarrow> 0 < time_left cfg (w_Now w) t"
    using assms(1) by (auto simp: serves_def)
  with assms(2-4) have "\<not> waits L w' n hero" by (auto simp: serves_def)
  with hero(2) have "running_pods w hero \<noteq> running_pods w' hero" by (auto simp: waits_def)
  moreover have "wl_Key hero = k" using hero(1) by (auto simp: find_workload_def dest: find_mem)
  ultimately show thesis using that by blast
qed

lemma find_workload_append:
  "find_workload k (xs @ ys) = (case find_workload k xs of None \<Rightarrow> find_workload k ys | Some v \<Rightarrow> Some v)"
  by (induction xs) (auto simp: find_workload_def)

lemma find_workload_opt [simp]:
  "find_workload k (opt_list x) = (case x of None \<Rightarrow> None | Some v \<Rightarrow> if wl_Key v = k then Some v else None)"
  by (simp add: find_workload_def opt_list_def split: option.split)

text \<open>C29: No useless taint is slept through: in undisturbed clusters, whenever the creation, update or deletion of one pod,
  workload or node makes the janitor take a taint off a node that it would have left before, one of the watches
  it declares lets the event through and requests a visit of that node. What its filters and handlers drop (pods
  Kueue does not manage, updates of a pod that change neither phase nor node, nodes without the taint, the
  creation of a workload) cannot make a taint useless. Updates are taken to keep the name of the object and the
  workload a pod is stamped with.\<close>

theorem useless_taint_wakes_janitor:
  assumes "happens ev w w'" "quiet w"
    and "distinct (map wl_Key (w_Workloads w))" "distinct (map node_Name (w_Nodes w))"
    and "distinct (map wl_Key (w_Workloads w'))" "distinct (map node_Name (w_Nodes w'))"
    and "\<not> takes_off L cfg nm w" "takes_off L cfg nm w'"
  shows "\<exists>wt \<in> set (ctl_Watches (janitor_controller cfg)). delivers wt ev nm w'"
proof -
  have q': "quiet w'" using assms(1,2) by (auto simp: quiet_def elim: happens.cases)
  obtain n k where n: "find_node nm (w_Nodes w') = Some n" "Owner n (cfg_TaintKey cfg) = Some k" "\<not> serves L cfg w' n k"
    using assms(8) takes_off_iff[OF q' assms(5,6)] by blast
  have before: "serves L cfg w n k" if "find_node nm (w_Nodes w) = Some n"
    using assms(7) takes_off_iff[OF assms(2-4)] n(2) that by blast
  have visit: "requested (taintedNodesOfKey cfg k) nm w'" using q' n(1,2) by (rule requested_node)
  show ?thesis
    using assms(1)
  proof cases
    case (pod xs old ys new)
    have "serves L cfg w n k" using before n(1) pod(2) by simp
    then obtain hero where hero: "wl_Key hero = k" "running_pods w hero \<noteq> running_pods w' hero"
      using n(3) by (rule serves_changed) (simp_all add: pod(2))
    obtain p where p: "p \<in> set (latest old new)" "Namespace (pod_Key p) = Namespace k"
      "pod_Annotations p WorkloadAnnotation = Some (Name k)"
      "\<And>q q'. old = Some q \<Longrightarrow> new = Some q' \<Longrightarrow> pod_Phase q \<noteq> pod_Phase q'"
      using running_pods_change[OF pod(3) _ hero(2) pod(4)] pod(2) hero(1) by auto
    have "requested (mapPodToTaintedNodes cfg p) nm w'"
      using visit p(2,3) by (simp add: mapPodToTaintedNodes_def)
    moreover have "latest old new = [p]" "p \<in> set (opt_list old @ opt_list new)"
      using p(1) by (auto simp: latest_def opt_list_def split: option.splits)
    ultimately have "delivers (WatchPod kueueManagedPod podMoved (mapPodToTaintedNodes cfg)) ev nm w'"
      using p(3,4) by (auto simp: pod(1) kueueManagedPod_def podMoved_def list_ex_iff split: option.split)
    then show ?thesis by (auto simp: janitor_controller_def)
  next
    case (workload xs old ys new)
    have same: "find_node nm (w_Nodes w) = Some n" using n(1) workload(2) by simp
    have pods: "running_pods w hero = running_pods w' hero" for hero by (simp add: running_pods_def workload(2))
    have differ: "find_workload k (w_Workloads w') \<noteq> find_workload k (w_Workloads w)"
      using serves_changed[OF before[OF same] n(3)] pods by (auto simp: workload(2))
    obtain v where v: "find_workload k (w_Workloads w) = Some v" using before[OF same] by (auto simp: serves_def)
    then have mem: "v \<in> set (w_Workloads w)" "wl_Key v = k" by (auto simp: find_workload_def dest: find_mem)
    have "v \<notin> set (w_Workloads w')"
      using find_workload_member[OF assms(5), of v] mem(2) v differ by auto
    then have old: "old = Some v" using mem(1) workload(2,3) by (auto simp: opt_list_def split: option.splits)
    have asked: "requested (taintedNodesOf cfg v') nm w'" if "wl_Key v' = k" for v'
      using visit that by (simp add: taintedNodesOf_def)
    have "delivers (WatchWorkloadGone (taintedNodesOf cfg)) ev nm w'"
    proof (cases new)
      case None
      with asked mem(2) show ?thesis by (simp add: workload(1) old latest_def)
    next
      case (Some v')
      then have "wl_Key v' = k" using workload(4)[OF old Some] mem(2) by simp
      with asked Some show ?thesis by (simp add: workload(1) old latest_def)
    qed
    then show ?thesis by (auto simp: janitor_controller_def)
  next
    case (node xs old ys new)
    have same: "find_workload k (w_Workloads w') = find_workload k (w_Workloads w)" "w_Now w' = w_Now w"
      "running_pods w hero = running_pods w' hero" for hero
      by (simp_all add: node(2) running_pods_def)
    have "find_node nm (w_Nodes w) \<noteq> Some n"
      using serves_changed[OF before n(3) same(2,1)] same(3) by blast
    moreover have mem: "n \<in> set (w_Nodes w')" "node_Name n = nm"
      using n(1) by (auto simp: find_node_def dest: find_mem)
    ultimately have "n \<notin> set (w_Nodes w)" using find_node_distinct[OF assms(4), of n] by blast
    then have "new = Some n" using mem(1) node(2,3) by (auto simp: opt_list_def split: option.splits)
    moreover have "hasDrainTaint cfg n"
      using n(2) by (auto simp: Owner_Some is_drain_taint_def hasDrainTaint_def list_ex_iff)
    ultimately have "delivers (ForNode (hasDrainTaint cfg)) ev nm w'"
      using mem(2) by (simp add: node(1) latest_def)
    then show ?thesis by (auto simp: janitor_controller_def)
  qed
qed

theorem useless_taint_wakes_janitor_witness:
  "let gone = ex_draining\<lparr>w_Workloads := [suspended (OwnerRef ex_hero_key) ex_job]\<rparr> in
     \<exists>wt \<in> set (ctl_Watches (janitor_controller ex_config)). delivers wt (WorkloadEvent (Some ex_hero) None) ''n1'' gone"
proof -
  let ?rest = "[suspended (OwnerRef ex_hero_key) ex_job]"
  let ?gone = "ex_draining\<lparr>w_Workloads := [] @ opt_list None @ ?rest\<rparr>"
  have "w_Workloads ex_draining = [] @ opt_list (Some ex_hero) @ ?rest" by (simp add: ex_draining_def ex_world_def)
  then have ev: "happens (WorkloadEvent (Some ex_hero) None) ex_draining ?gone" by (rule happens.workload) simp
  have gone: "quiet ?gone" "distinct (map wl_Key (w_Workloads ?gone))" "distinct (map node_Name (w_Nodes ?gone))"
    "find_node ''n1'' (w_Nodes ?gone) = Some ex_drained_node"
    using ex_draining_wf ex_draining_node by (simp_all add: quiet_def)
  have stays: "\<not> takes_off ex_lib ex_config ''n1'' ex_draining"
    unfolding takes_off_iff[OF ex_draining_wf]
    using ex_draining_node ex_drained_node_owner ex_draining_verdict by (simp add: serves_verdict)
  have "find_workload ex_hero_key (w_Workloads ?gone) = None"
    by (simp add: find_workload_def ex_job_def ex_victim_def ex_hero_key_def)
  then have "\<not> serves ex_lib ex_config ?gone ex_drained_node ex_hero_key" by (simp add: serves_def)
  then have "takes_off ex_lib ex_config ''n1'' ?gone"
    unfolding takes_off_iff[OF gone(1-3)] using gone(4) ex_drained_node_owner by blast
  from useless_taint_wakes_janitor[OF ev ex_draining_wf gone(2,3) stays this] show ?thesis by simp
qed

subsection \<open>Start-up\<close>

text \<open>The manager starts only fully assembled: when \<open>main\<close> reaches \<open>Start\<close>, the configuration was loaded and
  is well formed, every earlier step succeeded (the manager with its stripped caches, all six indexes, both
  controllers limited to one reconcile at a time and sharing one nudge channel), no server offers HTTP/2
  unless its flag is set, and the process exits with 0 exactly when the manager stopped without an error.\<close>

theorem main_starts_assembled:
  assumes "main (Load qn lv parse readFile unmarshal args) f fails = (taken, code)" "Start \<in> set taken"
  shows "\<exists>cfg. Load qn lv parse readFile unmarshal args = Inr cfg \<and> wf_config cfg \<and> taken = boot_steps f cfg \<and>
     (\<forall>s \<in> set taken. s \<noteq> Start \<longrightarrow> \<not> fails s) \<and> (code = 0 \<longleftrightarrow> \<not> fails Start) \<and>
     (\<not> enableHTTP2 f \<longrightarrow> wh_TLSOpts (mo_Webhook (manager_options_of f cfg)) = [[''http/1.1'']] \<and>
        mx_TLSOpts (mo_Metrics (manager_options_of f cfg)) = [[''http/1.1'']])"
proof -
  obtain cfg where cfg: "Load qn lv parse readFile unmarshal args = Inr cfg" "run_steps fails (boot_steps f cfg) = (taken, code)"
    using assms by (auto simp: main_def split: sum.splits)
  let ?early = "butlast (boot_steps f cfg)"
  have steps: "boot_steps f cfg = ?early @ [Start]" "Start \<notin> set ?early" by (simp_all add: boot_steps_def)
  have run: "run_steps fails (?early @ [Start]) = (taken, code)" using cfg(2) steps(1) by simp
  have early: "\<forall>s \<in> set ?early. \<not> fails s"
    using run_steps_after[of fails ?early Start "[]"] run assms(2) steps(2) by blast
  have "run_steps fails (xs @ [Start]) = (xs @ [Start], if fails Start then 1 else 0)" if "\<forall>s \<in> set xs. \<not> fails s" for xs
    using that by (induction xs) simp_all
  from this[OF early] run steps(1) have taken: "taken = boot_steps f cfg" "code = (if fails Start then 1 else 0)"
    by simp_all
  have "\<forall>s \<in> set taken. s \<noteq> Start \<longrightarrow> \<not> fails s"
    using early taken(1) steps(1) by (metis UnE empty_iff empty_set set_ConsD set_append)
  moreover have "wf_config cfg" using cfg(1) by (rule Load_wf)
  ultimately show ?thesis
    using cfg(1) taken
    by (auto simp: manager_options_of_def webhook_server_options_def metrics_server_options_def tls_opts_def Let_def)
qed

text \<open>The default weights 0.7, 0.2 and 0.1 add up to one ulp less than 1 in binary64, within the tolerance.\<close>

lemma Default_weights_sum: "weights_sum (cfg_Weights Default) = 9007199254740991 / 9007199254740992"
  by code_simp

lemma Default_weights_sum_within: "\<bar>fadd (weights_sum (cfg_Weights Default)) (- 1)\<bar> \<le> fl (1 / 10 ^ 9)"
proof -
  have "weights_sum (cfg_Weights Default) + - 1 = of_int (- 1) / 2 ^ 53"
    by (subst Default_weights_sum) simp
  moreover have "fl (of_int (- 1) / 2 ^ 53) = of_int (- 1) / 2 ^ 53" by (rule fl_dyadic) simp
  ultimately have "fadd (weights_sum (cfg_Weights Default)) (- 1) = of_int (- 1) / 2 ^ 53"
    unfolding fadd_def by (simp only:)
  then have "\<bar>fadd (weights_sum (cfg_Weights Default)) (- 1)\<bar> = 1 / 2 ^ 53" by simp
  also have "\<dots> = fl (1 / 2 ^ 53)" using fl_dyadic[of 1 53] by simp
  also have "\<dots> \<le> fl (1 / 10 ^ 9)" by (rule fl_mono) simp
  finally show ?thesis .
qed

theorem main_starts_assembled_witness:
  "\<exists>cfg. snd (main (Load (\<lambda>_. []) (\<lambda>_. []) (\<lambda>_. Inr []) (\<lambda>_. Inl []) (\<lambda>_ c. Inr c) ([] :: string list)) default_flags (\<lambda>_. False)) = 0 \<and>
     wf_config cfg \<and> mx_TLSOpts (mo_Metrics (manager_options_of default_flags cfg)) = [[''http/1.1'']]"
proof -
  let ?load = "Load (\<lambda>_. []) (\<lambda>_. []) (\<lambda>_. Inr []) (\<lambda>_. Inl []) (\<lambda>_ c. Inr c) ([] :: string list) :: (load_error \<times> Config) + Config"
  have "validation_errors (\<lambda>_. []) (\<lambda>_. []) Default = []"
    using Default_weights_sum_within fl_mono[of 0]
    unfolding validation_errors_def Let_def by (simp add: Default_def duration_units not_less)
  then have load: "?load = Inr Default" by (simp add: Load_def Validate_def)
  have main: "main ?load default_flags (\<lambda>_. False) = (boot_steps default_flags Default, 0)"
    unfolding load main_def by (simp add: boot_steps_def)
  have "Start \<in> set (boot_steps default_flags Default)" by (simp add: boot_steps_def)
  from main_starts_assembled[OF main this] show ?thesis
    unfolding main by (auto simp: default_flags_def)
qed

end
