(* ===== verification/Spec2Isabelle.thy ===== *)
theory Spec2Isabelle
  imports Lag_Properties Eviction_Properties Taint_Properties Cache_Properties Line_Properties Wiring_Properties
begin

text \<open>
  A verification development for the Kueue hero workload controller.

  \<^bold>\<open>The program.\<close> The controller frees topology domains for \<open>hero\<close> workloads, large jobs that Kueue cannot
  place because no topology domain is free as a whole. The drain controller (\<open>pkg/controller/drain\<close>)
  picks the stuck hero that is next in line, selects a cheapest set of domains whose victims may be
  evicted (\<open>pkg/snapshot\<close>, \<open>pkg/selection\<close>), taints all their nodes (\<open>pkg/taint\<close>), suspends the
  workloads on them by \<open>spec.active=false\<close> with a marker annotation, and hands each back once Kueue has
  evicted it (\<open>pkg/victims\<close>). The janitor (\<open>pkg/controller/janitor\<close>) looks at one tainted node at a
  time and takes the taint off when it no longer serves its hero. All state lives on the API objects:
  node taints and annotations say which drains are in flight. The two controllers share the cluster and a
  nudge channel; \<open>cmd/main.go\<close> starts both over caches that keep only part of each object.

  \<^bold>\<open>The theories\<close>, in the order they import each other.
  \<^item> \<open>Prelude\<close>: named collections, lists and association lists (Go maps as lists keyed by distinct keys), the
    argmin loop \<open>pick\<close> with the locale \<open>preference\<close> for its comparisons, Go's integer division, 64-bit wrap.
  \<^item> \<open>Go_Time\<close>: times and durations in nanoseconds, \<open>Sub\<close> saturating, RFC 3339 printing, strict parsing
    and Go's lenient fallback with the calendar, and their round trip. \<open>Float64\<close>: doubles as rationals rounded to 53 bits.
  \<^item> \<open>Objects\<close>: nodes, pods, workloads, queues and topologies as records with the fields the program reads or
    writes and, as opaque remainders, those its caches strip. \<open>Config\<close>: \<open>pkg/config\<close>.
  \<^item> \<open>Hero\<close>: \<open>pkg/hero\<close>, every function: identification, stuck detection, demand, topology levels.
  \<^item> \<open>Cluster\<close>: the environment. A world holds the objects, the clock, metrics, events, the nudge channel, the
    past states of the objects, and a script of what other actors do before each client call, which call
    fails or loses its reply, and how far the informer cache that answers a read is behind.
    An effectful Go function is a function on worlds that returns an error or a value. \<open>Effects\<close>: its
    proof theory, \<open>keeps\<close>, \<open>returns\<close> and \<open>triple\<close>, the locale \<open>world_invariant\<close> (the contract of a
    predicate that survives interference), and \<open>quiet\<close> worlds, whose script is empty.
  \<^item> \<open>Taint\<close>, \<open>Taint_Laws\<close>: \<open>pkg/taint\<close>; who owns a drain, optimistic updates under resource versions.
  \<^item> \<open>Victims\<close>: \<open>pkg/victims\<close> and the field indexes of \<open>pkg/index\<close>. \<open>Snapshot\<close>: \<open>pkg/snapshot\<close>;
    \<open>Snapshot_Spec\<close>: the specification of its result. \<open>Selection\<close>, \<open>Selection_Laws\<close>: \<open>pkg/selection\<close>. \<open>Order\<close>: \<open>pkg/drain\<close>.
    \<open>Cache\<close>: \<open>pkg/cache\<close>.
  \<^item> \<open>Drain_Ctrl\<close>, \<open>Janitor\<close>: the two reconcilers with all they call, and their event mappings. \<open>Wiring\<close>: the
    registration of the indexes, the watches of both controllers, the start-up of \<open>cmd/main.go\<close>.
  \<^item> \<open>Drain_Laws\<close>, \<open>Janitor_Laws\<close>: what any reconcile keeps and may write in any environment, as locales
    \<open>drain_policy\<close> and \<open>janitor_policy\<close> interpreted on the log of writes. \<open>Runs\<close>, \<open>Victim_Runs\<close>,
    \<open>Janitor_Runs\<close>: closed forms of undisturbed runs. \<open>Decision\<close>: the drain controller as a pure
    decision and its execution. \<open>System\<close>: both controllers interleaved, the clusters
    \<open>reachable\<close> when the caches of given kinds of object lag at will.
  \<^item> \<open>Core_Properties\<close>, \<open>Selection_Properties\<close>, \<open>Taint_Properties\<close>, \<open>Drain_Properties\<close>,
    \<open>Eviction_Properties\<close>, \<open>Janitor_Properties\<close>, \<open>System_Properties\<close>, \<open>Lag_Properties\<close>, \<open>Cache_Properties\<close>, \<open>Line_Properties\<close>,
    \<open>Wiring_Properties\<close>: the properties, each with a concrete instance.

  \<^bold>\<open>What is shown.\<close>
  \<^item> In every environment, with every cache lagging: only victims are suspended, never a workload read as
    hero-classed; a reconcile writes nothing but drain marks and suspension markers, for its own hero, and
    never overwrites a concurrent change of a node. One hero at a time owns drain taints as long as the cache
    of nodes has caught up when a reconcile starts; one stale list of nodes lets a second drain start, after
    which neither hero's reconcile moves its drain, and the count of completed drains depends on what the cache shows.
  \<^item> With other actors at work on a node: edits between the reads and the updates of \<open>EnsureTaint\<close> are absorbed, none
    lost, up to the steps of the backoff.
  \<^item> In an undisturbed cluster (\<open>quiet\<close>: nobody else acts, no call fails, the caches are current): a node is
    tainted only when every gate of the design holds and the selector chose it; a planned drain starts unless a
    node of it is gone or carries the drain key of somebody else or of nobody, and then no workload is touched; a
    pass over the victims suspends and hands back exact sets of workloads, comes back while a victim is there and
    nudges Kueue once there is none; when Kueue evicts what it finds suspended, stated as \<open>kueue_answers\<close>, the next
    pass has handed every victim back; the workloads evicted are more than those the plan weighed, those without
    GPU and those whose pods terminate included; a drain that is aborted, or whose taints the janitor finds useless
    one by one for whatever reason, leaves every other node as it was and no suspended victim, is counted once,
    and opens the gate; waiting writes nothing; the janitor removes a taint exactly when it no longer serves,
    no event that makes a taint useless is dropped by its watches, deadlines are exact up to 64-bit overflow, and
    a lost start time is recorded anew.
  \<^item> The snapshot refines a declarative specification (\<open>Snapshot_Spec\<close>); a plan covers the demand from drainable
    domains of one group, is the cheapest greedy plan over the groups, and does not depend on map order; for
    equal units the greedy packing is complete, for mixed units it misses plans only for want of slack; costs stay
    in bounds in rounded arithmetic.
  \<^item> The stripped caches change no decision; filtered node updates change no decision; the line of heroes
    is a total order and never stalls; the demand is exact up to 32-bit overflow.

  \<^bold>\<open>Bounds and fuel.\<close> No function uses fuel: loops are structural, \<open>RetryOnConflict\<close> recurses on its number of
  steps, the calendar loops of \<open>Go_Time\<close> have termination proofs. Pod counts and priorities are 32-bit
  words, durations are wrapped at 64 bits where the code subtracts them, quantities are exact integers
  in units of \<open>10^-9\<close> as \<open>resource.Quantity\<close> computes for the values in use. Doubles are rounded to 53 bits with
  an unbounded exponent: no cost overflows to infinity or reaches the subnormals.

  \<^bold>\<open>Parameters.\<close> \<open>kueue_lib\<close> gathers the Kueue functions the sources import: decoding of topology assignments,
  the queue order timestamp, the hostname-level helpers, and the steps of the default backoff. The
  validators of apimachinery, flag parsing, file reading and YAML decoding are arguments of \<open>Validate\<close> and
  \<open>Load\<close>. The Kubernetes client is modelled by its documented contract (\<open>Cluster\<close>).

  \<^bold>\<open>Not modelled.\<close> Log lines and the helpers that only format them; event texts, of which the arguments are kept.
  Registration of metrics with Prometheus; the compile-time probe \<open>pkg/compat\<close>; test helpers; manifests
  and charts. controller-runtime's queues: which requests an event maps to is modelled, with the documented
  delivery of events to watches (\<open>Wiring_Properties\<close>), not when they run.
\<close>

end
